(* ===== verification/Prelude.thy ===== *)
theory Prelude
  imports Main "HOL-Library.Word"
begin

text \<open>
  Shared vocabulary of the development: the machine types of the server (bytes, 16, 32 and 64 bit
  unsigned integers), the outcomes a C routine can have (a value, the end of the calling thread,
  the end of the process, undefined behaviour), raw memory as a list of bytes with checked reads
  and writes, the division of such a block into equally wide cells, the counted loop with an early
  return, and transition systems with their invariants and projections. Nothing here is a component of the program; the lemmas are the ones several
  components need.
\<close>

section \<open>Machine types\<close>

type_synonym byte = "8 word"

type_synonym u16 = "16 word"

type_synonym u32 = "32 word"

type_synonym u64 = "64 word"

abbreviation SIZE_MAX :: u64 where
  "SIZE_MAX \<equiv> 18446744073709551615"

abbreviation (input) NULL :: u64 where
  "NULL \<equiv> 0"

named_theorems mem_simps \<open>facts on raw memory and its cells\<close>

named_theorems keeps_rules \<open>rules that push an assertion through a command\<close>

named_theorems outcome_simps \<open>unfolding of sequenced commands\<close>

section \<open>Outcomes of a C routine\<close>

text \<open>
  \<open>Done v s\<close>: the routine returns \<open>v\<close> in state \<open>s\<close>. \<open>Exited s\<close>: it calls \<^verbatim>\<open>pthread_exit\<close>, the
  effects so far stay. \<open>Halted s\<close>: it calls \<^verbatim>\<open>exit\<close>. \<open>Fault f\<close>: it performs an operation whose
  behaviour C leaves undefined, and nothing is known afterwards.
\<close>

datatype fault = Null_Deref | Out_Of_Bounds | Use_After_Free | Bad_Free | Signed_Overflow | Relock | Dead_Mutex | Held_Mutex | Indeterminate

datatype ('a, 's) outcome = Done 'a 's | Exited 's | Halted 's | Fault fault

type_synonym ('s, 'a) cmd = "'s \<Rightarrow> ('a, 's) outcome"

definition ret :: "'a \<Rightarrow> ('s, 'a) cmd" where
  "ret a s = Done a s"

definition raise :: "fault \<Rightarrow> ('s, 'a) cmd" where
  "raise f s = Fault f"

definition thread_exit :: "('s, 'a) cmd" where
  "thread_exit s = Exited s"

definition gets :: "('s \<Rightarrow> 'a) \<Rightarrow> ('s, 'a) cmd" where
  "gets f s = Done (f s) s"

definition modify :: "('s \<Rightarrow> 's) \<Rightarrow> ('s, unit) cmd" where
  "modify f s = Done () (f s)"

definition andThen :: "('s, 'a) cmd \<Rightarrow> ('a \<Rightarrow> ('s, 'b) cmd) \<Rightarrow> ('s, 'b) cmd" where
  "andThen m k s =
     (case m s of Done a t \<Rightarrow> k a t | Exited t \<Rightarrow> Exited t | Halted t \<Rightarrow> Halted t | Fault f \<Rightarrow> Fault f)"

lemmas cmd_defs [outcome_simps] =
  ret_def raise_def thread_exit_def gets_def modify_def andThen_def

lemma andThen_assoc: "andThen (andThen m k) h = andThen m (\<lambda>a. andThen (k a) h)"
  by (rule ext) (simp add: andThen_def split: outcome.splits)

lemma andThen_run: "andThen m k s = Done b t \<Longrightarrow> andThen m (\<lambda>a. andThen (k a) h) s = h b t"
  by (auto simp: andThen_def split: outcome.splits)

lemma andThen_eq_Done: "andThen m k s = Done b t \<longleftrightarrow> (\<exists>a u. m s = Done a u \<and> k a u = Done b t)"
  by (auto simp: andThen_def split: outcome.splits)

text \<open>
  An assertion holds after a command when every state in which the process goes on satisfies it; a
  command keeps an assertion when running it from a state that satisfies it leaves only such
  states. The end of the process and undefined behaviour leave no state.
\<close>

fun after :: "('s \<Rightarrow> bool) \<Rightarrow> ('a, 's) outcome \<Rightarrow> bool" where
  "after P (Done a s) = P s"
| "after P (Exited s) = P s"
| "after P (Halted s) = True"
| "after P (Fault f) = True"

definition keeps :: "('s \<Rightarrow> bool) \<Rightarrow> ('s, 'a) cmd \<Rightarrow> bool" where
  "keeps P m = (\<forall>s. P s \<longrightarrow> after P (m s))"

lemma keepsI: "(\<And>s. P s \<Longrightarrow> after P (m s)) \<Longrightarrow> keeps P m"
  by (simp add: keeps_def)

lemma keepsD: "keeps P m \<Longrightarrow> P s \<Longrightarrow> after P (m s)"
  by (simp add: keeps_def)

lemma keeps_Done: "keeps P m \<Longrightarrow> m s = Done a t \<Longrightarrow> P s \<Longrightarrow> P t"
  using keepsD [of P m s] by simp

lemma after_mono: "after P r \<Longrightarrow> (\<And>s. P s \<Longrightarrow> Q s) \<Longrightarrow> after Q r"
  by (cases r) auto

lemma after_Done: "after P r \<Longrightarrow> r = Done a s \<Longrightarrow> P s"
  by simp

lemma keeps_ret [intro!, keeps_rules]: "keeps P (ret a)"
  by (simp add: keeps_def ret_def)

lemma keeps_raise [intro!, keeps_rules]: "keeps P (raise f)"
  by (simp add: keeps_def raise_def)

lemma keeps_thread_exit [intro!, keeps_rules]: "keeps P thread_exit"
  by (simp add: keeps_def thread_exit_def)

lemma keeps_gets [intro!, keeps_rules]: "keeps P (gets f)"
  by (simp add: keeps_def gets_def)

lemma keeps_modify: "(\<And>s. P s \<Longrightarrow> P (f s)) \<Longrightarrow> keeps P (modify f)"
  by (simp add: keeps_def modify_def)

lemma keeps_andThen [intro, keeps_rules]:
  assumes "keeps P m" and "\<And>a. keeps P (k a)"
  shows "keeps P (andThen m k)"
proof (rule keepsI)
  fix s assume "P s"
  with assms(1) have "after P (m s)" by (rule keepsD)
  with assms(2) show "after P (andThen m k s)"
    by (cases "m s") (auto simp: andThen_def dest: keepsD)
qed

lemma keeps_if [keeps_rules]: "(b \<Longrightarrow> keeps P m) \<Longrightarrow> (\<not> b \<Longrightarrow> keeps P n) \<Longrightarrow> keeps P (if b then m else n)"
  by simp

lemma keeps_case_prod [keeps_rules]: "(\<And>a b. x = (a, b) \<Longrightarrow> keeps P (m a b)) \<Longrightarrow> keeps P (case x of (a, b) \<Rightarrow> m a b)"
  by (cases x) simp

lemma keeps_case_option [keeps_rules]:
  "(x = None \<Longrightarrow> keeps P m) \<Longrightarrow> (\<And>a. x = Some a \<Longrightarrow> keeps P (n a)) \<Longrightarrow> keeps P (case x of None \<Rightarrow> m | Some a \<Rightarrow> n a)"
  by (cases x) simp_all

lemma keeps_Let [keeps_rules]: "(\<And>x. x = e \<Longrightarrow> keeps P (m x)) \<Longrightarrow> keeps P (let x = e in m x)"
  by simp

text \<open>Commands on one half of a paired state.\<close>

definition on_fst :: "('s, 'a) cmd \<Rightarrow> ('s \<times> 'h, 'a) cmd" where
  "on_fst m = (\<lambda>(s, w). case m s of Done a t \<Rightarrow> Done a (t, w) | Exited t \<Rightarrow> Exited (t, w)
     | Halted t \<Rightarrow> Halted (t, w) | Fault f \<Rightarrow> Fault f)"

definition on_snd :: "('h, 'a) cmd \<Rightarrow> ('s \<times> 'h, 'a) cmd" where
  "on_snd m = (\<lambda>(s, w). case m w of Done a t \<Rightarrow> Done a (s, t) | Exited t \<Rightarrow> Exited (s, t)
     | Halted t \<Rightarrow> Halted (s, t) | Fault f \<Rightarrow> Fault f)"

lemma on_fst_apply [outcome_simps]:
  "on_fst m (s, w) = (case m s of Done a t \<Rightarrow> Done a (t, w) | Exited t \<Rightarrow> Exited (t, w)
     | Halted t \<Rightarrow> Halted (t, w) | Fault f \<Rightarrow> Fault f)"
  by (simp add: on_fst_def)

lemma on_snd_apply [outcome_simps]:
  "on_snd m (s, w) = (case m w of Done a t \<Rightarrow> Done a (s, t) | Exited t \<Rightarrow> Exited (s, t)
     | Halted t \<Rightarrow> Halted (s, t) | Fault f \<Rightarrow> Fault f)"
  by (simp add: on_snd_def)

text \<open>Loops whose body may fault, exit or change the state.\<close>

fun for_each :: "'i list \<Rightarrow> ('i \<Rightarrow> ('s, unit) cmd) \<Rightarrow> ('s, unit) cmd" where
  "for_each [] body = ret ()"
| "for_each (i # is) body = andThen (body i) (\<lambda>_. for_each is body)"

lemma keeps_for_each [intro, keeps_rules]: "(\<And>i. keeps P (body i)) \<Longrightarrow> keeps P (for_each is body)"
  by (induction "is") auto

text \<open>A computation with a fault as a command that leaves the state alone.\<close>

definition checked :: "fault + 'a \<Rightarrow> ('s, 'a) cmd" where
  "checked r s = (case r of Inl f \<Rightarrow> Fault f | Inr a \<Rightarrow> Done a s)"

lemma checked_simps [simp]: "checked (Inl f) s = Fault f" "checked (Inr a) s = Done a s"
  by (simp_all add: checked_def)

lemma keeps_checked [intro!, keeps_rules]: "keeps P (checked r)"
  by (cases r) (auto simp: keeps_def)

section \<open>Counted loops with an early return\<close>

text \<open>
  \<open>for_ret is body s\<close> runs \<open>body i\<close> for each index of \<open>is\<close> in order. \<open>Inl\<close> carries the loop's
  local variables to the next iteration, \<open>Inr\<close> is a \<^verbatim>\<open>return\<close> from inside the loop.
\<close>

fun for_ret :: "'i list \<Rightarrow> ('i \<Rightarrow> 's \<Rightarrow> 's + 'r) \<Rightarrow> 's \<Rightarrow> 's + 'r" where
  "for_ret [] body s = Inl s"
| "for_ret (i # is) body s =
     (case body i s of Inl s' \<Rightarrow> for_ret is body s' | Inr r \<Rightarrow> Inr r)"

text \<open>A loop that only tests each index and returns at the first failure.\<close>

lemma for_ret_test:
  assumes "\<And>i. i \<in> set is \<Longrightarrow> body i () = (if Q i then Inl () else Inr r)"
  shows "for_ret is body () = (if list_all Q is then Inl () else Inr r)"
  using assms by (induction "is") auto

section \<open>Raw memory\<close>

definition read_bytes :: "nat \<Rightarrow> nat \<Rightarrow> byte list \<Rightarrow> byte list option" where
  "read_bytes off n mem = (if off + n \<le> length mem then Some (take n (drop off mem)) else None)"

definition write_bytes :: "nat \<Rightarrow> byte list \<Rightarrow> byte list \<Rightarrow> byte list option" where
  "write_bytes off bs mem =
     (if off + length bs \<le> length mem
      then Some (take off mem @ bs @ drop (off + length bs) mem) else None)"

text \<open>Reading back what was written, and framing: a disjoint range is untouched.\<close>

lemma read_write_same:
  "write_bytes off bs mem = Some mem' \<Longrightarrow> read_bytes off (length bs) mem' = Some bs"
  by (auto simp: write_bytes_def read_bytes_def split: if_splits)

lemma length_write_bytes: "write_bytes off bs mem = Some mem' \<Longrightarrow> length mem' = length mem"
  by (auto simp: write_bytes_def split: if_splits)

subsection \<open>Cells of equal width\<close>

definition cell :: "nat \<Rightarrow> nat \<Rightarrow> byte list \<Rightarrow> byte list" where
  "cell w i mem = take w (drop (i * w) mem)"

definition cells_of :: "nat \<Rightarrow> nat \<Rightarrow> byte list \<Rightarrow> byte list list" where
  "cells_of w n mem = map (\<lambda>i. cell w i mem) [0..<n]"

abbreviation zeros :: "nat \<Rightarrow> byte list" where
  "zeros w \<equiv> replicate w 0"

lemma length_cells_of [simp]: "length (cells_of w n mem) = n"
  by (simp add: cells_of_def)

lemma nth_cells_of [simp]: "i < n \<Longrightarrow> cells_of w n mem ! i = cell w i mem"
  by (simp add: cells_of_def)

lemma cells_of_0 [simp]: "cells_of w 0 mem = []"
  by (simp add: cells_of_def)

lemma cell_end_le: "i < n \<Longrightarrow> i * w + w \<le> n * (w::nat)"
  by (metis Suc_leI add.commute mult_Suc mult_le_mono1)

lemma length_cell: "length mem = n * w \<Longrightarrow> i < n \<Longrightarrow> length (cell w i mem) = w"
  using cell_end_le [of i n w] by (simp add: cell_def)

lemma read_cell [mem_simps]:
  "length mem = n * w \<Longrightarrow> i < n \<Longrightarrow> read_bytes (i * w) w mem = Some (cell w i mem)"
  using cell_end_le [of i n w] by (simp add: read_bytes_def cell_def)

lemma cell_append: "(i + 1) * w \<le> length xs \<Longrightarrow> cell w i (xs @ ys) = cell w i xs"
  by (simp add: cell_def)

lemma cell_split:
  assumes "length xs = i * w" "length ys = w"
  shows "cell w j (xs @ ys @ zs) =
    (if j < i then cell w j xs else if j = i then ys else cell w (j - Suc i) zs)"
proof (cases "j \<le> i")
  case True
  then show ?thesis
    using assms cell_end_le [of j i w] by (auto simp: cell_def)
next
  case False
  then obtain k where k: "j = Suc (i + k)" using less_imp_Suc_add [of i j] by auto
  then show ?thesis using assms by (simp add: cell_def algebra_simps)
qed

lemma cell_drop: "cell w j (drop (i * w) mem) = cell w (i + j) mem"
  by (simp add: cell_def algebra_simps)

lemma cell_take: "j < i \<Longrightarrow> cell w j (take (i * w) mem) = cell w j mem"
proof -
  assume "j < i"
  then have "j * w + w \<le> i * w" by (rule cell_end_le)
  then show ?thesis by (simp add: cell_def drop_take min_def)
qed

text \<open>Writing one cell is a list update of the cells; the block keeps its length.\<close>

lemma write_cell:
  assumes "length mem = n * w" "i < n" "length bs = w"
  obtains mem' where "write_bytes (i * w) bs mem = Some mem'" "length mem' = n * w"
    "cells_of w n mem' = (cells_of w n mem)[i := bs]"
proof
  let ?m = "take (i * w) mem @ bs @ drop (i * w + w) mem"
  have le: "i * w + w \<le> length mem" using assms cell_end_le [of i n w] by simp
  then show "write_bytes (i * w) bs mem = Some ?m"
    using assms by (simp add: write_bytes_def)
  show "length ?m = n * w" using le assms by simp
  have "cell w j ?m = (if j = i then bs else cell w j mem)" for j
  proof -
    have "cell w j ?m = (if j < i then cell w j (take (i * w) mem) else if j = i then bs
        else cell w (j - Suc i) (drop (Suc i * w) mem))"
      using le assms by (subst cell_split) (auto simp: add.commute)
    then show ?thesis by (auto simp: cell_take cell_drop simp del: mult_Suc)
  qed
  then show "cells_of w n ?m = (cells_of w n mem)[i := bs]"
    using assms by (auto intro: nth_equalityI simp: nth_list_update)
qed

text \<open>Growing by zeroed cells and shrinking to a prefix.\<close>

lemma cells_of_grow [mem_simps]:
  assumes "length mem = n * w"
  shows "cells_of w (n + k) (mem @ zeros (k * w)) = cells_of w n mem @ replicate k (zeros w)"
proof (rule nth_equalityI)
  show "length (cells_of w (n + k) (mem @ zeros (k * w))) =
      length (cells_of w n mem @ replicate k (zeros w))" by simp
next
  fix i assume "i < length (cells_of w (n + k) (mem @ zeros (k * w)))"
  then have i: "i < n + k" by simp
  show "cells_of w (n + k) (mem @ zeros (k * w)) ! i = (cells_of w n mem @ replicate k (zeros w)) ! i"
  proof (cases "i < n")
    case True
    then have "i * w + w \<le> n * w" by (rule cell_end_le)
    then show ?thesis using True assms i by (simp add: nth_append cell_def)
  next
    case False
    then obtain j where j: "i = n + j" using le_iff_add by (auto simp: not_less)
    have "j * w + w \<le> k * w" using i j by (intro cell_end_le) simp
    then show ?thesis using j assms i
      by (simp add: nth_append cell_def algebra_simps min_def)
  qed
qed

lemma cells_of_shrink [mem_simps]:
  "m \<le> n \<Longrightarrow> cells_of w m (take (m * w) mem) = take m (cells_of w n mem)"
  by (rule nth_equalityI) (auto simp: cell_take)

section \<open>Bytes of an integer\<close>

text \<open>
  Little-endian bytes of a natural number, as the host stores an object of \<open>k\<close> bytes, and the
  value a block of bytes denotes. Network order is the reverse of the little-endian order.
\<close>

fun bytes_le :: "nat \<Rightarrow> nat \<Rightarrow> byte list" where
  "bytes_le 0 x = []"
| "bytes_le (Suc k) x = word_of_nat (x mod 256) # bytes_le k (x div 256)"

fun nat_le :: "byte list \<Rightarrow> nat" where
  "nat_le [] = 0"
| "nat_le (b # bs) = unat b + 256 * nat_le bs"

lemma unat_byte_less: "unat (b :: byte) < 256"
  using unsigned_less [of b, where 'a = nat] by simp

lemma length_bytes_le [simp]: "length (bytes_le k x) = k"
  by (induction k arbitrary: x) auto

lemma nat_le_bytes_le [simp]: "nat_le (bytes_le k x) = x mod 256 ^ k"
  by (induction k arbitrary: x) (auto simp: unat_of_nat mod_mult2_eq)

lemma nat_le_less: "nat_le bs < 256 ^ length bs"
proof (induction bs)
  case (Cons b bs)
  have "unat b < 256" by (rule unat_byte_less)
  with Cons show ?case by simp
qed simp

lemma bytes_le_nat_le [simp]: "bytes_le (length bs) (nat_le bs) = bs"
proof (induction bs)
  case (Cons b bs)
  have "unat b < 256" by (rule unat_byte_less)
  with Cons show ?case by simp
qed simp

lemma nat_le_inject: "length xs = length ys \<Longrightarrow> nat_le xs = nat_le ys \<Longrightarrow> xs = ys"
  by (metis bytes_le_nat_le)

lemma nat_le_zeros [simp]: "nat_le (zeros k) = 0"
  by (induction k) auto

section \<open>Transition systems\<close>

inductive reached :: "('s \<Rightarrow> bool) \<Rightarrow> ('s \<Rightarrow> 's \<Rightarrow> bool) \<Rightarrow> 's \<Rightarrow> bool"
  for starts and step where
  reached_start: "starts s \<Longrightarrow> reached starts step s"
| reached_step: "reached starts step s \<Longrightarrow> step s t \<Longrightarrow> reached starts step t"

text \<open>An assertion that the start states satisfy and every step keeps holds wherever the system gets.\<close>

locale inductive_invariant =
  fixes starts :: "'s \<Rightarrow> bool"
    and step :: "'s \<Rightarrow> 's \<Rightarrow> bool"
    and inv :: "'s \<Rightarrow> bool"
  assumes start_law: "starts s \<Longrightarrow> inv s"
    and step_law: "inv s \<Longrightarrow> step s t \<Longrightarrow> inv t"
begin

lemma always: "reached starts step s \<Longrightarrow> inv s"
  by (induction rule: reached.induct) (auto intro: start_law step_law)

lemma onwards: "step\<^sup>*\<^sup>* s t \<Longrightarrow> inv s \<Longrightarrow> inv t"
  by (induction rule: rtranclp_induct) (auto intro: step_law)

end

text \<open>A system seen through a function, each of whose steps is a step of a coarser system.\<close>

locale projection =
  fixes starts :: "'s \<Rightarrow> bool" and step :: "'s \<Rightarrow> 's \<Rightarrow> bool"
    and starts' :: "'t \<Rightarrow> bool" and step' :: "'t \<Rightarrow> 't \<Rightarrow> bool"
    and view :: "'s \<Rightarrow> 't"
  assumes view_start: "starts s \<Longrightarrow> starts' (view s)"
    and view_step: "step s t \<Longrightarrow> step' (view s) (view t)"
begin

lemma view_reached: "reached starts step s \<Longrightarrow> reached starts' step' (view s)"
  by (induction rule: reached.induct) (auto intro: reached_start view_start reached_step view_step)

end

end
