(* ===== verification/DynArray.thy ===== *)
theory DynArray
  imports Prelude
begin

text \<open>
  The thread-safe dynamic array of \<^verbatim>\<open>Server/dynamic_array.c\<close>, byte by byte. The record is the struct
  \<^verbatim>\<open>DynamicArray\<close>; \<open>heap_region\<close> is the block the pointer of that name points to (\<open>None\<close> for NULL), and
  an element is \<open>element_byte_footprint\<close> consecutive bytes of it. A routine is a command on
  \<open>dyn_array option\<close>, where \<open>None\<close> is a NULL \<^verbatim>\<open>store_ref\<close>; its value is the C return code. Sizes are
  64 bit words, so the counters wrap as \<^verbatim>\<open>size_t\<close> does; a \<^verbatim>\<open>memcpy\<close>, \<^verbatim>\<open>memset\<close> or \<^verbatim>\<open>memcmp\<close> that leaves
  its block is a fault.

  The allocator is a parameter: which requests it grants and what bytes a grown block holds beyond
  the old ones. A mutex is free, held, or dead (destroyed, or never initialised). For the
  default mutex POSIX leaves undefined to lock a dead one, to lock one the caller holds already and to
  destroy a held one, so these are faults; a lock that is free is taken without an error, and the branches
  for an error code of \<^verbatim>\<open>pthread_mutex_lock\<close> stay in the definitions although nothing takes them.
\<close>

section \<open>State and environment\<close>

datatype mutex = Unlocked | Locked | Dead

record dyn_array =
  floor_threshold :: u64
  element_byte_footprint :: u64
  synchronizer :: mutex
  allocated_slots :: u64
  occupied_slots :: u64
  heap_region :: "byte list option"

record allocator =
  grants :: "nat \<Rightarrow> bool"
  junk :: "nat \<Rightarrow> byte"

text \<open>An allocator that grants every request, for concrete runs.\<close>

definition generous :: allocator where
  "generous = \<lparr>grants = (\<lambda>_. True), junk = (\<lambda>_. 255)\<rparr>"

definition calloc :: "allocator \<Rightarrow> u64 \<Rightarrow> u64 \<Rightarrow> byte list option" where
  "calloc al n sz =
     (if uint n * uint sz \<le> uint SIZE_MAX \<and> grants al (unat n * unat sz)
      then Some (zeros (unat n * unat sz)) else None)"

definition realloc :: "allocator \<Rightarrow> byte list option \<Rightarrow> u64 \<Rightarrow> byte list option" where
  "realloc al old sz =
     (if grants al (unat sz)
      then (let prior = (case old of None \<Rightarrow> [] | Some mem \<Rightarrow> mem)
            in Some (take (unat sz) prior @ map (junk al) [length prior..<unat sz]))
      else None)"

definition lock_store :: "(dyn_array, int) cmd" where
  "lock_store st =
     (case synchronizer st of
        Unlocked \<Rightarrow> Done 0 (st\<lparr>synchronizer := Locked\<rparr>)
      | Locked \<Rightarrow> Fault Relock
      | Dead \<Rightarrow> Fault Dead_Mutex)"

definition unlock_store :: "(dyn_array, unit) cmd" where
  "unlock_store = modify (\<lambda>st. st\<lparr>synchronizer := Unlocked\<rparr>)"

text \<open>\<^verbatim>\<open>memcpy\<close> out of and into the element at an index, address \<^verbatim>\<open>heap_region + idx * footprint\<close>.\<close>

definition peek :: "u64 \<Rightarrow> (dyn_array, byte list) cmd" where
  "peek idx st =
     (case heap_region st of
        None \<Rightarrow> Fault Null_Deref
      | Some mem \<Rightarrow>
          (case read_bytes (unat (idx * element_byte_footprint st)) (unat (element_byte_footprint st)) mem of
             None \<Rightarrow> Fault Out_Of_Bounds
           | Some bs \<Rightarrow> Done bs st))"

definition poke :: "u64 \<Rightarrow> byte list \<Rightarrow> (dyn_array, unit) cmd" where
  "poke idx bs st =
     (case heap_region st of
        None \<Rightarrow> Fault Null_Deref
      | Some mem \<Rightarrow>
          (let w = unat (element_byte_footprint st) in
           if length bs < w then Fault Out_Of_Bounds
           else (case write_bytes (unat (idx * element_byte_footprint st)) (take w bs) mem of
                   None \<Rightarrow> Fault Out_Of_Bounds
                 | Some mem' \<Rightarrow> Done () (st\<lparr>heap_region := Some mem'\<rparr>))))"

definition lift_store :: "(dyn_array, 'a) cmd \<Rightarrow> dyn_array \<Rightarrow> ('a, dyn_array option) outcome" where
  "lift_store m st = (case m st of Done a t \<Rightarrow> Done a (Some t) | Exited t \<Rightarrow> Exited (Some t)
     | Halted t \<Rightarrow> Halted (Some t) | Fault f \<Rightarrow> Fault f)"

lemmas store_prims [outcome_simps] =
  lock_store_def unlock_store_def lift_store_def

section \<open>Initialisation\<close>

definition configure_memory_store ::
  "allocator \<Rightarrow> bool \<Rightarrow> u64 \<Rightarrow> u64 \<Rightarrow> (dyn_array option, int) cmd" where
  "configure_memory_store al mutex_init_ok starter_slots footprint ref =
     (case ref of
        None \<Rightarrow> Done (-1) None
      | Some st \<Rightarrow>
          if footprint = 0 then Done (-1) ref
          else
            let st = st\<lparr>element_byte_footprint := footprint, occupied_slots := 0,
                       floor_threshold := (if starter_slots \<le> 0 then 1 else starter_slots)\<rparr>;
                region = (if starter_slots \<le> 0 then None else calloc al starter_slots footprint)
            in
              if starter_slots > 0 \<and> region = None then Done (-1) (Some (st\<lparr>heap_region := None\<rparr>))
              else if mutex_init_ok then
                Done 0 (Some (st\<lparr>heap_region := region,
                  allocated_slots := (if starter_slots \<le> 0 then 0 else starter_slots),
                  synchronizer := Unlocked\<rparr>))
              else Done (-1) (Some (st\<lparr>heap_region := None, allocated_slots := 0\<rparr>)))"

section \<open>Growing and shrinking\<close>

definition expand_storage_if_required :: "allocator \<Rightarrow> (dyn_array, int) cmd" where
  "expand_storage_if_required al st =
     (if occupied_slots st < allocated_slots st then Done 0 st
      else if allocated_slots st \<noteq> 0 \<and> allocated_slots st > SIZE_MAX div 2 then Done (-1) st
      else
        let next_cap = (if allocated_slots st \<noteq> 0 then allocated_slots st * 2 else floor_threshold st);
            previous_cap = allocated_slots st;
            width = element_byte_footprint st
        in
          if \<not> (width = 0 \<or> next_cap \<le> SIZE_MAX div width) then Done (-1) st
          else
            (case realloc al (heap_region st) (next_cap * width) of
               None \<Rightarrow> Done (-1) st
             | Some block \<Rightarrow>
                 if next_cap \<le> previous_cap
                 then Done 0 (st\<lparr>heap_region := Some block, allocated_slots := next_cap\<rparr>)
                 else
                   (case write_bytes (unat (previous_cap * width))
                           (zeros (unat ((next_cap - previous_cap) * width))) block of
                      None \<Rightarrow> Fault Out_Of_Bounds
                    | Some block' \<Rightarrow>
                        Done 0 (st\<lparr>heap_region := Some block', allocated_slots := next_cap\<rparr>))))"

text \<open>
  The scan that decides whether the upper part can go: \<^verbatim>\<open>memcmp(elem_p, &empty_ref, footprint)\<close>
  compares an element with a NULL pointer variable, which has eight bytes; a wider element reads
  beyond it.
\<close>

definition upper_part_empty :: "dyn_array \<Rightarrow> u64 \<Rightarrow> fault + bool" where
  "upper_part_empty st reduced_cap =
     (let w = unat (element_byte_footprint st) in
      case for_ret [unat reduced_cap..<unat (allocated_slots st)]
             (\<lambda>k (_ :: unit).
                (case heap_region st of
                   None \<Rightarrow> Inr (Inl Null_Deref)
                 | Some mem \<Rightarrow>
                     (case read_bytes (k * w) w mem of
                        None \<Rightarrow> Inr (Inl Out_Of_Bounds)
                      | Some bs \<Rightarrow>
                          if w > 8 then Inr (Inl Out_Of_Bounds)
                          else if bs = zeros w then Inl () else Inr (Inr False)))) () of
        Inl _ \<Rightarrow> Inr True
      | Inr r \<Rightarrow> r)"

definition evaluate_compaction :: "allocator \<Rightarrow> u64 \<Rightarrow> (dyn_array, int) cmd" where
  "evaluate_compaction al excised_idx st =
     (if allocated_slots st = 0 then Done (-1) st
      else if excised_idx \<noteq> allocated_slots st div 2 - 1 then Done 0 st
      else
        let half = allocated_slots st div 2;
            reduced_cap = (if half \<ge> floor_threshold st then half else floor_threshold st)
        in
          (case upper_part_empty st reduced_cap of
             Inl f \<Rightarrow> Fault f
           | Inr compaction_allowed \<Rightarrow>
               if \<not> compaction_allowed then Done 0 st
               else
                 (case realloc al (heap_region st) (reduced_cap * element_byte_footprint st) of
                    None \<Rightarrow> Done (-1) st
                  | Some block \<Rightarrow>
                      Done 0 (st\<lparr>heap_region := Some block, allocated_slots := reduced_cap\<rparr>))))"

section \<open>Element operations\<close>

definition append_to_store :: "allocator \<Rightarrow> byte list option \<Rightarrow> (dyn_array option, int) cmd" where
  "append_to_store al payload ref =
     (case (ref, payload) of
        (Some st, Some bytes) \<Rightarrow>
          lift_store
            (andThen lock_store (\<lambda>lk.
               if lk = 0 then
                 andThen (expand_storage_if_required al) (\<lambda>rc.
                   if rc = 0 then
                     andThen (gets occupied_slots) (\<lambda>n.
                     andThen (poke n bytes) (\<lambda>_.
                     andThen (modify (\<lambda>s. s\<lparr>occupied_slots := occupied_slots s + 1\<rparr>)) (\<lambda>_.
                     andThen unlock_store (\<lambda>_. ret 0))))
                   else andThen unlock_store (\<lambda>_. ret (-1)))
               else ret (-1))) st
      | _ \<Rightarrow> Done (-1) ref)"

text \<open>
  \<^verbatim>\<open>extract_tail_from_store\<close>: the value pairs the return code with the bytes copied to the receiver,
  if there is a receiver.
\<close>

definition extract_tail_from_store ::
  "allocator \<Rightarrow> bool \<Rightarrow> (dyn_array option, int \<times> byte list option) cmd" where
  "extract_tail_from_store al has_receiver ref =
     (case ref of
        None \<Rightarrow> Done (-1, None) None
      | Some st \<Rightarrow>
          lift_store
            (andThen lock_store (\<lambda>lk.
               if lk = 0 then
                 andThen (gets occupied_slots) (\<lambda>n.
                   if n \<noteq> 0 then
                     andThen (modify (\<lambda>s. s\<lparr>occupied_slots := occupied_slots s - 1\<rparr>)) (\<lambda>_.
                     andThen (if has_receiver then andThen (peek (n - 1)) (\<lambda>bs. ret (Some bs))
                              else ret None) (\<lambda>out.
                     andThen (evaluate_compaction al (n - 1)) (\<lambda>_.
                     andThen unlock_store (\<lambda>_. ret (0, out)))))
                   else andThen unlock_store (\<lambda>_. ret (-1, None)))
               else ret (-1, None))) st)"

definition implant_at_offset ::
  "allocator \<Rightarrow> u64 \<Rightarrow> byte list option \<Rightarrow> (dyn_array option, int) cmd" where
  "implant_at_offset al offset_idx payload ref =
     (case (ref, payload) of
        (Some st, Some bytes) \<Rightarrow>
          lift_store
            (andThen lock_store (\<lambda>lk.
               if lk = 0 then
                 andThen (gets allocated_slots) (\<lambda>cap.
                   if offset_idx \<le> cap then
                     andThen (expand_storage_if_required al) (\<lambda>rc.
                       if rc = 0 then
                         andThen (poke offset_idx bytes) (\<lambda>_.
                         andThen (modify (\<lambda>s. s\<lparr>occupied_slots := occupied_slots s + 1\<rparr>)) (\<lambda>_.
                         andThen unlock_store (\<lambda>_. ret 0)))
                       else andThen unlock_store (\<lambda>_. ret (-1)))
                   else andThen unlock_store (\<lambda>_. ret (-1)))
               else ret (-1))) st
      | _ \<Rightarrow> Done (-1) ref)"

definition fetch_from_offset ::
  "u64 \<Rightarrow> bool \<Rightarrow> (dyn_array option, int \<times> byte list option) cmd" where
  "fetch_from_offset offset_idx has_receiver ref =
     (case ref of
        None \<Rightarrow> Done (-1, None) None
      | Some st \<Rightarrow>
          if \<not> has_receiver then Done (-1, None) ref
          else
            lift_store
              (andThen lock_store (\<lambda>lk.
                 if lk = 0 then
                   andThen (gets allocated_slots) (\<lambda>cap.
                     if offset_idx < cap then
                       andThen (peek offset_idx) (\<lambda>bs.
                       andThen unlock_store (\<lambda>_. ret (0, Some bs)))
                     else andThen unlock_store (\<lambda>_. ret (-1, None)))
                 else ret (-1, None))) st)"

text \<open>
  A cleanup hook gets the address of an element: it may rewrite the element's bytes and change the
  rest of the world, which the state carries beside the store.
\<close>

type_synonym 'h hook = "byte list \<Rightarrow> ('h, byte list) cmd"

definition run_hook :: "'h hook \<Rightarrow> u64 \<Rightarrow> (dyn_array \<times> 'h, unit) cmd" where
  "run_hook h idx =
     andThen (on_fst (peek idx)) (\<lambda>bs.
     andThen (on_snd (h bs)) (\<lambda>bs'. on_fst (poke idx bs')))"

definition lift_store_with ::
  "(dyn_array \<times> 'h, 'a) cmd \<Rightarrow> dyn_array \<times> 'h \<Rightarrow> ('a, dyn_array option \<times> 'h) outcome" where
  "lift_store_with m s =
     (case m s of Done a (t, w) \<Rightarrow> Done a (Some t, w) | Exited (t, w) \<Rightarrow> Exited (Some t, w)
      | Halted (t, w) \<Rightarrow> Halted (Some t, w) | Fault f \<Rightarrow> Fault f)"

definition excise_at_offset ::
  "allocator \<Rightarrow> u64 \<Rightarrow> 'h hook option \<Rightarrow> (dyn_array option \<times> 'h, int) cmd" where
  "excise_at_offset al offset_idx cleanup_hook = (\<lambda>(ref, w).
     (case ref of
        None \<Rightarrow> Done (-1) (None, w)
      | Some st \<Rightarrow>
          lift_store_with
            (andThen (on_fst lock_store) (\<lambda>lk.
               if lk = 0 then
                 andThen (on_fst (gets (\<lambda>s. (allocated_slots s, element_byte_footprint s)))) (\<lambda>(cap, width).
                   if offset_idx < cap then
                     andThen (case cleanup_hook of None \<Rightarrow> ret () | Some h \<Rightarrow> run_hook h offset_idx) (\<lambda>_.
                     andThen (on_fst (poke offset_idx (zeros (unat width)))) (\<lambda>_.
                     andThen (on_fst (modify (\<lambda>s. s\<lparr>occupied_slots := occupied_slots s - 1\<rparr>))) (\<lambda>_.
                     andThen (on_fst (evaluate_compaction al offset_idx)) (\<lambda>_.
                     andThen (on_fst unlock_store) (\<lambda>_. ret 0)))))
                   else andThen (on_fst unlock_store) (\<lambda>_. ret (-1)))
               else ret (-1))) (st, w)))"

section \<open>Destruction\<close>

fun run_hooks :: "'h hook \<Rightarrow> nat list \<Rightarrow> (dyn_array \<times> 'h, unit) cmd" where
  "run_hooks h [] = ret ()"
| "run_hooks h (c # cs) = andThen (run_hook h (word_of_nat c)) (\<lambda>_. run_hooks h cs)"

definition demolish_memory_store :: "'h hook option \<Rightarrow> (dyn_array option \<times> 'h, unit) cmd" where
  "demolish_memory_store cleanup_hook = (\<lambda>(ref, w).
     (case ref of
        None \<Rightarrow> Done () (None, w)
      | Some st \<Rightarrow>
          lift_store_with
            (andThen (on_fst lock_store) (\<lambda>lk.
               if lk = 0 then
                 andThen (case (heap_region st, cleanup_hook) of
                            (Some _, Some h) \<Rightarrow> run_hooks h [0..<unat (allocated_slots st)]
                          | _ \<Rightarrow> ret ()) (\<lambda>_.
                 andThen (on_fst (modify (\<lambda>s. s\<lparr>heap_region := None, element_byte_footprint := 0,
                            occupied_slots := 0, allocated_slots := 0, floor_threshold := 0\<rparr>))) (\<lambda>_.
                 andThen (on_fst unlock_store) (\<lambda>_.
                 on_fst (modify (\<lambda>s. s\<lparr>synchronizer := Dead\<rparr>)))))
               else ret ())) (st, w)))"

text \<open>
  \<^verbatim>\<open>free\<close> as the cleanup hook gets the address of a slot, and never looks at what the slot holds. An
  address is an offset in the store's block; the state carries beside the store whether the block is
  still allocated. Only the start of an allocated block can be freed.
\<close>

definition free_address :: "u64 \<Rightarrow> (dyn_array \<times> bool, unit) cmd" where
  "free_address offset = (\<lambda>(st, block_live).
     (if offset = 0 \<and> block_live then Done () (st, False) else Fault Bad_Free))"

fun free_slots :: "nat list \<Rightarrow> (dyn_array \<times> bool, unit) cmd" where
  "free_slots [] = ret ()"
| "free_slots (c # cs) =
     andThen (on_fst (gets element_byte_footprint)) (\<lambda>footprint.
     andThen (free_address (word_of_nat c * footprint)) (\<lambda>_. free_slots cs))"

definition demolish_by_free :: "(dyn_array option, unit) cmd" where
  "demolish_by_free ref =
     (case ref of
        None \<Rightarrow> Done () None
      | Some st \<Rightarrow>
          (case andThen (on_fst lock_store) (\<lambda>lk.
             if lk = 0 then
               andThen (if heap_region st \<noteq> None then free_slots [0..<unat (allocated_slots st)] else ret ()) (\<lambda>_.
               andThen (if heap_region st \<noteq> None then free_address 0 else ret ()) (\<lambda>_.
               andThen (on_fst (modify (\<lambda>s. s\<lparr>heap_region := None, element_byte_footprint := 0,
                          occupied_slots := 0, allocated_slots := 0, floor_threshold := 0\<rparr>))) (\<lambda>_.
               andThen (on_fst unlock_store) (\<lambda>_.
               on_fst (modify (\<lambda>s. s\<lparr>synchronizer := Dead\<rparr>))))))
             else ret ()) (st, heap_region st \<noteq> None) of
             Done _ (t, _) \<Rightarrow> Done () (Some t) | Exited (t, _) \<Rightarrow> Exited (Some t)
           | Halted (t, _) \<Rightarrow> Halted (Some t) | Fault f \<Rightarrow> Fault f))"

end
