(* ===== verification/Ledger.thy ===== *)
theory Ledger
  imports DynArray
begin

text \<open>
  The linked queue of \<^verbatim>\<open>Server/queue_list.c\<close> over an explicit heap: one map from addresses to the
  \<^verbatim>\<open>link_unit\<close> structs and one from addresses to payload blocks. \<^verbatim>\<open>malloc\<close> answers from a supply, where 0
  and an exhausted supply are a refusal. An access to a missing address is a use after free, freeing
  one a bad free. The value of a routine is its return code with what it wrote to the receiver.

  The walks along the successor links are partial functions: on a cyclic heap they would not return
  (\<open>None\<close>). The theory \<open>Ledger_Queue\<close> shows that they always return on a well-formed queue.
\<close>

section \<open>State\<close>

record link_unit =
  predecessor_link :: u64
  payload_data :: u64
  successor_link :: u64

record chain_ledger =
  payload_footprint :: u64
  access_lock :: mutex
  tail_node :: u64
  head_node :: u64

record chain_world =
  ledger_ref :: "chain_ledger option"
  units :: "u64 \<Rightarrow> link_unit option"
  blocks :: "u64 \<Rightarrow> byte list option"
  heap_supply :: "u64 list"

definition ALLOC_FAULT :: int where
  "ALLOC_FAULT = -2"

definition VOID_STATE :: int where
  "VOID_STATE = -1"

definition NORMAL_STATE :: int where
  "NORMAL_STATE = 0"

section \<open>Primitive steps\<close>

definition the_ledger :: "(chain_world, chain_ledger) cmd" where
  "the_ledger w = (case ledger_ref w of None \<Rightarrow> Fault Null_Deref | Some l \<Rightarrow> Done l w)"

definition set_ledger :: "(chain_ledger \<Rightarrow> chain_ledger) \<Rightarrow> (chain_world, unit) cmd" where
  "set_ledger f w =
     (case ledger_ref w of None \<Rightarrow> Fault Null_Deref | Some l \<Rightarrow> Done () (w\<lparr>ledger_ref := Some (f l)\<rparr>))"

text \<open>The routines ignore what \<^verbatim>\<open>pthread_mutex_lock\<close> returns; locking a dead mutex is undefined.\<close>

definition lock_ledger :: "(chain_world, unit) cmd" where
  "lock_ledger = andThen the_ledger (\<lambda>l.
     case access_lock l of
       Unlocked \<Rightarrow> set_ledger (\<lambda>l. l\<lparr>access_lock := Locked\<rparr>)
     | Locked \<Rightarrow> raise Relock
     | Dead \<Rightarrow> raise Dead_Mutex)"

definition unlock_ledger :: "(chain_world, unit) cmd" where
  "unlock_ledger = set_ledger (\<lambda>l. if access_lock l = Locked then l\<lparr>access_lock := Unlocked\<rparr> else l)"

definition malloc :: "(chain_world, u64) cmd" where
  "malloc w = (case heap_supply w of [] \<Rightarrow> Done NULL w | a # as \<Rightarrow> Done a (w\<lparr>heap_supply := as\<rparr>))"

definition get_unit :: "u64 \<Rightarrow> (chain_world, link_unit) cmd" where
  "get_unit a w =
     (if a = NULL then Fault Null_Deref
      else case units w a of None \<Rightarrow> Fault Use_After_Free | Some u \<Rightarrow> Done u w)"

definition put_unit :: "u64 \<Rightarrow> link_unit \<Rightarrow> (chain_world, unit) cmd" where
  "put_unit a u w = Done () (w\<lparr>units := (units w)(a := Some u)\<rparr>)"

definition change_unit :: "u64 \<Rightarrow> (link_unit \<Rightarrow> link_unit) \<Rightarrow> (chain_world, unit) cmd" where
  "change_unit a f = andThen (get_unit a) (\<lambda>u. put_unit a (f u))"

definition free_unit :: "u64 \<Rightarrow> (chain_world, unit) cmd" where
  "free_unit a w =
     (if a = NULL then Done () w
      else if units w a = None then Fault Bad_Free else Done () (w\<lparr>units := (units w)(a := None)\<rparr>))"

definition free_block :: "u64 \<Rightarrow> (chain_world, unit) cmd" where
  "free_block a w =
     (if a = NULL then Done () w
      else if blocks w a = None then Fault Bad_Free else Done () (w\<lparr>blocks := (blocks w)(a := None)\<rparr>))"

text \<open>\<^verbatim>\<open>memcpy\<close> of \<open>n\<close> bytes out of a block and into a new one.\<close>

definition copy_out :: "u64 \<Rightarrow> u64 \<Rightarrow> (chain_world, byte list) cmd" where
  "copy_out a n w =
     (if a = NULL then Fault Null_Deref
      else (case blocks w a of
              None \<Rightarrow> Fault Use_After_Free
            | Some bs \<Rightarrow> if length bs < unat n then Fault Out_Of_Bounds else Done (take (unat n) bs) w))"

definition copy_in :: "u64 \<Rightarrow> byte list \<Rightarrow> u64 \<Rightarrow> (chain_world, unit) cmd" where
  "copy_in a payload n w =
     (if length payload < unat n then Fault Out_Of_Bounds
      else Done () (w\<lparr>blocks := (blocks w)(a := Some (take (unat n) payload))\<rparr>))"

lemmas chain_prims =
  the_ledger_def set_ledger_def lock_ledger_def unlock_ledger_def malloc_def get_unit_def put_unit_def
  change_unit_def free_unit_def free_block_def copy_out_def copy_in_def

section \<open>Operations\<close>

definition bootstrap_chain_ledger :: "u64 \<Rightarrow> (chain_world, unit) cmd" where
  "bootstrap_chain_ledger blueprint_size =
     set_ledger (\<lambda>l. l\<lparr>payload_footprint := blueprint_size, tail_node := NULL, head_node := NULL,
                       access_lock := Unlocked\<rparr>)"

definition eradicate_chain_ledger :: "(chain_world, unit) cmd" where
  "eradicate_chain_ledger w =
     (if ledger_ref w \<noteq> None then andThen lock_ledger (\<lambda>_. unlock_ledger) w else Done () w)"

definition push_to_chain :: "byte list option \<Rightarrow> (chain_world, int) cmd" where
  "push_to_chain payload w =
     (case (ledger_ref w, payload) of
        (Some _, Some bytes) \<Rightarrow>
          andThen lock_ledger (\<lambda>_.
          andThen malloc (\<lambda>fresh.
            if fresh \<noteq> NULL then
              andThen malloc (\<lambda>data.
                if data \<noteq> NULL then
                  andThen the_ledger (\<lambda>l.
                  andThen (copy_in data bytes (payload_footprint l)) (\<lambda>_.
                  andThen (put_unit fresh \<lparr>predecessor_link = NULL, payload_data = data, successor_link = NULL\<rparr>) (\<lambda>_.
                  andThen
                    (if head_node l \<noteq> NULL then
                       andThen (change_unit fresh (\<lambda>u. u\<lparr>predecessor_link := tail_node l\<rparr>)) (\<lambda>_.
                       andThen (change_unit (tail_node l) (\<lambda>u. u\<lparr>successor_link := fresh\<rparr>)) (\<lambda>_.
                       set_ledger (\<lambda>l. l\<lparr>tail_node := fresh\<rparr>)))
                     else set_ledger (\<lambda>l. l\<lparr>tail_node := fresh, head_node := fresh\<rparr>)) (\<lambda>_.
                  andThen unlock_ledger (\<lambda>_. ret NORMAL_STATE)))))
                else andThen unlock_ledger (\<lambda>_. ret ALLOC_FAULT))
            else andThen unlock_ledger (\<lambda>_. ret ALLOC_FAULT))) w
      | _ \<Rightarrow> Done ALLOC_FAULT w)"

definition pop_from_chain :: "(chain_world, int \<times> byte list option) cmd" where
  "pop_from_chain =
     andThen lock_ledger (\<lambda>_.
     andThen the_ledger (\<lambda>l.
       if head_node l \<noteq> NULL \<and> tail_node l \<noteq> NULL then
         andThen (get_unit (head_node l)) (\<lambda>target.
         andThen (copy_out (payload_data target) (payload_footprint l)) (\<lambda>bytes.
         andThen (set_ledger (\<lambda>l. l\<lparr>head_node := successor_link target\<rparr>)) (\<lambda>_.
         andThen (if successor_link target = NULL then set_ledger (\<lambda>l. l\<lparr>tail_node := NULL\<rparr>)
                  else change_unit (successor_link target) (\<lambda>u. u\<lparr>predecessor_link := NULL\<rparr>)) (\<lambda>_.
         andThen (free_block (payload_data target)) (\<lambda>_.
         andThen (free_unit (head_node l)) (\<lambda>_.
         andThen unlock_ledger (\<lambda>_. ret (NORMAL_STATE, Some bytes))))))))
       else andThen unlock_ledger (\<lambda>_. ret (VOID_STATE, None))))"

definition peek_chain :: "(chain_world, int \<times> byte list option) cmd" where
  "peek_chain =
     andThen lock_ledger (\<lambda>_.
     andThen the_ledger (\<lambda>l.
       if head_node l \<noteq> NULL \<and> tail_node l \<noteq> NULL then
         andThen (get_unit (head_node l)) (\<lambda>target.
         andThen (copy_out (payload_data target) (payload_footprint l)) (\<lambda>bytes.
         andThen unlock_ledger (\<lambda>_. ret (NORMAL_STATE, Some bytes))))
       else andThen unlock_ledger (\<lambda>_. ret (VOID_STATE, None))))"

text \<open>Taking a unit out of the chain: its neighbours, or the ends, are linked past it.\<close>

definition unlink_unit :: "link_unit \<Rightarrow> (chain_world, unit) cmd" where
  "unlink_unit u =
     andThen (if predecessor_link u = NULL then set_ledger (\<lambda>l. l\<lparr>head_node := successor_link u\<rparr>)
              else change_unit (predecessor_link u) (\<lambda>v. v\<lparr>successor_link := successor_link u\<rparr>)) (\<lambda>_.
     if successor_link u = NULL then set_ledger (\<lambda>l. l\<lparr>tail_node := predecessor_link u\<rparr>)
     else change_unit (successor_link u) (\<lambda>v. v\<lparr>predecessor_link := predecessor_link u\<rparr>))"

text \<open>The search of \<^verbatim>\<open>excise_tail_chain\<close>: the first unit for which the comparison returns 0, or NULL.\<close>

partial_function (option) find_unit ::
  "(byte list \<Rightarrow> int) \<Rightarrow> u64 \<Rightarrow> chain_world \<Rightarrow> (fault + u64) option" where
  "find_unit eval scanner w =
     (if scanner = NULL then Some (Inr NULL)
      else
        (case units w scanner of
           None \<Rightarrow> Some (Inl Use_After_Free)
         | Some u \<Rightarrow>
             (case blocks w (payload_data u) of
                None \<Rightarrow> Some (Inl Use_After_Free)
              | Some bs \<Rightarrow> if eval bs \<noteq> 0 then find_unit eval (successor_link u) w else Some (Inr scanner))))"

definition excise_tail_chain :: "(byte list \<Rightarrow> int) \<Rightarrow> chain_world \<Rightarrow> (int, chain_world) outcome option" where
  "excise_tail_chain eval w =
     (case andThen lock_ledger (\<lambda>_. the_ledger) w of
        Done l w1 \<Rightarrow>
          (case find_unit eval (head_node l) w1 of
             None \<Rightarrow> None
           | Some (Inl f) \<Rightarrow> Some (Fault f)
           | Some (Inr p) \<Rightarrow>
               Some (if p = NULL then andThen unlock_ledger (\<lambda>_. ret VOID_STATE) w1
                     else
                       andThen (get_unit p) (\<lambda>u.
                       andThen (unlink_unit u) (\<lambda>_.
                       andThen (free_block (payload_data u)) (\<lambda>_.
                       andThen (free_unit p) (\<lambda>_.
                       andThen unlock_ledger (\<lambda>_. ret NORMAL_STATE))))) w1))
      | Exited w1 \<Rightarrow> Some (Exited w1) | Halted w1 \<Rightarrow> Some (Halted w1) | Fault f \<Rightarrow> Some (Fault f))"

text \<open>The walk of \<^verbatim>\<open>excise_offset_chain\<close>; the index is converted to \<^verbatim>\<open>size_t\<close> for each comparison.\<close>

partial_function (option) walk_chain ::
  "u64 \<Rightarrow> u64 \<Rightarrow> u64 \<Rightarrow> chain_world \<Rightarrow> (fault + u64) option" where
  "walk_chain limit stepper tracker w =
     (if tracker = NULL \<or> \<not> stepper < limit then Some (Inr tracker)
      else
        (case units w tracker of
           None \<Rightarrow> Some (Inl Use_After_Free)
         | Some u \<Rightarrow> walk_chain limit (stepper + 1) (successor_link u) w))"

text \<open>
  The receiver gets the payload's address, or, for payloads the size of a pointer, the pointer
  stored there, and then the payload block is freed.
\<close>

definition excise_offset_chain ::
  "int \<Rightarrow> bool \<Rightarrow> chain_world \<Rightarrow> (int \<times> u64 option, chain_world) outcome option" where
  "excise_offset_chain offset_idx has_receiver w =
     (if ledger_ref w = None \<or> \<not> has_receiver then Some (Done (-1, None) w)
      else
        (case andThen lock_ledger (\<lambda>_. the_ledger) w of
           Done l w1 \<Rightarrow>
             (case walk_chain (word_of_int offset_idx) 0 (head_node l) w1 of
                None \<Rightarrow> None
              | Some (Inl f) \<Rightarrow> Some (Fault f)
              | Some (Inr p) \<Rightarrow>
                  Some (if p = NULL then andThen unlock_ledger (\<lambda>_. ret (-1, None)) w1
                        else
                          andThen (get_unit p) (\<lambda>u.
                          andThen
                            (if payload_footprint l \<noteq> 8 then ret (payload_data u)
                             else andThen (copy_out (payload_data u) 8) (\<lambda>bs.
                                  andThen (free_block (payload_data u)) (\<lambda>_.
                                  ret (word_of_nat (nat_le bs))))) (\<lambda>received.
                          andThen (unlink_unit u) (\<lambda>_.
                          andThen (free_unit p) (\<lambda>_.
                          andThen unlock_ledger (\<lambda>_. ret (0, Some received)))))) w1))
         | Exited w1 \<Rightarrow> Some (Exited w1) | Halted w1 \<Rightarrow> Some (Halted w1) | Fault f \<Rightarrow> Some (Fault f)))"

text \<open>
  \<^verbatim>\<open>dump_chain_ledger\<close>: the arguments the render hook gets, in order. The hook only prints.
\<close>

partial_function (option) dump_units ::
  "bool \<Rightarrow> u64 list \<Rightarrow> u64 \<Rightarrow> chain_world \<Rightarrow> (fault + u64 list) option" where
  "dump_units references rendered traversal w =
     (if traversal = NULL then Some (Inr rendered)
      else
        (case units w traversal of
           None \<Rightarrow> Some (Inl Use_After_Free)
         | Some u \<Rightarrow>
             (case (if references then copy_out (payload_data u) 8 w else Done [] w) of
                Done bs _ \<Rightarrow>
                  dump_units references
                    (rendered @ [if references then word_of_nat (nat_le bs) else payload_data u])
                    (successor_link u) w
              | Fault f \<Rightarrow> Some (Inl f)
              | _ \<Rightarrow> None)))"

definition dump_chain_ledger :: "chain_world \<Rightarrow> (u64 list, chain_world) outcome option" where
  "dump_chain_ledger w =
     (case andThen lock_ledger (\<lambda>_. the_ledger) w of
        Done l w1 \<Rightarrow>
          (case dump_units (payload_footprint l = 8) [] (head_node l) w1 of
             None \<Rightarrow> None
           | Some (Inl f) \<Rightarrow> Some (Fault f)
           | Some (Inr args) \<Rightarrow> Some (andThen unlock_ledger (\<lambda>_. ret args) w1))
      | Exited w1 \<Rightarrow> Some (Exited w1) | Halted w1 \<Rightarrow> Some (Halted w1) | Fault f \<Rightarrow> Some (Fault f))"

end
