(* ===== verification/Ledger_Queue.thy ===== *)
theory Ledger_Queue
  imports Ledger
begin

text \<open>
  The queue of \<^verbatim>\<open>queue_list.c\<close> implements a list. A chain is described by its cells, each the address
  of a unit, the address of its payload block and the payload; \<open>seg\<close> says that a run of cells is
  linked both ways between a given predecessor and successor, \<open>chain\<close> that the whole ledger is such a
  run between its head and its tail. Every routine is shown to act on the list of cells, to return,
  and never to touch memory outside the chain.
\<close>

section \<open>Runs of linked units\<close>

type_synonym chain_cell = "u64 \<times> u64 \<times> byte list"

abbreviation unit_address :: "chain_cell \<Rightarrow> u64" where
  "unit_address \<equiv> fst"

abbreviation data_address :: "chain_cell \<Rightarrow> u64" where
  "data_address c \<equiv> fst (snd c)"

abbreviation payload :: "chain_cell \<Rightarrow> byte list" where
  "payload c \<equiv> snd (snd c)"

definition first_of :: "chain_cell list \<Rightarrow> u64 \<Rightarrow> u64" where
  "first_of cs nxt = (if cs = [] then nxt else unit_address (hd cs))"

definition last_of :: "u64 \<Rightarrow> chain_cell list \<Rightarrow> u64" where
  "last_of prev cs = (if cs = [] then prev else unit_address (last cs))"

lemma first_of_simps [simp]:
  "first_of [] nxt = nxt" "first_of (c # cs) nxt = unit_address c"
  "first_of (cs @ ds) nxt = first_of cs (first_of ds nxt)"
  by (simp_all add: first_of_def)

lemma last_of_simps [simp]:
  "last_of prev [] = prev" "last_of prev (cs @ [c]) = unit_address c"
  "last_of prev (c # cs) = last_of (unit_address c) cs"
  "last_of prev (cs @ ds) = last_of (last_of prev cs) ds"
  by (simp_all add: last_of_def)

fun seg :: "(u64 \<Rightarrow> link_unit option) \<Rightarrow> (u64 \<Rightarrow> byte list option) \<Rightarrow> u64 \<Rightarrow> chain_cell list \<Rightarrow> u64 \<Rightarrow> bool" where
  "seg U B prev [] nxt = True"
| "seg U B prev (c # cs) nxt =
     (unit_address c \<noteq> NULL \<and> data_address c \<noteq> NULL \<and>
      U (unit_address c) = Some \<lparr>predecessor_link = prev, payload_data = data_address c,
        successor_link = first_of cs nxt\<rparr> \<and>
      B (data_address c) = Some (payload c) \<and> seg U B (unit_address c) cs nxt)"

lemma seg_append [simp]:
  "seg U B prev (cs @ ds) nxt \<longleftrightarrow> seg U B prev cs (first_of ds nxt) \<and> seg U B (last_of prev cs) ds nxt"
  by (induction cs arbitrary: prev) auto

lemma seg_frame:
  assumes "\<forall>c\<in>set cs. U' (unit_address c) = U (unit_address c) \<and> B' (data_address c) = B (data_address c)"
  shows "seg U' B' prev cs nxt = seg U B prev cs nxt"
  using assms by (induction cs arbitrary: prev) auto

lemma first_of_nonnull: "seg U B prev cs nxt \<Longrightarrow> cs \<noteq> [] \<Longrightarrow> first_of cs nxt \<noteq> NULL"
  by (cases cs) auto

lemma last_of_nonnull: "seg U B prev cs nxt \<Longrightarrow> cs \<noteq> [] \<Longrightarrow> last_of prev cs \<noteq> NULL"
  by (cases cs rule: rev_cases) auto

text \<open>Turning the last link forward, or the first link backward, to another neighbour.\<close>

lemma seg_relink_last:
  assumes "seg U B prev (cs @ [c]) nxt" "distinct (map unit_address (cs @ [c]))"
    and "U (unit_address c) = Some u"
  shows "seg (U(unit_address c \<mapsto> u\<lparr>successor_link := n\<rparr>)) B prev (cs @ [c]) n"
proof -
  have "seg (U(unit_address c \<mapsto> u\<lparr>successor_link := n\<rparr>)) B prev cs (unit_address c) = seg U B prev cs (unit_address c)"
    using assms(2) by (intro seg_frame) (auto simp: image_iff)
  then show ?thesis using assms by auto
qed

lemma seg_relink_first:
  assumes "seg U B prev (c # cs) nxt" "distinct (map unit_address (c # cs))"
    and "U (unit_address c) = Some u"
  shows "seg (U(unit_address c \<mapsto> u\<lparr>predecessor_link := p\<rparr>)) B p (c # cs) nxt"
proof -
  have "seg (U(unit_address c \<mapsto> u\<lparr>predecessor_link := p\<rparr>)) B (unit_address c) cs nxt = seg U B (unit_address c) cs nxt"
    using assms(2) by (intro seg_frame) (auto simp: image_iff)
  then show ?thesis using assms by auto
qed

section \<open>A ledger that holds a queue\<close>

definition chain_at :: "mutex \<Rightarrow> chain_world \<Rightarrow> chain_cell list \<Rightarrow> bool" where
  "chain_at m w cs \<longleftrightarrow>
     (case ledger_ref w of
        None \<Rightarrow> False
      | Some l \<Rightarrow> access_lock l = m \<and> head_node l = first_of cs NULL \<and> tail_node l = last_of NULL cs \<and>
          (\<forall>c\<in>set cs. length (payload c) = unat (payload_footprint l))) \<and>
     seg (units w) (blocks w) NULL cs NULL \<and>
     distinct (map unit_address cs) \<and> distinct (map data_address cs)"

abbreviation chain :: "chain_world \<Rightarrow> chain_cell list \<Rightarrow> bool" where
  "chain \<equiv> chain_at Unlocked"

lemma chainE:
  assumes "chain_at m w cs"
  obtains l where "ledger_ref w = Some l" "access_lock l = m" "head_node l = first_of cs NULL"
    "tail_node l = last_of NULL cs" "\<forall>c\<in>set cs. length (payload c) = unat (payload_footprint l)"
    "seg (units w) (blocks w) NULL cs NULL" "distinct (map unit_address cs)" "distinct (map data_address cs)"
  using assms by (auto simp: chain_at_def split: option.splits)

lemma lock_chain:
  assumes "chain w cs"
  shows "\<exists>l. ledger_ref w = Some l \<and> lock_ledger w = Done () (w\<lparr>ledger_ref := Some (l\<lparr>access_lock := Locked\<rparr>)\<rparr>) \<and>
    chain_at Locked (w\<lparr>ledger_ref := Some (l\<lparr>access_lock := Locked\<rparr>)\<rparr>) cs"
  using assms by (auto simp: chain_prims cmd_defs chain_at_def split: option.splits)

lemma unlock_chain:
  assumes "chain_at Locked w cs" "ledger_ref w = Some l"
  shows "unlock_ledger w = Done () (w\<lparr>ledger_ref := Some (l\<lparr>access_lock := Unlocked\<rparr>)\<rparr>) \<and>
    chain (w\<lparr>ledger_ref := Some (l\<lparr>access_lock := Unlocked\<rparr>)\<rparr>) cs"
  using assms by (auto simp: chain_prims cmd_defs chain_at_def)

section \<open>Unlinking a unit\<close>

text \<open>Past the neighbours of a cell the rest of the chain closes; the cell itself is untouched.\<close>

lemma unlink_spec:
  assumes "chain_at m w (cs @ c # ds)"
  shows "\<exists>w' l'. unlink_unit \<lparr>predecessor_link = last_of NULL cs, payload_data = data_address c,
        successor_link = first_of ds NULL\<rparr> w = Done () w' \<and> chain_at m w' (cs @ ds) \<and>
      blocks w' = blocks w \<and> dom (units w') = dom (units w) \<and> heap_supply w' = heap_supply w \<and>
      ledger_ref w' = Some l' \<and> map_option payload_footprint (ledger_ref w) = Some (payload_footprint l')"
proof -
  obtain l where l: "ledger_ref w = Some l" "access_lock l = m" "head_node l = first_of (cs @ c # ds) NULL"
    "tail_node l = last_of NULL (cs @ c # ds)"
    "\<forall>c\<in>set (cs @ c # ds). length (payload c) = unat (payload_footprint l)"
    "seg (units w) (blocks w) NULL (cs @ c # ds) NULL" "distinct (map unit_address (cs @ c # ds))"
    "distinct (map data_address (cs @ c # ds))"
    using assms by (rule chainE)
  let ?U = "units w" and ?B = "blocks w"
  have sc: "seg ?U ?B NULL cs (unit_address c)" and sd: "seg ?U ?B (unit_address c) ds NULL" using l(6) by simp_all
  show ?thesis
  proof (cases cs rule: rev_cases)
    case cs: Nil
    show ?thesis
    proof (cases ds)
      case Nil
      with cs l show ?thesis by (auto simp: unlink_unit_def chain_prims cmd_defs chain_at_def)
    next
      case (Cons d ds')
      with sd obtain u where u: "?U (unit_address d) = Some u" "unit_address d \<noteq> NULL" by auto
      have "distinct (map unit_address (d # ds'))" using l(7) Cons by simp
      with u(1) have "seg (?U(unit_address d \<mapsto> u\<lparr>predecessor_link := NULL\<rparr>)) ?B NULL ds NULL"
        unfolding Cons by (intro seg_relink_first [OF sd [unfolded Cons]])
      with Cons cs l u show ?thesis
        by (auto simp: unlink_unit_def chain_prims cmd_defs chain_at_def)
    qed
  next
    case cs: (snoc cs' b)
    with sc obtain v where v: "?U (unit_address b) = Some v" "unit_address b \<noteq> NULL" by auto
    have "distinct (map unit_address (cs' @ [b]))" using l(7) cs by simp
    with v(1) have sb: "seg (?U(unit_address b \<mapsto> v\<lparr>successor_link := first_of ds NULL\<rparr>)) ?B NULL cs (first_of ds NULL)"
      unfolding cs by (intro seg_relink_last [OF sc [unfolded cs]])
    let ?U1 = "?U(unit_address b \<mapsto> v\<lparr>successor_link := first_of ds NULL\<rparr>)"
    have sd1: "seg ?U1 ?B (unit_address c) ds NULL = seg ?U ?B (unit_address c) ds NULL"
      using l(7) cs by (intro seg_frame) (auto simp: image_iff)
    show ?thesis
    proof (cases ds)
      case Nil
      with cs l v sb show ?thesis by (auto simp: unlink_unit_def chain_prims cmd_defs chain_at_def)
    next
      case (Cons d ds')
      with sd obtain u where u: "?U (unit_address d) = Some u" "unit_address d \<noteq> NULL" by auto
      have ne: "unit_address d \<noteq> unit_address b" using l(7) cs Cons by auto
      then have u1: "?U1 (unit_address d) = Some u" using u(1) by simp
      let ?U2 = "?U1(unit_address d \<mapsto> u\<lparr>predecessor_link := unit_address b\<rparr>)"
      have "distinct (map unit_address (d # ds'))" using l(7) Cons by simp
      with u1 have "seg ?U2 ?B (unit_address b) ds NULL"
        unfolding Cons using sd sd1 by (intro seg_relink_first [where prev = "unit_address c"]) (simp_all add: Cons)
      moreover have "seg ?U2 ?B NULL cs (first_of ds NULL) = seg ?U1 ?B NULL cs (first_of ds NULL)"
        using l(7) Cons by (intro seg_frame) (auto simp: image_iff)
      ultimately show ?thesis using cs Cons l v u1 u(2) ne sb
        by (auto simp: unlink_unit_def chain_prims cmd_defs chain_at_def)
    qed
  qed
qed

section \<open>Pushing\<close>

text \<open>What \<^verbatim>\<open>malloc\<close> promises: the addresses it will give out are distinct and not in use.\<close>

definition fresh_supply :: "chain_world \<Rightarrow> bool" where
  "fresh_supply w \<longleftrightarrow> distinct (filter (\<lambda>a. a \<noteq> NULL) (heap_supply w)) \<and>
     (\<forall>a\<in>set (heap_supply w). a \<noteq> NULL \<longrightarrow> units w a = None \<and> blocks w a = None)"

definition two_grants :: "chain_world \<Rightarrow> bool" where
  "two_grants w = (case heap_supply w of a # b # _ \<Rightarrow> a \<noteq> NULL \<and> b \<noteq> NULL | _ \<Rightarrow> False)"

text \<open>Linking a fresh unit behind the last one.\<close>

lemma link_behind:
  assumes "chain_at m w cs" "ledger_ref w = Some l" "units w a = None" "blocks w d = None" "a \<noteq> NULL" "d \<noteq> NULL"
    and "length bs = unat (payload_footprint l)"
  shows "\<exists>w'. andThen (put_unit a \<lparr>predecessor_link = NULL, payload_data = d, successor_link = NULL\<rparr>) (\<lambda>_.
        if head_node l \<noteq> NULL then
          andThen (change_unit a (\<lambda>u. u\<lparr>predecessor_link := tail_node l\<rparr>)) (\<lambda>_.
          andThen (change_unit (tail_node l) (\<lambda>u. u\<lparr>successor_link := a\<rparr>)) (\<lambda>_.
          set_ledger (\<lambda>l. l\<lparr>tail_node := a\<rparr>)))
        else set_ledger (\<lambda>l. l\<lparr>tail_node := a, head_node := a\<rparr>)) (w\<lparr>blocks := (blocks w)(d \<mapsto> bs)\<rparr>) = Done () w' \<and>
      chain_at m w' (cs @ [(a, d, bs)]) \<and> dom (units w') = insert a (dom (units w)) \<and>
      dom (blocks w') = insert d (dom (blocks w)) \<and> heap_supply w' = heap_supply w \<and>
      map_option payload_footprint (ledger_ref w') = map_option payload_footprint (ledger_ref w)"
proof -
  have l: "access_lock l = m" "head_node l = first_of cs NULL" "tail_node l = last_of NULL cs"
    "\<forall>c\<in>set cs. length (payload c) = unat (payload_footprint l)"
    "seg (units w) (blocks w) NULL cs NULL" "distinct (map unit_address cs)" "distinct (map data_address cs)"
    using assms(1,2) by (auto elim!: chainE)
  have inU: "c \<in> set cs \<Longrightarrow> \<exists>u. units w (unit_address c) = Some u \<and> blocks w (data_address c) \<noteq> None" for c
    using l(5) by (auto simp: in_set_conv_decomp)
  then have new: "a \<notin> unit_address ` set cs" "d \<notin> data_address ` set cs" using assms(3,4) by fastforce+
  let ?cell = "\<lparr>predecessor_link = last_of NULL cs, payload_data = d, successor_link = NULL\<rparr>"
  show ?thesis
  proof (cases cs rule: rev_cases)
    case Nil
    then show ?thesis using l assms by (auto simp: chain_prims cmd_defs chain_at_def)
  next
    case (snoc cs' b)
    then obtain v where v: "units w (unit_address b) = Some v" "unit_address b \<noteq> NULL" using l(5) by auto
    let ?U = "(units w)(a \<mapsto> ?cell)" and ?B = "(blocks w)(d \<mapsto> bs)"
    have "seg ?U ?B NULL cs NULL = seg (units w) (blocks w) NULL cs NULL"
      using new by (intro seg_frame) (auto simp: image_iff)
    then have "seg ?U ?B NULL (cs' @ [b]) NULL" using l(5) snoc by simp
    moreover have "?U (unit_address b) = Some v" using v new snoc by auto
    moreover have "distinct (map unit_address (cs' @ [b]))" using l(6) snoc by simp
    ultimately have "seg (?U(unit_address b \<mapsto> v\<lparr>successor_link := a\<rparr>)) ?B NULL (cs' @ [b]) a"
      by (intro seg_relink_last)
    moreover have "first_of cs NULL \<noteq> NULL" using first_of_nonnull [OF l(5)] snoc by simp
    moreover have "a \<noteq> unit_address b" using new snoc by auto
    ultimately show ?thesis using l assms v new snoc
      by (auto simp: chain_prims cmd_defs chain_at_def fun_upd_twist [of "unit_address b" a])
  qed
qed

lemma push_granted:
  assumes c: "chain w cs" and fresh: "fresh_supply w"
    and l: "ledger_ref w = Some l" "unat (payload_footprint l) \<le> length bs"
    and grants: "heap_supply w = a # d # s" "a \<noteq> NULL" "d \<noteq> NULL"
  shows "\<exists>w'. push_to_chain (Some bs) w = Done NORMAL_STATE w' \<and> fresh_supply w' \<and>
    chain w' (cs @ [(a, d, take (unat (payload_footprint l)) bs)]) \<and>
    map_option payload_footprint (ledger_ref w') = Some (payload_footprint l)"
proof -
  let ?l = "l\<lparr>access_lock := Locked\<rparr>" and ?x = "take (unat (payload_footprint l)) bs"
  let ?u = "\<lparr>predecessor_link = NULL, payload_data = d, successor_link = NULL\<rparr>"
  define w2 where "w2 = w\<lparr>ledger_ref := Some ?l, heap_supply := s\<rparr>"
  have c2: "chain_at Locked w2 cs" "ledger_ref w2 = Some ?l"
    using lock_chain [OF c] l(1) by (auto simp: w2_def chain_at_def)
  have nu: "units w2 a = None" "blocks w2 d = None"
    using fresh grants by (simp_all add: fresh_supply_def w2_def)
  have len: "length ?x = unat (payload_footprint ?l)" using l(2) by simp
  from link_behind [OF c2 nu grants(2,3) len] obtain w3 where
    w3: "andThen (put_unit a ?u) (\<lambda>_.
        if head_node ?l \<noteq> NULL then
          andThen (change_unit a (\<lambda>u. u\<lparr>predecessor_link := tail_node ?l\<rparr>)) (\<lambda>_.
          andThen (change_unit (tail_node ?l) (\<lambda>u. u\<lparr>successor_link := a\<rparr>)) (\<lambda>_.
          set_ledger (\<lambda>l. l\<lparr>tail_node := a\<rparr>)))
        else set_ledger (\<lambda>l. l\<lparr>tail_node := a, head_node := a\<rparr>)) (w2\<lparr>blocks := (blocks w2)(d \<mapsto> ?x)\<rparr>) = Done () w3"
    "chain_at Locked w3 (cs @ [(a, d, ?x)])" "dom (units w3) = insert a (dom (units w2))"
    "dom (blocks w3) = insert d (dom (blocks w2))" "heap_supply w3 = heap_supply w2"
    "map_option payload_footprint (ledger_ref w3) = map_option payload_footprint (ledger_ref w2)"
    by (elim exE conjE) (rule that)
  obtain l3 where l3: "ledger_ref w3 = Some l3" "payload_footprint l3 = payload_footprint l"
    using w3(6) c2(2) by auto
  have "push_to_chain (Some bs) w = andThen unlock_ledger (\<lambda>_. ret NORMAL_STATE) w3"
  proof -
    have "lock_ledger w = Done () (w\<lparr>ledger_ref := Some ?l\<rparr>)" using lock_chain [OF c] l(1) by auto
    moreover have "malloc (w\<lparr>ledger_ref := Some ?l\<rparr>) = Done a (w\<lparr>ledger_ref := Some ?l, heap_supply := d # s\<rparr>)"
      "malloc (w\<lparr>ledger_ref := Some ?l, heap_supply := d # s\<rparr>) = Done d w2"
      using grants(1) by (simp_all add: malloc_def w2_def)
    moreover have "the_ledger w2 = Done ?l w2" using c2(2) by (simp add: the_ledger_def)
    moreover have "copy_in d bs (payload_footprint ?l) w2 = Done () (w2\<lparr>blocks := (blocks w2)(d \<mapsto> ?x)\<rparr>)"
      using l(2) by (simp add: copy_in_def)
    ultimately show ?thesis using w3(1) l(1) grants(2,3)
      by (simp add: push_to_chain_def andThen_def [of lock_ledger] andThen_def [of malloc] andThen_def [of the_ledger]
          andThen_def [of "copy_in d bs (payload_footprint l)"] andThen_run [OF w3(1) [simplified]])
  qed
  moreover have "fresh_supply w3"
  proof -
    have d: "distinct (filter (\<lambda>a. a \<noteq> NULL) s)" using fresh grants by (auto simp: fresh_supply_def)
    have w3s: "heap_supply w3 = s" using w3(5) by (simp add: w2_def)
    have "units w3 x = None \<and> blocks w3 x = None" if "x \<in> set s" "x \<noteq> NULL" for x
    proof -
      have "x \<noteq> a" "x \<noteq> d" "units w x = None" "blocks w x = None"
        using fresh grants that by (auto simp: fresh_supply_def)
      then have "x \<notin> dom (units w3)" "x \<notin> dom (blocks w3)" using w3(3,4) by (simp_all add: w2_def domIff)
      then show ?thesis by (simp add: domIff)
    qed
    then show ?thesis using d w3s by (simp add: fresh_supply_def)
  qed
  ultimately show ?thesis using unlock_chain [OF w3(2) l3(1)] l3(2) by (auto simp: cmd_defs fresh_supply_def)
qed

lemma push_refused:
  assumes c: "chain w cs" and fresh: "fresh_supply w" and l: "ledger_ref w = Some l" and no: "\<not> two_grants w"
  shows "\<exists>w'. push_to_chain (Some bs) w = Done ALLOC_FAULT w' \<and> fresh_supply w' \<and> chain w' cs \<and>
    units w' = units w \<and> blocks w' = blocks w \<and> ledger_ref w' = ledger_ref w"
proof -
  let ?l = "l\<lparr>access_lock := Locked\<rparr>"
  have lk: "lock_ledger w = Done () (w\<lparr>ledger_ref := Some ?l\<rparr>)" using lock_chain [OF c] l by auto
  have ul: "access_lock l = Unlocked" using c l by (auto elim!: chainE)
  have tail0: "andThen unlock_ledger (\<lambda>_. ret ALLOC_FAULT) (w\<lparr>ledger_ref := Some ?l\<rparr>) = Done ALLOC_FAULT w"
    using l ul by (cases w) (simp add: cmd_defs chain_prims)
  have tail: "andThen unlock_ledger (\<lambda>_. ret ALLOC_FAULT) (w\<lparr>ledger_ref := Some ?l, heap_supply := s\<rparr>) =
      Done ALLOC_FAULT (w\<lparr>heap_supply := s\<rparr>)" for s
    using l ul by (simp add: cmd_defs chain_prims)
  have keep: "chain (w\<lparr>heap_supply := s\<rparr>) cs" for s using c by (simp add: chain_at_def)
  consider "heap_supply w = []" | s where "heap_supply w = 0 # s" | a where "heap_supply w = [a]" "a \<noteq> 0"
    | a s where "heap_supply w = a # 0 # s" "a \<noteq> 0"
    using no by (auto simp: two_grants_def split: list.splits)
  then have "\<exists>s. push_to_chain (Some bs) w = Done ALLOC_FAULT (w\<lparr>heap_supply := s\<rparr>) \<and> fresh_supply (w\<lparr>heap_supply := s\<rparr>)"
  proof cases
    case 1
    then have "w\<lparr>heap_supply := []\<rparr> = w" by (cases w) simp
    with 1 show ?thesis using lk l tail0 fresh
      by (intro exI [of _ "[]"])
        (simp add: push_to_chain_def andThen_def [of lock_ledger] andThen_def [of malloc] malloc_def fresh_supply_def)
  next
    case (2 s)
    then show ?thesis using lk l tail [of s] fresh
      by (intro exI [of _ s])
        (simp add: push_to_chain_def andThen_def [of lock_ledger] andThen_def [of malloc] malloc_def fresh_supply_def)
  next
    case (3 a)
    then show ?thesis using lk l tail [of "[]"] fresh
      by (intro exI [of _ "[]"])
        (simp add: push_to_chain_def andThen_def [of lock_ledger] andThen_def [of malloc] malloc_def fresh_supply_def)
  next
    case (4 a s)
    then show ?thesis using lk l tail [of s] fresh
      by (intro exI [of _ s])
        (simp add: push_to_chain_def andThen_def [of lock_ledger] andThen_def [of malloc] malloc_def fresh_supply_def)
  qed
  then show ?thesis using keep by auto
qed

section \<open>Taking from the front\<close>

lemma free_cell:
  assumes "chain_at m w cs" "a \<notin> unit_address ` set cs" "d \<notin> data_address ` set cs"
    and "units w a \<noteq> None" "blocks w d \<noteq> None" "a \<noteq> NULL" "d \<noteq> NULL"
  shows "andThen (free_block d) (\<lambda>_. andThen (free_unit a) k) w =
      k () (w\<lparr>blocks := (blocks w)(d := None), units := (units w)(a := None)\<rparr>) \<and>
    chain_at m (w\<lparr>blocks := (blocks w)(d := None), units := (units w)(a := None)\<rparr>) cs"
proof -
  have "seg ((units w)(a := None)) ((blocks w)(d := None)) NULL cs NULL = seg (units w) (blocks w) NULL cs NULL"
    using assms(2,3) by (intro seg_frame) auto
  then show ?thesis using assms by (auto simp: free_block_def free_unit_def cmd_defs chain_at_def)
qed

lemma fresh_supply_shrink:
  assumes "fresh_supply w" "dom (units w') \<subseteq> dom (units w)" "dom (blocks w') \<subseteq> dom (blocks w)"
    "heap_supply w' = heap_supply w"
  shows "fresh_supply w'"
  using assms by (auto simp: fresh_supply_def)

text \<open>The front cell leaves: its successor, or the tail, forgets it.\<close>

lemma unlink_front:
  assumes "chain_at m w (c # cs)" "ledger_ref w = Some l"
  shows "\<exists>w'. andThen (set_ledger (\<lambda>l. l\<lparr>head_node := first_of cs NULL\<rparr>)) (\<lambda>_.
        if first_of cs NULL = NULL then set_ledger (\<lambda>l. l\<lparr>tail_node := NULL\<rparr>)
        else change_unit (first_of cs NULL) (\<lambda>u. u\<lparr>predecessor_link := NULL\<rparr>)) w = Done () w' \<and>
      chain_at m w' cs \<and> blocks w' = blocks w \<and> dom (units w') = dom (units w) \<and>
      heap_supply w' = heap_supply w \<and> (\<exists>l'. ledger_ref w' = Some l' \<and> payload_footprint l' = payload_footprint l)"
proof -
  have l: "access_lock l = m" "tail_node l = last_of NULL (c # cs)"
    "\<forall>c\<in>set (c # cs). length (payload c) = unat (payload_footprint l)"
    "seg (units w) (blocks w) NULL (c # cs) NULL" "distinct (map unit_address (c # cs))"
    "distinct (map data_address (c # cs))"
    using assms(2) by - (rule chainE [OF assms(1)]; simp)+
  show ?thesis
  proof (cases cs)
    case Nil
    then show ?thesis using l assms(2) by (auto simp: chain_prims cmd_defs chain_at_def)
  next
    case (Cons d ds)
    have sd: "seg (units w) (blocks w) (unit_address c) (d # ds) NULL" using l(4) Cons by simp
    then obtain u where u: "units w (unit_address d) = Some u" "unit_address d \<noteq> NULL" by auto
    have "distinct (map unit_address (d # ds))" using l(5) Cons by simp
    with u(1) have "seg ((units w)(unit_address d \<mapsto> u\<lparr>predecessor_link := NULL\<rparr>)) (blocks w) NULL (d # ds) NULL"
      by (intro seg_relink_first [OF sd])
    then show ?thesis using l assms(2) u Cons by (auto simp: chain_prims cmd_defs chain_at_def)
  qed
qed

lemma pop_spec:
  assumes c: "chain w (c # cs)" and fresh: "fresh_supply w"
  shows "\<exists>w'. pop_from_chain w = Done (NORMAL_STATE, Some (payload c)) w' \<and> chain w' cs \<and> fresh_supply w' \<and>
    dom (units w') = dom (units w) - {unit_address c} \<and> dom (blocks w') = dom (blocks w) - {data_address c} \<and>
    map_option payload_footprint (ledger_ref w') = map_option payload_footprint (ledger_ref w)"
proof -
  from lock_chain [OF c] obtain l where l0: "ledger_ref w = Some l"
    "lock_ledger w = Done () (w\<lparr>ledger_ref := Some (l\<lparr>access_lock := Locked\<rparr>)\<rparr>)"
    "chain_at Locked (w\<lparr>ledger_ref := Some (l\<lparr>access_lock := Locked\<rparr>)\<rparr>) (c # cs)" by blast
  let ?l = "l\<lparr>access_lock := Locked\<rparr>"
  define w1 where "w1 = w\<lparr>ledger_ref := Some ?l\<rparr>"
  have c1: "chain_at Locked w1 (c # cs)" "ledger_ref w1 = Some ?l" using l0 by (simp_all add: w1_def)
  obtain w2 l2 where w2: "andThen (set_ledger (\<lambda>l. l\<lparr>head_node := first_of cs NULL\<rparr>)) (\<lambda>_.
        if first_of cs NULL = NULL then set_ledger (\<lambda>l. l\<lparr>tail_node := NULL\<rparr>)
        else change_unit (first_of cs NULL) (\<lambda>u. u\<lparr>predecessor_link := NULL\<rparr>)) w1 = Done () w2"
    "chain_at Locked w2 cs" "blocks w2 = blocks w1" "dom (units w2) = dom (units w1)"
    "heap_supply w2 = heap_supply w1" "ledger_ref w2 = Some l2" "payload_footprint l2 = payload_footprint ?l"
    using unlink_front [OF c1] by blast
  have cell: "unit_address c \<noteq> NULL" "data_address c \<noteq> NULL"
    "units w1 (unit_address c) = Some \<lparr>predecessor_link = NULL, payload_data = data_address c, successor_link = first_of cs NULL\<rparr>"
    "blocks w1 (data_address c) = Some (payload c)" "head_node l = unit_address c" "tail_node l = last_of NULL (c # cs)"
    "length (payload c) = unat (payload_footprint l)"
    "unit_address c \<notin> unit_address ` set cs" "data_address c \<notin> data_address ` set cs"
    using c1(2) by - (rule chainE [OF c1(1)]; simp)+
  have tail: "tail_node l \<noteq> NULL"
    using cell(6) c1(1) last_of_nonnull [of "units w1" "blocks w1" NULL "c # cs" NULL] by (auto simp: chain_at_def)
  let ?w3 = "w2\<lparr>blocks := (blocks w2)(data_address c := None), units := (units w2)(unit_address c := None)\<rparr>"
  have "units w2 (unit_address c) \<noteq> None" using w2(4) cell(3) by (metis domD domI option.distinct(1))
  moreover have "blocks w2 (data_address c) \<noteq> None" using w2(3) cell(4) by simp
  ultimately have w3: "andThen (free_block (data_address c)) (\<lambda>_. andThen (free_unit (unit_address c)) k) w2 = k () ?w3"
    "chain_at Locked ?w3 cs" for k
    using free_cell [OF w2(2) cell(8,9), of k] cell(1,2) by simp_all
  have "pop_from_chain w = andThen unlock_ledger (\<lambda>_. ret (NORMAL_STATE, Some (payload c))) ?w3"
  proof -
    have "the_ledger w1 = Done ?l w1" "get_unit (unit_address c) w1 = Done (the (units w1 (unit_address c))) w1"
      "copy_out (data_address c) (payload_footprint l) w1 = Done (payload c) w1"
      using c1(2) cell by (simp_all add: the_ledger_def get_unit_def copy_out_def)
    then show ?thesis using l0(2) [folded w1_def] tail cell
      by (simp add: pop_from_chain_def andThen_def [of lock_ledger] andThen_def [of the_ledger]
          andThen_def [of "get_unit _"] andThen_def [of "copy_out _ _"] andThen_run [OF w2(1) [simplified]] w3(1)
          split del: if_split cong: if_cong)
  qed
  moreover have dm: "dom (units ?w3) = dom (units w) - {unit_address c}"
    "dom (blocks ?w3) = dom (blocks w) - {data_address c}" "heap_supply ?w3 = heap_supply w"
    using w2(3,4,5) by (simp_all add: w1_def)
  moreover have "fresh_supply ?w3"
    by (rule fresh_supply_shrink [OF fresh]) (simp_all only: dm Diff_subset)
  moreover have "unlock_ledger ?w3 = Done () (?w3\<lparr>ledger_ref := Some (l2\<lparr>access_lock := Unlocked\<rparr>)\<rparr>)"
    "chain (?w3\<lparr>ledger_ref := Some (l2\<lparr>access_lock := Unlocked\<rparr>)\<rparr>) cs"
    using unlock_chain [OF w3(2), of l2] w2(6) by simp_all
  ultimately show ?thesis using w2(7) l0(1)
    by (intro exI [of _ "?w3\<lparr>ledger_ref := Some (l2\<lparr>access_lock := Unlocked\<rparr>)\<rparr>"])
      (simp add: cmd_defs fresh_supply_def)
qed

lemma peek_spec:
  assumes "chain w (c # cs)"
  shows "\<exists>w'. peek_chain w = Done (NORMAL_STATE, Some (payload c)) w' \<and> w' = w"
proof -
  from assms obtain l where l: "ledger_ref w = Some l" "access_lock l = Unlocked" "head_node l = unit_address c"
    "tail_node l = last_of NULL (c # cs)" "length (payload c) = unat (payload_footprint l)"
    "seg (units w) (blocks w) NULL (c # cs) NULL" by (auto elim!: chainE)
  moreover have "tail_node l \<noteq> NULL" using l(4,6) last_of_nonnull [OF l(6)] by simp
  ultimately show ?thesis by (cases w) (auto simp: peek_chain_def chain_prims cmd_defs)
qed

lemma pop_peek_empty:
  assumes "chain w []"
  shows "pop_from_chain w = Done (VOID_STATE, None) w" "peek_chain w = Done (VOID_STATE, None) w"
  using assms by (cases w; auto elim!: chainE simp: pop_from_chain_def peek_chain_def chain_prims cmd_defs)+

section \<open>Taking from anywhere\<close>

lemma chain_cell_facts:
  assumes "chain_at m w (cs @ c # ds)"
  shows "unit_address c \<noteq> NULL" "data_address c \<noteq> NULL"
    "units w (unit_address c) = Some \<lparr>predecessor_link = last_of NULL cs, payload_data = data_address c,
       successor_link = first_of ds NULL\<rparr>"
    "blocks w (data_address c) = Some (payload c)"
    "unit_address c \<notin> unit_address ` set (cs @ ds)" "data_address c \<notin> data_address ` set (cs @ ds)"
  by (rule chainE [OF assms]; auto simp: image_Un)+

text \<open>The end of both removals: the cell's memory goes back and the lock is released.\<close>

lemma release_unit:
  assumes "chain_at Locked w cs" "a \<notin> unit_address ` set cs" "units w a \<noteq> None" "a \<noteq> NULL"
  shows "\<exists>w'. andThen (free_unit a) (\<lambda>_. andThen unlock_ledger (\<lambda>_. ret v)) w = Done v w' \<and> chain w' cs \<and>
    units w' = (units w)(a := None) \<and> blocks w' = blocks w \<and> heap_supply w' = heap_supply w"
proof -
  obtain l where l: "ledger_ref w = Some l" using assms(1) by (auto elim!: chainE)
  let ?w = "w\<lparr>units := (units w)(a := None)\<rparr>"
  have "seg ((units w)(a := None)) (blocks w) NULL cs NULL = seg (units w) (blocks w) NULL cs NULL"
    using assms(2) by (intro seg_frame) auto
  then have "chain_at Locked ?w cs" using assms(1) by (auto simp: chain_at_def)
  from unlock_chain [OF this] l show ?thesis using assms(3,4)
    by (auto simp: free_unit_def cmd_defs)
qed

lemma release_block:
  assumes "chain_at m w cs" "d \<notin> data_address ` set cs" "blocks w d \<noteq> None" "d \<noteq> NULL"
  shows "free_block d w = Done () (w\<lparr>blocks := (blocks w)(d := None)\<rparr>) \<and>
    chain_at m (w\<lparr>blocks := (blocks w)(d := None)\<rparr>) cs"
proof -
  have "seg (units w) ((blocks w)(d := None)) NULL cs NULL = seg (units w) (blocks w) NULL cs NULL"
    using assms(2) by (intro seg_frame) auto
  then show ?thesis using assms by (auto simp: free_block_def chain_at_def)
qed

lemma find_unit_seg:
  "seg (units w) (blocks w) prev cs NULL \<Longrightarrow>
   find_unit eval (first_of cs NULL) w = Some (Inr (first_of (dropWhile (\<lambda>c. eval (payload c) \<noteq> 0) cs) NULL))"
  by (induction cs arbitrary: prev) (auto simp: find_unit.simps)

lemma walk_chain_seg:
  "seg (units w) (blocks w) prev cs NULL \<Longrightarrow> k \<le> limit \<Longrightarrow>
   walk_chain limit k (first_of cs NULL) w = Some (Inr (first_of (drop (unat (limit - k)) cs) NULL))"
proof (induction cs arbitrary: prev k)
  case (Cons c cs)
  show ?case
  proof (cases "k = limit")
    case False
    then have less: "k < limit" using Cons.prems(2) by simp
    then have nz: "limit - k \<noteq> 0" by auto
    then have "unat (limit - k) = Suc (unat (limit - k - 1))"
      using unat_minus_one [OF nz] unat_gt_0 [of "limit - k"] by simp
    then have "unat (limit - k) = Suc (unat (limit - (k + 1)))" by (simp add: diff_diff_eq)
    moreover have "k + 1 \<le> limit" using less by (rule inc_le)
    ultimately have "walk_chain limit (k + 1) (first_of cs NULL) w =
        Some (Inr (first_of (drop (unat (limit - k)) (c # cs)) NULL))"
      using Cons.IH [of "unit_address c" "k + 1"] Cons.prems(1) by simp
    then show ?thesis using Cons.prems(1) less by (subst walk_chain.simps) simp
  qed (simp add: walk_chain.simps)
qed (simp add: walk_chain.simps)

lemma lockE:
  assumes "chain w cs"
  obtains l where "ledger_ref w = Some l"
    "andThen lock_ledger (\<lambda>_. the_ledger) w = Done (l\<lparr>access_lock := Locked\<rparr>) (w\<lparr>ledger_ref := Some (l\<lparr>access_lock := Locked\<rparr>)\<rparr>)"
    "chain_at Locked (w\<lparr>ledger_ref := Some (l\<lparr>access_lock := Locked\<rparr>)\<rparr>) cs" "head_node l = first_of cs NULL"
    "andThen unlock_ledger (\<lambda>_. ret v) (w\<lparr>ledger_ref := Some (l\<lparr>access_lock := Locked\<rparr>)\<rparr>) = Done v w"
proof -
  from assms obtain l where l: "ledger_ref w = Some l" "access_lock l = Unlocked" "head_node l = first_of cs NULL"
    by (rule chainE)
  then have "andThen unlock_ledger (\<lambda>_. ret v) (w\<lparr>ledger_ref := Some (l\<lparr>access_lock := Locked\<rparr>)\<rparr>) = Done v w"
    by (cases w; cases l) (simp add: cmd_defs chain_prims)
  then show thesis using lock_chain [OF assms] l by (intro that) (auto simp: cmd_defs the_ledger_def)
qed

text \<open>
  C39. \<^verbatim>\<open>excise_tail_chain\<close>, despite its name, removes the first payload from the front for which the
  comparison returns 0, gives back exactly that unit and that payload block, keeps the order of the
  others and releases the lock; when nothing compares equal it answers -1 and changes nothing. It
  always returns.
\<close>

theorem excise_tail_spec:
  assumes c: "chain w cs"
  shows "case dropWhile (\<lambda>c. eval (payload c) \<noteq> 0) cs of
      [] \<Rightarrow> excise_tail_chain eval w = Some (Done VOID_STATE w)
    | c # ds \<Rightarrow> \<exists>w'. excise_tail_chain eval w = Some (Done NORMAL_STATE w') \<and>
        chain w' (takeWhile (\<lambda>c. eval (payload c) \<noteq> 0) cs @ ds) \<and>
        dom (units w') = dom (units w) - {unit_address c} \<and> dom (blocks w') = dom (blocks w) - {data_address c}"
proof -
  let ?P = "\<lambda>c. eval (payload c) \<noteq> 0"
  obtain l where l: "ledger_ref w = Some l"
    "andThen lock_ledger (\<lambda>_. the_ledger) w = Done (l\<lparr>access_lock := Locked\<rparr>) (w\<lparr>ledger_ref := Some (l\<lparr>access_lock := Locked\<rparr>)\<rparr>)"
    "chain_at Locked (w\<lparr>ledger_ref := Some (l\<lparr>access_lock := Locked\<rparr>)\<rparr>) cs" "head_node l = first_of cs NULL"
    "andThen unlock_ledger (\<lambda>_. ret VOID_STATE) (w\<lparr>ledger_ref := Some (l\<lparr>access_lock := Locked\<rparr>)\<rparr>) = Done VOID_STATE w"
    using c by (rule lockE)
  define w1 where "w1 = w\<lparr>ledger_ref := Some (l\<lparr>access_lock := Locked\<rparr>)\<rparr>"
  have sg: "seg (units w1) (blocks w1) NULL cs NULL" using l(3) by (simp add: w1_def chain_at_def)
  note found = find_unit_seg [OF sg, of eval]
  show ?thesis
  proof (cases "dropWhile ?P cs")
    case Nil
    then have "excise_tail_chain eval w = Some (Done VOID_STATE w)"
      using l(2,4,5) found by (simp only: excise_tail_chain_def w1_def) simp
    with Nil show ?thesis by (simp only: list.case)
  next
    case (Cons c ds)
    define bs where "bs = takeWhile ?P cs"
    have cs: "cs = bs @ c # ds" using Cons takeWhile_dropWhile_id [of ?P cs] by (simp add: bs_def)
    have c1: "chain_at Locked w1 (bs @ c # ds)" using l(3) cs by (simp add: w1_def)
    note cell = chain_cell_facts [OF c1]
    from unlink_spec [OF c1] obtain w2 where w2: "unlink_unit \<lparr>predecessor_link = last_of NULL bs,
        payload_data = data_address c, successor_link = first_of ds NULL\<rparr> w1 = Done () w2"
      "chain_at Locked w2 (bs @ ds)" "blocks w2 = blocks w1" "dom (units w2) = dom (units w1)"
      by (elim exE conjE) (rule that)
    let ?w3 = "w2\<lparr>blocks := (blocks w2)(data_address c := None)\<rparr>"
    have fb: "free_block (data_address c) w2 = Done () ?w3" "chain_at Locked ?w3 (bs @ ds)"
      using release_block [OF w2(2) cell(6) _ cell(2)] w2(3) cell(4) by simp_all
    have "units ?w3 (unit_address c) \<noteq> None" using w2(4) cell(3) by (simp add: domIff [symmetric]) blast
    from release_unit [OF fb(2) cell(5) this cell(1), of NORMAL_STATE] obtain w4 where
      w4: "andThen (free_unit (unit_address c)) (\<lambda>_. andThen unlock_ledger (\<lambda>_. ret NORMAL_STATE)) ?w3 = Done NORMAL_STATE w4"
      "chain w4 (bs @ ds)" "units w4 = (units ?w3)(unit_address c := None)" "blocks w4 = blocks ?w3"
      by blast
    have "excise_tail_chain eval w = Some (Done NORMAL_STATE w4)"
      using l(2,4) found Cons cell(1,3) w2(1) fb(1) w4(1)
      by (simp add: excise_tail_chain_def w1_def [symmetric] andThen_def [of "get_unit _"] get_unit_def
          andThen_def [of "unlink_unit _"] andThen_def [of "free_block _"])
    moreover have "dom (units w4) = dom (units w) - {unit_address c}" "dom (blocks w4) = dom (blocks w) - {data_address c}"
      using w4(3,4) w2(3,4) by (simp_all add: w1_def)
    ultimately show ?thesis using Cons w4(2) by (simp add: bs_def)
  qed
qed

lemma unlink_blocks:
  "unlink_unit u w = Done () w' \<Longrightarrow> unlink_unit u (w\<lparr>blocks := B\<rparr>) = Done () (w'\<lparr>blocks := B\<rparr>)"
  by (auto simp: unlink_unit_def chain_prims cmd_defs split: option.splits if_splits)

text \<open>
  C40. \<^verbatim>\<open>excise_offset_chain\<close> removes the payload at the given position and keeps the others in order. The
  receiver gets the address of the payload block, which stays allocated, or for payloads the size of
  a pointer the pointer itself, and then the block is freed. The position is converted to a 64 bit
  unsigned number, so a negative one counts as a huge one; past the end the answer is -1 and nothing
  changes. It always returns.
\<close>

theorem excise_offset_spec:
  assumes c: "chain w cs" and i: "i = unat (word_of_int offset_idx :: u64)" and l0: "ledger_ref w = Some l0"
  shows "case drop i cs of
      [] \<Rightarrow> excise_offset_chain offset_idx True w = Some (Done (-1, None) w)
    | c # ds \<Rightarrow> \<exists>w'. excise_offset_chain offset_idx True w = Some (Done (0, Some
          (if payload_footprint l0 = 8 then word_of_nat (nat_le (payload c)) else data_address c)) w') \<and>
        chain w' (take i cs @ ds) \<and> dom (units w') = dom (units w) - {unit_address c} \<and>
        dom (blocks w') = (if payload_footprint l0 = 8 then dom (blocks w) - {data_address c} else dom (blocks w))"
proof -
  obtain l where l: "ledger_ref w = Some l"
    "andThen lock_ledger (\<lambda>_. the_ledger) w = Done (l\<lparr>access_lock := Locked\<rparr>) (w\<lparr>ledger_ref := Some (l\<lparr>access_lock := Locked\<rparr>)\<rparr>)"
    "chain_at Locked (w\<lparr>ledger_ref := Some (l\<lparr>access_lock := Locked\<rparr>)\<rparr>) cs" "head_node l = first_of cs NULL"
    "andThen unlock_ledger (\<lambda>_. ret (-1 :: int, None :: u64 option)) (w\<lparr>ledger_ref := Some (l\<lparr>access_lock := Locked\<rparr>)\<rparr>) = Done (-1, None) w"
    using c by (rule lockE)
  have ll: "l = l0" using l(1) l0 by simp
  define w1 where "w1 = w\<lparr>ledger_ref := Some (l\<lparr>access_lock := Locked\<rparr>)\<rparr>"
  have sg: "seg (units w1) (blocks w1) NULL cs NULL" using l(3) by (simp add: w1_def chain_at_def)
  have "(0 :: u64) \<le> word_of_int offset_idx" by simp
  note found = walk_chain_seg [OF sg this, simplified, folded i]
  have open_call: "excise_offset_chain offset_idx True w =
      (case walk_chain (word_of_int offset_idx) 0 (head_node l) w1 of
         None \<Rightarrow> None | Some (Inl f) \<Rightarrow> Some (Fault f)
       | Some (Inr p) \<Rightarrow> Some (if p = NULL then andThen unlock_ledger (\<lambda>_. ret (-1, None)) w1
           else andThen (get_unit p) (\<lambda>u.
                andThen (if payload_footprint (l\<lparr>access_lock := Locked\<rparr>) \<noteq> 8 then ret (payload_data u)
                         else andThen (copy_out (payload_data u) 8) (\<lambda>bs.
                              andThen (free_block (payload_data u)) (\<lambda>_.
                              ret (word_of_nat (nat_le bs))))) (\<lambda>received.
                andThen (unlink_unit u) (\<lambda>_.
                andThen (free_unit p) (\<lambda>_.
                andThen unlock_ledger (\<lambda>_. ret (0, Some received)))))) w1))"
    using l(2) l0 unfolding excise_offset_chain_def w1_def by simp
  show ?thesis
  proof (cases "drop i cs")
    case Nil
    then have "excise_offset_chain offset_idx True w = Some (Done (-1, None) w)"
      using l(4,5) found unfolding open_call by (simp add: w1_def)
    with Nil show ?thesis by (simp only: list.case)
  next
    case (Cons c ds)
    define bs where "bs = take i cs"
    have cs: "cs = bs @ c # ds" using Cons append_take_drop_id [of i cs] by (simp add: bs_def)
    have c1: "chain_at Locked w1 (bs @ c # ds)" using l(3) cs by (simp add: w1_def)
    note cell = chain_cell_facts [OF c1]
    let ?u = "\<lparr>predecessor_link = last_of NULL bs, payload_data = data_address c, successor_link = first_of ds NULL\<rparr>"
    let ?r = "if payload_footprint l0 = 8 then word_of_nat (nat_le (payload c)) else data_address c"
    let ?w2 = "if payload_footprint l0 = 8 then w1\<lparr>blocks := (blocks w1)(data_address c := None)\<rparr> else w1"
    have len: "length (payload c) = unat (payload_footprint l)" using c1 l(1) l0 ll by (auto elim!: chainE simp: w1_def)
    have got: "(if payload_footprint l \<noteq> 8 then ret (data_address c)
        else andThen (copy_out (data_address c) 8) (\<lambda>bs. andThen (free_block (data_address c)) (\<lambda>_.
             ret (word_of_nat (nat_le bs))))) w1 = Done ?r ?w2"
      using len cell(2,4) ll by (auto simp: cmd_defs copy_out_def free_block_def)
    from unlink_spec [OF c1] obtain w3 where w3: "unlink_unit ?u w1 = Done () w3"
      "chain_at Locked w3 (bs @ ds)" "blocks w3 = blocks w1" "dom (units w3) = dom (units w1)"
      by (elim exE conjE) (rule that)
    let ?w4 = "w3\<lparr>blocks := blocks ?w2\<rparr>"
    have u2: "unlink_unit ?u ?w2 = Done () ?w4" using unlink_blocks [OF w3(1)] w3(1,3) by (cases w3) auto
    have c4: "chain_at Locked ?w4 (bs @ ds)"
      using release_block [OF w3(2) cell(6) _ cell(2)] w3(2,3) cell(4) by (cases w3) auto
    have "units ?w4 (unit_address c) \<noteq> None" using w3(4) cell(3) by (simp add: domIff [symmetric]) blast
    from release_unit [OF c4 cell(5) this cell(1), of "(0 :: int, Some ?r)"] obtain w5 where
      w5: "andThen (free_unit (unit_address c)) (\<lambda>_. andThen unlock_ledger (\<lambda>_. ret (0 :: int, Some ?r))) ?w4 = Done (0, Some ?r) w5"
      "chain w5 (bs @ ds)" "units w5 = (units ?w4)(unit_address c := None)" "blocks w5 = blocks ?w4"
      by blast
    have "get_unit (unit_address c) w1 = Done ?u w1" using cell(1,3) by (simp add: get_unit_def)
    then have "excise_offset_chain offset_idx True w = Some (Done (0, Some ?r) w5)"
      using l(4) found Cons cell(1) u2 w5(1) unfolding open_call
      by (simp add: andThen_def [of "get_unit _"] andThen_def [of "if _ then _ else _"] got [simplified]
          andThen_def [of "unlink_unit _"] split del: if_split cong: if_cong)
    moreover have "dom (units w5) = dom (units w) - {unit_address c}"
      using w5(3) w3(4) by (simp add: w1_def)
    moreover have "dom (blocks w5) = (if payload_footprint l0 = 8 then dom (blocks w) - {data_address c} else dom (blocks w))"
      using w5(4) by (simp add: w1_def)
    ultimately show ?thesis using Cons w5(2) by (simp add: bs_def)
  qed
qed

section \<open>Dumping, starting and ending\<close>

lemma dump_units_seg:
  "seg (units w) (blocks w) prev cs NULL \<Longrightarrow> (refs \<Longrightarrow> \<forall>c\<in>set cs. length (payload c) = 8) \<Longrightarrow>
   dump_units refs args (first_of cs NULL) w =
     Some (Inr (args @ map (\<lambda>c. if refs then word_of_nat (nat_le (payload c)) else data_address c) cs))"
proof (induction cs arbitrary: prev args)
  case (Cons c cs)
  let ?x = "if refs then word_of_nat (nat_le (payload c)) else data_address c"
  have "dump_units refs args (first_of (c # cs) NULL) w = dump_units refs (args @ [?x]) (first_of cs NULL) w"
    using Cons.prems by (subst dump_units.simps) (auto simp: copy_out_def)
  also have "\<dots> = Some (Inr ((args @ [?x]) @ map (\<lambda>c. if refs then word_of_nat (nat_le (payload c)) else data_address c) cs))"
    using Cons.prems by (intro Cons.IH [of "unit_address c"]) auto
  finally show ?case by simp
qed (simp add: dump_units.simps)

text \<open>
  \<^verbatim>\<open>dump_chain_ledger\<close> calls its hook once per element, from the front, with the payload's address or
  with the pointer stored in a pointer-sized payload, leaves the ledger as it was, and returns.
\<close>

theorem dump_spec:
  assumes "chain w cs" "ledger_ref w = Some l"
  shows "dump_chain_ledger w = Some (Done (map (\<lambda>c. if payload_footprint l = 8
      then word_of_nat (nat_le (payload c)) else data_address c) cs) w)"
proof -
  let ?args = "map (\<lambda>c. if payload_footprint l = 8 then word_of_nat (nat_le (payload c)) else data_address c) cs"
  obtain l' where l': "ledger_ref w = Some l'"
    "andThen lock_ledger (\<lambda>_. the_ledger) w = Done (l'\<lparr>access_lock := Locked\<rparr>) (w\<lparr>ledger_ref := Some (l'\<lparr>access_lock := Locked\<rparr>)\<rparr>)"
    "chain_at Locked (w\<lparr>ledger_ref := Some (l'\<lparr>access_lock := Locked\<rparr>)\<rparr>) cs" "head_node l' = first_of cs NULL"
    "andThen unlock_ledger (\<lambda>_. ret ?args) (w\<lparr>ledger_ref := Some (l'\<lparr>access_lock := Locked\<rparr>)\<rparr>) = Done ?args w"
    using assms(1) by (rule lockE)
  let ?w = "w\<lparr>ledger_ref := Some (l'\<lparr>access_lock := Locked\<rparr>)\<rparr>"
  have "seg (units ?w) (blocks ?w) NULL cs NULL" using l'(3) by (simp add: chain_at_def)
  moreover have "payload_footprint l = 8 \<Longrightarrow> \<forall>c\<in>set cs. length (payload c) = 8"
    using assms by (auto elim!: chainE)
  ultimately have "dump_units (payload_footprint l = 8) [] (first_of cs NULL) ?w = Some (Inr ?args)"
    using dump_units_seg [of ?w NULL cs "payload_footprint l = 8" "[]"] by simp
  then show ?thesis using l' assms(2) by (simp add: dump_chain_ledger_def)
qed

lemma bootstrap_spec:
  assumes "ledger_ref w = Some l"
  shows "bootstrap_chain_ledger n w = Done () (w\<lparr>ledger_ref := Some \<lparr>payload_footprint = n,
      access_lock = Unlocked, tail_node = NULL, head_node = NULL\<rparr>\<rparr>) \<and>
    chain (w\<lparr>ledger_ref := Some \<lparr>payload_footprint = n, access_lock = Unlocked, tail_node = NULL, head_node = NULL\<rparr>\<rparr>) []"
  using assms by (cases l) (simp add: bootstrap_chain_ledger_def chain_prims chain_at_def)

text \<open>
  \<^verbatim>\<open>eradicate_chain_ledger\<close> destroys nothing: it takes and releases the lock, and every unit and
  payload block of the queue is still allocated and still linked afterwards.
\<close>

theorem eradicate_frees_nothing:
  assumes "chain w cs"
  shows "eradicate_chain_ledger w = Done () w"
proof -
  from assms obtain l where "ledger_ref w = Some l" "access_lock l = Unlocked" by (rule chainE)
  then show ?thesis by (cases w; cases l) (simp add: eradicate_chain_ledger_def chain_prims cmd_defs)
qed

end
