(* ===== verification/Fifo.thy ===== *)
theory Fifo
  imports Ledger_Queue
begin

text \<open>
  First in, first out. The locale states what a client of a queue relies on; inside it, any mix of
  puts and gets delivers the accepted items in the order they were put, none lost and none twice.
  The interpretation shows that \<^verbatim>\<open>push_to_chain\<close> and \<^verbatim>\<open>pop_from_chain\<close> keep the contract, whatever
  the allocator refuses. The end of the theory holds concrete ledgers.
\<close>

section \<open>The interface of a queue\<close>

datatype 'x queue_request = Put 'x | Get

text \<open>A run of requests: the items accepted, the items delivered, and the final state.\<close>

fun drive :: "('x \<Rightarrow> 's \<Rightarrow> bool \<times> 's) \<Rightarrow> ('s \<Rightarrow> 'x option \<times> 's) \<Rightarrow> 'x queue_request list \<Rightarrow> 's \<Rightarrow>
    'x list \<times> 'x list \<times> 's" where
  "drive put get [] s = ([], [], s)"
| "drive put get (Put x # rs) s =
     (let (ok, s1) = put x s; (accepted, got, s2) = drive put get rs s1
      in (if ok then x # accepted else accepted, got, s2))"
| "drive put get (Get # rs) s =
     (let (r, s1) = get s; (accepted, got, s2) = drive put get rs s1
      in (accepted, (case r of None \<Rightarrow> got | Some x \<Rightarrow> x # got), s2))"

locale fifo =
  fixes holds :: "'s \<Rightarrow> 'x list \<Rightarrow> bool"
    and fits :: "'x \<Rightarrow> bool"
    and put :: "'x \<Rightarrow> 's \<Rightarrow> bool \<times> 's"
    and get :: "'s \<Rightarrow> 'x option \<times> 's"
  assumes put_law: "holds s q \<Longrightarrow> fits x \<Longrightarrow> put x s = (ok, s') \<Longrightarrow> holds s' (if ok then q @ [x] else q)"
    and get_law: "holds s (x # q) \<Longrightarrow> \<exists>s'. get s = (Some x, s') \<and> holds s' q"
    and get_empty: "holds s [] \<Longrightarrow> get s = (None, s)"
begin

lemma drive_in_order:
  assumes "holds s q" "\<forall>x. Put x \<in> set rs \<longrightarrow> fits x" "drive put get rs s = (accepted, got, s')"
  shows "\<exists>left. holds s' left \<and> q @ accepted = got @ left"
  using assms
proof (induction rs arbitrary: s q accepted got)
  case (Cons r rs)
  show ?case
  proof (cases r)
    case (Put x)
    obtain ok s1 accepted1 where r: "put x s = (ok, s1)" "drive put get rs s1 = (accepted1, got, s')"
      "accepted = (if ok then x # accepted1 else accepted1)"
      using Cons.prems(3) Put by (auto split: prod.splits)
    have "fits x" using Cons.prems(2) Put by simp
    from put_law [OF Cons.prems(1) this r(1)] Cons.IH [OF _ _ r(2)] Cons.prems(2) obtain left where
      "holds s' left" "(if ok then q @ [x] else q) @ accepted1 = got @ left" by (metis list.set_intros(2))
    then show ?thesis using r(3) by (auto split: if_splits)
  next
    case Get
    show ?thesis
    proof (cases q)
      case Nil
      then have "drive put get rs s = (accepted, got, s')"
        using Cons.prems(1,3) Get get_empty [of s] by (simp split: prod.splits)
      from Cons.IH [OF Cons.prems(1) _ this] Cons.prems(2) show ?thesis by simp
    next
      case (Cons y q')
      with Cons.prems(1) obtain s1 where g: "get s = (Some y, s1)" "holds s1 q'" using get_law by blast
      then obtain got1 where r: "drive put get rs s1 = (accepted, got1, s')" "got = y # got1"
        using Cons.prems(3) Get by (auto split: prod.splits)
      from Cons.IH [OF g(2) _ r(1)] Cons.prems(2) obtain left where "holds s' left" "q' @ accepted = got1 @ left"
        by auto
      then show ?thesis using r(2) Cons by auto
    qed
  qed
qed simp

end

section \<open>The ledger is a queue\<close>

definition ledger_put :: "byte list \<Rightarrow> chain_world \<Rightarrow> bool \<times> chain_world" where
  "ledger_put x w =
     (case push_to_chain (Some x) w of Done rc w' \<Rightarrow> (rc = NORMAL_STATE, w') | _ \<Rightarrow> (False, w))"

definition ledger_get :: "chain_world \<Rightarrow> byte list option \<times> chain_world" where
  "ledger_get w =
     (case pop_from_chain w of Done (rc, r) w' \<Rightarrow> (if rc = NORMAL_STATE then r else None, w') | _ \<Rightarrow> (None, w))"

definition ledger_holds :: "u64 \<Rightarrow> chain_world \<Rightarrow> byte list list \<Rightarrow> bool" where
  "ledger_holds n w q \<longleftrightarrow> fresh_supply w \<and> map_option payload_footprint (ledger_ref w) = Some n \<and>
     (\<exists>cs. chain w cs \<and> map payload cs = q)"

interpretation ledger: fifo "ledger_holds n" "\<lambda>x. length x = unat n" ledger_put ledger_get
  for n :: u64
proof
  fix w w' q ok and x :: "byte list"
  assume h: "ledger_holds n w q" and x: "length x = unat n" and put: "ledger_put x w = (ok, w')"
  then obtain cs l where w: "fresh_supply w" "chain w cs" "map payload cs = q" "ledger_ref w = Some l"
    "payload_footprint l = n" by (auto simp: ledger_holds_def)
  show "ledger_holds n w' (if ok then q @ [x] else q)"
  proof (cases "two_grants w")
    case True
    then obtain a d s where "heap_supply w = a # d # s" "a \<noteq> NULL" "d \<noteq> NULL"
      by (auto simp: two_grants_def split: list.splits)
    from push_granted [OF w(2,1,4) _ this, of x] x w(5) obtain w1 where
      "push_to_chain (Some x) w = Done NORMAL_STATE w1" "fresh_supply w1" "chain w1 (cs @ [(a, d, x)])"
      "map_option payload_footprint (ledger_ref w1) = Some n" by auto
    then show ?thesis using put w(3) unfolding ledger_holds_def ledger_put_def
      by (auto intro!: exI [of _ "cs @ [(a, d, x)]"])
  next
    case False
    then show ?thesis using push_refused [OF w(2,1,4), of x] put w
      by (auto simp: ledger_holds_def ledger_put_def ALLOC_FAULT_def NORMAL_STATE_def)
  qed
next
  fix w q and x :: "byte list"
  assume "ledger_holds n w (x # q)"
  then obtain c cs where w: "fresh_supply w" "chain w (c # cs)" "payload c = x" "map payload cs = q"
    "map_option payload_footprint (ledger_ref w) = Some n" by (auto simp: ledger_holds_def)
  from pop_spec [OF w(2,1)] obtain w' where "pop_from_chain w = Done (NORMAL_STATE, Some x) w'" "chain w' cs"
    "fresh_supply w'" "map_option payload_footprint (ledger_ref w') = Some n" using w(3,5) by auto
  then show "\<exists>w'. ledger_get w = (Some x, w') \<and> ledger_holds n w' q"
    using w(4) by (auto simp: ledger_get_def ledger_holds_def)
next
  fix w
  assume "ledger_holds n w []"
  then show "ledger_get w = (None, w)"
    by (auto simp: ledger_holds_def ledger_get_def pop_peek_empty VOID_STATE_def NORMAL_STATE_def)
qed

text \<open>
  C15. From a freshly set up ledger, whatever the order of pushes and pops and whatever allocations are
  refused, the payloads popped are the payloads accepted, in the order they were pushed, and the rest
  is still queued.
\<close>

theorem ledger_fifo:
  assumes "ledger_ref w0 \<noteq> None" "fresh_supply w0" "bootstrap_chain_ledger n w0 = Done () w"
    and "\<forall>x. Put x \<in> set rs \<longrightarrow> length x = unat n"
    and "drive ledger_put ledger_get rs w = (accepted, got, w')"
  shows "\<exists>cs. chain w' cs \<and> accepted = got @ map payload cs"
proof -
  obtain l where "ledger_ref w0 = Some l" using assms(1) by blast
  from bootstrap_spec [OF this, of n] assms(2,3) have "ledger_holds n w []"
    by (auto simp: ledger_holds_def fresh_supply_def)
  from ledger.drive_in_order [OF this assms(4,5)] show ?thesis by (auto simp: ledger_holds_def)
qed

section \<open>Concrete ledgers\<close>

text \<open>A ledger not yet set up, and a heap that gives out the listed addresses.\<close>

definition raw_world :: "u64 list \<Rightarrow> chain_world" where
  "raw_world addresses = \<lparr>ledger_ref = Some \<lparr>payload_footprint = 0, access_lock = Dead, tail_node = 0, head_node = 0\<rparr>,
     units = Map.empty, blocks = Map.empty, heap_supply = addresses\<rparr>"

theorem ledger_fifo_witness:
  "\<exists>w w' cs. bootstrap_chain_ledger 2 (raw_world [11, 12, 13, 14, 0, 15, 16]) = Done () w \<and>
     drive ledger_put ledger_get [Put [1, 1], Put [2, 2], Get, Put [3, 3], Put [4, 4], Get] w =
       ([[1, 1], [2, 2], [4, 4]], [[1, 1], [2, 2]], w') \<and> chain w' cs \<and> map payload cs = [[4, 4]]"
proof -
  let ?raw = "raw_world [11, 12, 13, 14, 0, 15, 16]"
  let ?w = "?raw\<lparr>ledger_ref := Some \<lparr>payload_footprint = 2, access_lock = Unlocked, tail_node = 0, head_node = 0\<rparr>\<rparr>"
  let ?rs = "[Put [1, 1], Put [2, 2], Get, Put [3, 3], Put [4, 4], Get] :: byte list queue_request list"
  have boot: "bootstrap_chain_ledger 2 ?raw = Done () ?w"
    by (simp add: raw_world_def bootstrap_chain_ledger_def set_ledger_def)
  have "case drive ledger_put ledger_get ?rs ?w of (accepted, got, _) \<Rightarrow>
      accepted = [[1, 1], [2, 2], [4, 4]] \<and> got = [[1, 1], [2, 2]]" by code_simp
  then obtain w' where run: "drive ledger_put ledger_get ?rs ?w = ([[1, 1], [2, 2], [4, 4]], [[1, 1], [2, 2]], w')"
    by (auto split: prod.splits)
  have "ledger_ref ?raw \<noteq> None" "fresh_supply ?raw" by (simp_all add: raw_world_def fresh_supply_def)
  moreover have "\<forall>x. Put x \<in> set ?rs \<longrightarrow> length x = unat (2 :: u64)" by auto
  ultimately obtain cs where "chain w' cs" "[[1, 1], [2, 2], [4, 4]] = [[1, 1], [2, 2]] @ map payload cs"
    using ledger_fifo [OF _ _ boot _ run] by blast
  then have "chain w' cs" "map payload cs = [[4, 4]]" by simp_all
  with boot run show ?thesis by (intro exI conjI)
qed

text \<open>A queue of two payloads of two bytes.\<close>

definition two_cells :: "chain_cell list" where
  "two_cells = [(11, 12, [1, 1]), (13, 14, [2, 2])]"

definition two_world :: chain_world where
  "two_world = \<lparr>ledger_ref = Some \<lparr>payload_footprint = 2, access_lock = Unlocked, tail_node = 13, head_node = 11\<rparr>,
     units = [11 \<mapsto> \<lparr>predecessor_link = 0, payload_data = 12, successor_link = 13\<rparr>,
              13 \<mapsto> \<lparr>predecessor_link = 11, payload_data = 14, successor_link = 0\<rparr>],
     blocks = [12 \<mapsto> [1, 1], 14 \<mapsto> [2, 2]], heap_supply = []\<rparr>"

lemma two_chain: "chain two_world two_cells"
  by (simp add: chain_at_def two_world_def two_cells_def)

theorem excise_tail_spec_witness:
  "\<exists>w'. excise_tail_chain (\<lambda>bs. if bs = [2, 2] then 0 else 1) two_world = Some (Done NORMAL_STATE w') \<and>
     chain w' [(11, 12, [1, 1])]"
  using excise_tail_spec [OF two_chain, of "\<lambda>bs. if bs = [2, 2] then 0 else 1"] by (auto simp: two_cells_def)

theorem excise_offset_spec_witness:
  "(\<exists>w'. excise_offset_chain 0 True two_world = Some (Done (0, Some 12) w') \<and> chain w' [(13, 14, [2, 2])]) \<and>
   excise_offset_chain (-1) True two_world = Some (Done (-1, None) two_world)"
proof -
  obtain l where l: "ledger_ref two_world = Some l" "payload_footprint l = 2" by (simp add: two_world_def)
  have "drop (unat (word_of_int (-1) :: u64)) two_cells = []" by (simp add: two_cells_def unsigned_minus_1_eq_mask mask_eq_exp_minus_1)
  then show ?thesis
    using excise_offset_spec [OF two_chain refl l(1), of 0] excise_offset_spec [OF two_chain refl l(1), of "-1"] l(2)
    by (auto simp: two_cells_def)
qed

theorem dump_spec_witness: "dump_chain_ledger two_world = Some (Done [12, 14] two_world)"
  using dump_spec [OF two_chain, of "the (ledger_ref two_world)"] by (simp add: two_world_def two_cells_def)

theorem eradicate_frees_nothing_witness:
  "eradicate_chain_ledger two_world = Done () two_world \<and> blocks two_world 12 = Some [1, 1]"
  using eradicate_frees_nothing [OF two_chain] by (simp add: two_world_def)

end
