(* ===== verification/Slots.thy ===== *)
theory Slots
  imports DynArray
begin

text \<open>
  What the dynamic array promises: an abstract table of equally wide cells, its operations, and the
  refinement of each routine of \<^verbatim>\<open>dynamic_array.c\<close> to the table operation. The invariant
  \<open>da_shape\<close> ties the counters to the block; \<open>da_ok\<close> adds that the lock is free. Each routine is
  shown to release the lock on every path, to leave the store untouched when it reports an error,
  and to compute the table operation when it succeeds.
\<close>

section \<open>The invariant and the abstraction\<close>

definition da_shape :: "dyn_array \<Rightarrow> bool" where
  "da_shape st \<longleftrightarrow>
     element_byte_footprint st \<noteq> 0 \<and> floor_threshold st \<noteq> 0 \<and>
     (allocated_slots st = 0 \<or> floor_threshold st \<le> allocated_slots st) \<and>
     unat (allocated_slots st) * unat (element_byte_footprint st) \<le> unat SIZE_MAX \<and>
     (case heap_region st of
        None \<Rightarrow> allocated_slots st = 0
      | Some mem \<Rightarrow> allocated_slots st \<noteq> 0 \<and>
          length mem = unat (allocated_slots st) * unat (element_byte_footprint st))"

definition da_ok :: "dyn_array \<Rightarrow> bool" where
  "da_ok st \<longleftrightarrow> da_shape st \<and> synchronizer st = Unlocked"

definition region_of :: "dyn_array \<Rightarrow> byte list" where
  "region_of st = (case heap_region st of None \<Rightarrow> [] | Some mem \<Rightarrow> mem)"

record table =
  cells :: "byte list list"
  width :: nat
  live :: nat
  lower :: nat

definition table_of :: "dyn_array \<Rightarrow> table" where
  "table_of st =
     \<lparr>cells = cells_of (unat (element_byte_footprint st)) (unat (allocated_slots st)) (region_of st),
      width = unat (element_byte_footprint st),
      live = unat (occupied_slots st),
      lower = unat (floor_threshold st)\<rparr>"

lemma table_of_simps [simp]:
  "length (cells (table_of st)) = unat (allocated_slots st)"
  "width (table_of st) = unat (element_byte_footprint st)"
  "live (table_of st) = unat (occupied_slots st)"
  "lower (table_of st) = unat (floor_threshold st)"
  "table_of (st\<lparr>synchronizer := m\<rparr>) = table_of st"
  by (simp_all add: table_of_def region_of_def)

lemma cells_empty [simp]: "cells (table_of st) = [] \<longleftrightarrow> allocated_slots st = 0"
  by (metis length_0_conv table_of_simps(1) unat_eq_zero)

lemma da_shape_synchronizer [simp]: "da_shape (st\<lparr>synchronizer := m\<rparr>) = da_shape st"
  by (simp add: da_shape_def cong: option.case_cong)

lemma da_shape_occupied [simp]: "da_shape (st\<lparr>occupied_slots := n\<rparr>) = da_shape st"
  by (simp add: da_shape_def cong: option.case_cong)

lemma table_of_occupied [simp]:
  "table_of (st\<lparr>occupied_slots := n\<rparr>) = (table_of st)\<lparr>live := unat n\<rparr>"
  by (simp add: table_of_def region_of_def)

lemma da_shape_region:
  "da_shape st \<Longrightarrow> length (region_of st) = unat (allocated_slots st) * unat (element_byte_footprint st)"
  by (auto simp: da_shape_def region_of_def split: option.splits)

lemma da_shape_heap:
  "da_shape st \<Longrightarrow> allocated_slots st \<noteq> 0 \<Longrightarrow> heap_region st = Some (region_of st)"
  by (auto simp: da_shape_def region_of_def split: option.splits)

lemma cell_width: "da_shape st \<Longrightarrow> i < unat (allocated_slots st) \<Longrightarrow>
    length (cells (table_of st) ! i) = unat (element_byte_footprint st)"
  by (simp add: table_of_def length_cell [OF da_shape_region])

section \<open>Addresses do not wrap\<close>

lemma unat_mult_fits: "unat (a :: u64) * unat b \<le> unat SIZE_MAX \<Longrightarrow> unat (a * b) = unat a * unat b"
  by (subst unat_mult_lem [symmetric]) (simp add: le_less_trans)

lemma uint_mult_fits: "uint (a :: u64) * uint b \<le> 18446744073709551615 \<longleftrightarrow>
    unat a * unat b \<le> 18446744073709551615"
proof -
  have "uint a * uint b = int (unat a * unat b)" by simp
  then show ?thesis by linarith
qed

lemma unat_le_size_max: "unat (a :: u64) \<le> 18446744073709551615"
proof -
  have "unat a < 2 ^ 64" using unsigned_less [of a, where 'a = nat] by simp
  then show ?thesis by simp
qed

lemma slot_address:
  assumes "da_shape st" "i < allocated_slots st"
  shows "unat (i * element_byte_footprint st) = unat i * unat (element_byte_footprint st)"
proof (rule unat_mult_fits)
  have "unat i * unat (element_byte_footprint st) \<le> unat (allocated_slots st) * unat (element_byte_footprint st)"
    using assms(2) by (intro mult_le_mono1) (simp add: word_less_nat_alt)
  also have "\<dots> \<le> unat SIZE_MAX" using assms(1) by (simp add: da_shape_def)
  finally show "unat i * unat (element_byte_footprint st) \<le> unat SIZE_MAX" .
qed

lemma peek_shape:
  assumes "da_shape st" "i < allocated_slots st"
  shows "peek i st = Done (cells (table_of st) ! unat i) st"
proof -
  have "allocated_slots st \<noteq> 0" using assms(2) by auto
  then show ?thesis
    using assms da_shape_heap [OF assms(1)]
    by (simp add: peek_def slot_address read_cell [OF da_shape_region] word_less_nat_alt table_of_def)
qed

lemma poke_shape:
  assumes "da_shape st" "i < allocated_slots st" "length bs = unat (element_byte_footprint st)"
  obtains st' where "poke i bs st = Done () st'" "da_shape st'"
    "table_of st' = (table_of st)\<lparr>cells := (cells (table_of st))[unat i := bs]\<rparr>"
    "st' = st\<lparr>heap_region := heap_region st'\<rparr>"
proof -
  let ?w = "unat (element_byte_footprint st)" and ?n = "unat (allocated_slots st)"
  have nz: "allocated_slots st \<noteq> 0" using assms(2) by auto
  have "unat i < ?n" using assms(2) by (simp add: word_less_nat_alt)
  with da_shape_region [OF assms(1)] obtain mem' where
    m: "write_bytes (unat i * ?w) bs (region_of st) = Some mem'" "length mem' = ?n * ?w"
      "cells_of ?w ?n mem' = (cells_of ?w ?n (region_of st))[unat i := bs]"
    using assms(3) by (rule write_cell)
  show thesis
  proof
    show "poke i bs st = Done () (st\<lparr>heap_region := Some mem'\<rparr>)"
      using assms m da_shape_heap [OF assms(1) nz] by (simp add: poke_def slot_address)
    show "da_shape (st\<lparr>heap_region := Some mem'\<rparr>)"
      using assms(1) nz m(2) by (simp add: da_shape_def)
    show "table_of (st\<lparr>heap_region := Some mem'\<rparr>) =
        (table_of st)\<lparr>cells := (cells (table_of st))[unat i := bs]\<rparr>"
      using m by (simp add: table_of_def region_of_def)
  qed simp
qed

section \<open>The table operations\<close>

definition t_capacity :: "table \<Rightarrow> nat" where
  "t_capacity t = (if cells t = [] then lower t else 2 * length (cells t))"

definition t_grow :: "table \<Rightarrow> table" where
  "t_grow t =
     (if live t < length (cells t) then t
      else t\<lparr>cells := cells t @ replicate (t_capacity t - length (cells t)) (zeros (width t))\<rparr>)"

definition t_append :: "byte list \<Rightarrow> table \<Rightarrow> table" where
  "t_append bs t = (t_grow t)\<lparr>cells := (cells (t_grow t))[live t := bs], live := Suc (live t)\<rparr>"

definition t_implant :: "nat \<Rightarrow> byte list \<Rightarrow> table \<Rightarrow> table" where
  "t_implant i bs t = (t_grow t)\<lparr>cells := (cells (t_grow t))[i := bs], live := Suc (live t)\<rparr>"

definition t_fetch :: "nat \<Rightarrow> table \<Rightarrow> byte list option" where
  "t_fetch i t = (if i < length (cells t) then Some (cells t ! i) else None)"

definition t_compact :: "nat \<Rightarrow> table \<Rightarrow> table" where
  "t_compact i t =
     (let m = max (length (cells t) div 2) (lower t) in
      if Suc i = length (cells t) div 2 \<and> list_all (\<lambda>c. c = zeros (width t)) (drop m (cells t))
      then t\<lparr>cells := take m (cells t)\<rparr> else t)"

definition t_excise :: "nat \<Rightarrow> table \<Rightarrow> table" where
  "t_excise i t =
     t_compact i (t\<lparr>cells := (cells t)[i := zeros (width t)], live := live t - 1\<rparr>)"

lemma t_compact_simps [simp]:
  "width (t_compact i t) = width t" "live (t_compact i t) = live t" "lower (t_compact i t) = lower t"
  by (simp_all add: t_compact_def Let_def)

text \<open>When growing is possible at all: the doubled size must be a \<^verbatim>\<open>size_t\<close> and be granted.\<close>

definition can_grow :: "allocator \<Rightarrow> table \<Rightarrow> bool" where
  "can_grow al t \<longleftrightarrow> live t < length (cells t) \<or>
     (int (t_capacity t * width t) \<le> uint SIZE_MAX \<and> grants al (t_capacity t * width t))"

lemma can_grow_iff:
  "can_grow al t \<longleftrightarrow> live t < length (cells t) \<or>
     (t_capacity t * width t \<le> unat SIZE_MAX \<and> grants al (t_capacity t * width t))"
proof -
  have "int n \<le> uint SIZE_MAX \<longleftrightarrow> n \<le> unat SIZE_MAX" for n by simp
  then show ?thesis unfolding can_grow_def by (simp only:)
qed

section \<open>Growing\<close>

lemma div_fits: "0 < (w::nat) \<Longrightarrow> n \<le> N div w \<longleftrightarrow> n * w \<le> N"
  by (simp add: less_eq_div_iff_mult_less_eq)

lemma double_fits: "unat (a :: u64) \<le> unat SIZE_MAX div 2 \<Longrightarrow> unat (a * 2) = 2 * unat a"
  using unat_mult_fits [of a 2] by (simp add: div_fits mult.commute)

lemma expand_next:
  assumes "da_shape st" "\<not> occupied_slots st < allocated_slots st"
    and "allocated_slots st = 0 \<or> allocated_slots st \<le> SIZE_MAX div 2"
    and next_cap: "next_cap = (if allocated_slots st \<noteq> 0 then allocated_slots st * 2 else floor_threshold st)"
  shows "unat next_cap = t_capacity (table_of st)" "allocated_slots st < next_cap"
    "floor_threshold st \<le> next_cap"
proof -
  have half: "allocated_slots st \<noteq> 0 \<Longrightarrow> unat (allocated_slots st * 2) = 2 * unat (allocated_slots st)"
    using assms(3) by (intro double_fits) (auto simp: word_le_nat_alt unat_div)
  show cap: "unat next_cap = t_capacity (table_of st)"
    using half next_cap by (auto simp: t_capacity_def)
  have "floor_threshold st \<noteq> 0" using assms(1) by (simp add: da_shape_def)
  then show *: "allocated_slots st < next_cap"
    using half next_cap by (auto simp: word_less_nat_alt unat_gt_0)
  show "floor_threshold st \<le> next_cap"
    using assms(1) * next_cap by (auto simp: da_shape_def)
qed


lemma realloc_prefix:
  assumes "length (region_of st) \<le> unat sz"
  shows "realloc al (heap_region st) sz =
    (if grants al (unat sz)
     then Some (region_of st @ map (junk al) [length (region_of st)..<unat sz]) else None)"
  using assms by (auto simp: realloc_def region_of_def split: option.splits)

lemma write_tail:
  "n = length xs \<Longrightarrow> length ys = k \<Longrightarrow> write_bytes n (zeros k) (xs @ ys) = Some (xs @ zeros k)"
  by (simp add: write_bytes_def)

lemma expand_fails:
  assumes shape: "da_shape st" and no: "\<not> can_grow al (table_of st)"
  shows "expand_storage_if_required al st = Done (-1) st"
proof (cases "allocated_slots st \<noteq> 0 \<and> allocated_slots st > SIZE_MAX div 2")
  case True
  with no show ?thesis
    by (auto simp: expand_storage_if_required_def can_grow_iff word_less_nat_alt)
next
  case False
  define next_cap where "next_cap = (if allocated_slots st \<noteq> 0 then allocated_slots st * 2 else floor_threshold st)"
  have full: "\<not> occupied_slots st < allocated_slots st"
    using no by (simp add: can_grow_iff word_less_nat_alt)
  have small: "allocated_slots st = 0 \<or> allocated_slots st \<le> SIZE_MAX div 2"
    using False by (simp add: not_less)
  note cap = expand_next [OF shape full small next_cap_def]
  have w: "0 < unat (element_byte_footprint st)" using shape by (simp add: da_shape_def unat_gt_0)
  show ?thesis
  proof (cases "next_cap \<le> SIZE_MAX div element_byte_footprint st")
    case fits: True
    then have "unat next_cap * unat (element_byte_footprint st) \<le> unat SIZE_MAX"
      using w by (simp add: word_le_nat_alt unat_div div_fits)
    then have prod: "unat (next_cap * element_byte_footprint st) =
        t_capacity (table_of st) * unat (element_byte_footprint st)"
      using cap by (simp add: unat_mult_fits)
    then have "\<not> grants al (unat (next_cap * element_byte_footprint st))"
      using no \<open>unat next_cap * _ \<le> _\<close> cap by (auto simp: can_grow_iff)
    then show ?thesis using full False fits
      by (auto simp: expand_storage_if_required_def realloc_def next_cap_def)
  next
    case False
    then show ?thesis using full \<open>\<not> (allocated_slots st \<noteq> 0 \<and> _)\<close> w
      by (auto simp: expand_storage_if_required_def next_cap_def unat_gt_0)
  qed
qed

lemma expand_grows:
  assumes shape: "da_shape st" and can: "can_grow al (table_of st)"
  obtains st' where "expand_storage_if_required al st = Done 0 st'" "da_shape st'"
    "table_of st' = t_grow (table_of st)" "occupied_slots st' = occupied_slots st"
    "synchronizer st' = synchronizer st"
proof (cases "occupied_slots st < allocated_slots st")
  case True
  then show thesis using shape
    by (intro that [of st]) (auto simp: expand_storage_if_required_def t_grow_def word_less_nat_alt)
next
  case full: False
  define next_cap where "next_cap = (if allocated_slots st \<noteq> 0 then allocated_slots st * 2 else floor_threshold st)"
  let ?w = "element_byte_footprint st" and ?n = "allocated_slots st"
  have w: "0 < unat ?w" using shape by (simp add: da_shape_def unat_gt_0)
  have bytes: "t_capacity (table_of st) * unat ?w \<le> unat SIZE_MAX"
    and granted: "grants al (t_capacity (table_of st) * unat ?w)"
    using can full by (auto simp: can_grow_iff word_less_nat_alt)
  have "t_capacity (table_of st) \<le> unat SIZE_MAX"
    using bytes w by (intro le_trans [OF _ bytes]) (cases "unat ?w"; simp)
  then have small: "?n = 0 \<or> ?n \<le> SIZE_MAX div 2"
    by (auto simp: t_capacity_def word_le_nat_alt unat_div div_fits split: if_splits)
  note cap = expand_next [OF shape full small next_cap_def]
  have fits: "next_cap \<le> SIZE_MAX div ?w"
    using bytes w cap(1) by (simp add: word_le_nat_alt unat_div div_fits)
  have sz: "unat (next_cap * ?w) = unat next_cap * unat ?w"
    using bytes cap(1) by (intro unat_mult_fits) simp
  have le: "unat ?n \<le> unat next_cap" using cap(2) by (simp add: word_less_nat_alt)
  have prev: "unat (?n * ?w) = length (region_of st)"
    using shape da_shape_region [OF shape] by (simp add: unat_mult_fits da_shape_def)
  have "unat (next_cap - ?n) = unat next_cap - unat ?n"
    using cap(2) by (intro unat_sub) simp
  moreover from this have "unat ((next_cap - ?n) * ?w) = (unat next_cap - unat ?n) * unat ?w"
    using bytes cap(1) by (subst unat_mult_fits) (auto simp: diff_mult_distrib)
  ultimately have delta: "unat ((next_cap - ?n) * ?w) = (unat next_cap - unat ?n) * unat ?w" by simp
  define region' where "region' = region_of st @ zeros ((unat next_cap - unat ?n) * unat ?w)"
  have "length (region_of st) \<le> unat (next_cap * ?w)"
    using le da_shape_region [OF shape] sz by (simp add: mult_le_mono1)
  then have "expand_storage_if_required al st =
      Done 0 (st\<lparr>heap_region := Some region', allocated_slots := next_cap\<rparr>)"
    using full small fits cap(2) granted cap(1) sz prev delta le da_shape_region [OF shape]
    by (auto simp: expand_storage_if_required_def next_cap_def [symmetric] realloc_prefix Let_def
        write_tail diff_mult_distrib region'_def)
  moreover have "da_shape (st\<lparr>heap_region := Some region', allocated_slots := next_cap\<rparr>)"
    using shape cap bytes le da_shape_region [OF shape]
    by (auto simp: da_shape_def region'_def diff_mult_distrib mult_le_mono1)
  moreover have "table_of (st\<lparr>heap_region := Some region', allocated_slots := next_cap\<rparr>) = t_grow (table_of st)"
    using cells_of_grow [OF da_shape_region [OF shape], of "unat next_cap - unat ?n"] le full cap(1)
    by (simp add: table_of_def t_grow_def region_of_def region'_def t_capacity_def word_less_nat_alt)
  ultimately show thesis by (rule that) simp_all
qed

section \<open>Shrinking\<close>

definition can_shrink :: "allocator \<Rightarrow> table \<Rightarrow> bool" where
  "can_shrink al t \<longleftrightarrow> grants al (max (length (cells t) div 2) (lower t) * width t)"

lemma upper_part_empty_eq:
  assumes shape: "da_shape st" and w: "unat (element_byte_footprint st) \<le> 8"
  shows "upper_part_empty st m =
    Inr (list_all (\<lambda>c. c = zeros (width (table_of st))) (drop (unat m) (cells (table_of st))))"
proof -
  let ?w = "unat (element_byte_footprint st)" and ?n = "unat (allocated_slots st)"
  let ?body = "\<lambda>k (_ :: unit). (case heap_region st of None \<Rightarrow> Inr (Inl Null_Deref)
      | Some mem \<Rightarrow> (case read_bytes (k * ?w) ?w mem of None \<Rightarrow> Inr (Inl Out_Of_Bounds)
         | Some bs \<Rightarrow> if ?w > 8 then Inr (Inl Out_Of_Bounds)
             else if bs = zeros ?w then Inl () else Inr (Inr False)))"
  let ?Q = "\<lambda>k. cell ?w k (region_of st) = zeros ?w"
  have "?body k () = (if ?Q k then Inl () else Inr (Inr False))" if "k \<in> set [unat m..<?n]" for k
    using that w read_cell [OF da_shape_region [OF shape], of k] da_shape_heap [OF shape]
    by (cases "allocated_slots st = 0") auto
  then have "for_ret [unat m..<?n] ?body () =
      (if list_all ?Q [unat m..<?n] then Inl () else Inr (Inr False))"
    by (rule for_ret_test)
  moreover have "list_all ?Q [unat m..<?n] =
      list_all (\<lambda>c. c = zeros ?w) (drop (unat m) (cells (table_of st)))"
    by (auto simp: table_of_def cells_of_def drop_map list_all_iff)
  ultimately show ?thesis by (simp add: upper_part_empty_def)
qed

lemma unat_half: "unat ((a :: u64) div 2) = unat a div 2"
  by (simp add: unat_div)

lemma half_index:
  assumes "i < (a :: u64)"
  shows "i = a div 2 - 1 \<longleftrightarrow> Suc (unat i) = unat a div 2"
proof (cases "a div 2 = 0")
  case True
  then have "unat a div 2 = 0" by (metis unat_0 unat_half)
  moreover have "i \<noteq> - 1" using assms by (metis not_less word_order.extremum)
  ultimately show ?thesis using True by simp
next
  case False
  then have "unat (a div 2 - 1) = unat a div 2 - 1" "0 < unat a div 2"
    using unat_minus_one [OF False] unat_gt_0 [of "a div 2"] by (simp_all add: unat_half)
  then show ?thesis by (auto simp: word_unat_eq_iff)
qed

lemma compaction_spec:
  assumes shape: "da_shape st" and w: "unat (element_byte_footprint st) \<le> 8"
    and i: "i < allocated_slots st"
  obtains rc st' where "evaluate_compaction al i st = Done rc st'" "da_shape st'"
    "table_of st' = (if can_shrink al (table_of st) then t_compact (unat i) (table_of st) else table_of st)"
    "occupied_slots st' = occupied_slots st" "synchronizer st' = synchronizer st"
proof -
  let ?n = "allocated_slots st" and ?w = "element_byte_footprint st"
  define m where "m = (if ?n div 2 \<ge> floor_threshold st then ?n div 2 else floor_threshold st)"
  have nz: "?n \<noteq> 0" using i by auto
  have m: "unat m = max (length (cells (table_of st)) div 2) (lower (table_of st))"
    by (auto simp: m_def unat_half word_le_nat_alt)
  have le: "unat m \<le> unat ?n"
    using shape nz by (auto simp: m_def da_shape_def unat_half word_le_nat_alt)
  have "0 < unat m" using m shape by (simp add: da_shape_def unat_gt_0 less_max_iff_disj)
  then have pos: "m \<noteq> 0" by auto
  let ?c = "Suc (unat i) = unat ?n div 2 \<and>
      list_all (\<lambda>c. c = zeros (unat ?w)) (drop (unat m) (cells (table_of st)))"
  have compact: "t_compact (unat i) (table_of st) =
      (if ?c then (table_of st)\<lparr>cells := take (unat m) (cells (table_of st))\<rparr> else table_of st)"
    using m by (simp add: t_compact_def Let_def)
  have fits: "unat m * unat ?w \<le> unat SIZE_MAX"
    using le shape by (meson da_shape_def le_trans mult_le_mono1)
  then have sz: "unat (m * ?w) = unat m * unat ?w" by (rule unat_mult_fits)
  have shrink: "realloc al (heap_region st) (m * ?w) =
      (if grants al (unat m * unat ?w) then Some (take (unat m * unat ?w) (region_of st)) else None)"
    using le da_shape_region [OF shape] sz da_shape_heap [OF shape nz]
    by (simp add: realloc_def mult_le_mono1)
  let ?st' = "st\<lparr>heap_region := Some (take (unat m * unat ?w) (region_of st)), allocated_slots := m\<rparr>"
  have run: "evaluate_compaction al i st =
      (if \<not> ?c then Done 0 st else if grants al (unat m * unat ?w) then Done 0 ?st' else Done (-1) st)"
    using nz shrink half_index [OF i] upper_part_empty_eq [OF shape w, of m]
    by (auto simp: evaluate_compaction_def m_def [symmetric] Let_def)
  have "da_shape ?st'"
    using shape le pos nz fits da_shape_region [OF shape]
    by (auto simp: da_shape_def m_def mult_le_mono1)
  moreover have "table_of ?st' = (table_of st)\<lparr>cells := take (unat m) (cells (table_of st))\<rparr>"
    using le by (simp add: table_of_def region_of_def cells_of_shrink)
  ultimately have shrunk: "?c \<Longrightarrow> grants al (unat m * unat ?w) \<Longrightarrow> thesis"
    using run compact m by (intro that [of 0 ?st']) (auto simp: can_shrink_def)
  have "\<not> ?c \<Longrightarrow> thesis" using run compact shape by (intro that [of 0 st]) auto
  moreover have "?c \<Longrightarrow> \<not> grants al (unat m * unat ?w) \<Longrightarrow> thesis"
    using run compact m shape by (intro that [of "-1" st]) (auto simp: can_shrink_def)
  ultimately show thesis using shrunk by blast
qed

section \<open>The routines compute the table operations\<close>

text \<open>
  \<open>within st\<close>: the number of live elements does not exceed the number of slots. It is what
  \<^verbatim>\<open>append_to_store\<close> and \<^verbatim>\<open>extract_tail_from_store\<close> rely on when they use the count as an index.
\<close>

definition within :: "dyn_array \<Rightarrow> bool" where
  "within st \<longleftrightarrow> occupied_slots st \<le> allocated_slots st"

lemma relock [simp]:
  "synchronizer st = Unlocked \<Longrightarrow> st\<lparr>synchronizer := Unlocked\<rparr> = st"
  by (cases st) simp

lemma t_grow_simps [simp]:
  "width (t_grow t) = width t" "live (t_grow t) = live t" "lower (t_grow t) = lower t"
  by (simp_all add: t_grow_def)

lemma length_grow:
  assumes "da_shape st" "within st"
  shows "live (table_of st) < length (cells (t_grow (table_of st)))"
    "length (cells (table_of st)) \<le> length (cells (t_grow (table_of st)))"
proof -
  let ?t = "table_of st"
  have le: "live ?t \<le> length (cells ?t)" using assms(2) by (simp add: within_def word_le_nat_alt)
  have "0 < lower ?t" using assms(1) by (simp add: da_shape_def unat_gt_0)
  then have "length (cells ?t) < t_capacity ?t" by (cases "cells ?t") (auto simp: t_capacity_def)
  then show "live ?t < length (cells (t_grow ?t))" "length (cells ?t) \<le> length (cells (t_grow ?t))"
    using le by (auto simp: t_grow_def)
qed

text \<open>The common tail of \<^verbatim>\<open>append\<close> and \<^verbatim>\<open>implant\<close>: write an element, count it, release the lock.\<close>

definition put_and_count :: "u64 \<Rightarrow> byte list \<Rightarrow> (dyn_array, int) cmd" where
  "put_and_count i bs =
     andThen (poke i bs) (\<lambda>_.
     andThen (modify (\<lambda>s. s\<lparr>occupied_slots := occupied_slots s + 1\<rparr>)) (\<lambda>_.
     andThen unlock_store (\<lambda>_. ret 0)))"

lemma put_and_count_spec:
  assumes shape: "da_shape st" and i: "i < allocated_slots st"
    and len: "length bs = unat (element_byte_footprint st)"
    and room: "occupied_slots st < allocated_slots st"
  obtains st' where "put_and_count i bs st = Done 0 st'" "da_ok st'" "within st'"
    "table_of st' = (table_of st)\<lparr>cells := (cells (table_of st))[unat i := bs],
       live := Suc (live (table_of st))\<rparr>"
proof -
  obtain st1 where p: "poke i bs st = Done () st1" "da_shape st1"
    "table_of st1 = (table_of st)\<lparr>cells := (cells (table_of st))[unat i := bs]\<rparr>"
    "st1 = st\<lparr>heap_region := heap_region st1\<rparr>"
    using shape i len by (rule poke_shape)
  have same: "occupied_slots st1 = occupied_slots st" "allocated_slots st1 = allocated_slots st"
    by (subst p(4), simp)+
  have "occupied_slots st + 1 \<noteq> 0" using room
    by (metis add_diff_cancel word_not_simps(1) diff_0 not_less word_order.extremum)
  then have inc: "unat (occupied_slots st + 1) = Suc (unat (occupied_slots st))"
    by (simp add: unatSuc add.commute)
  let ?st' = "st1\<lparr>occupied_slots := occupied_slots st + 1, synchronizer := Unlocked\<rparr>"
  show thesis
  proof
    show "put_and_count i bs st = Done 0 ?st'"
      using p(1) same by (simp add: put_and_count_def cmd_defs store_prims)
    show "da_ok ?st'" using p(2) by (simp add: da_ok_def)
    show "within ?st'" using same room inc by (simp add: within_def word_le_nat_alt word_less_nat_alt)
    show "table_of ?st' = (table_of st)\<lparr>cells := (cells (table_of st))[unat i := bs],
       live := Suc (live (table_of st))\<rparr>"
      using p(3) inc by simp
  qed
qed

lemma append_run:
  "append_to_store al (Some bs) (Some st) =
     lift_store
      (andThen lock_store (\<lambda>lk. if lk = 0 then
         andThen (expand_storage_if_required al) (\<lambda>rc.
           if rc = 0 then andThen (gets occupied_slots) (\<lambda>n. put_and_count n bs)
           else andThen unlock_store (\<lambda>_. ret (-1)))
       else ret (-1))) st"
  unfolding append_to_store_def put_and_count_def by simp

lemma implant_run:
  "implant_at_offset al i (Some bs) (Some st) =
     lift_store
      (andThen lock_store (\<lambda>lk. if lk = 0 then
         andThen (gets allocated_slots) (\<lambda>cap. if i \<le> cap then
           andThen (expand_storage_if_required al) (\<lambda>rc.
             if rc = 0 then put_and_count i bs else andThen unlock_store (\<lambda>_. ret (-1)))
           else andThen unlock_store (\<lambda>_. ret (-1)))
       else ret (-1))) st"
  unfolding implant_at_offset_def put_and_count_def by simp

lemma poke_beyond:
  assumes "da_shape st" "allocated_slots st \<noteq> 0" "unat (allocated_slots st) \<le> unat i"
    and "unat i * unat (element_byte_footprint st) \<le> unat SIZE_MAX"
  shows "poke i bs st = Fault Out_Of_Bounds"
proof -
  let ?w = "unat (element_byte_footprint st)"
  have "0 < ?w" using assms(1) by (simp add: da_shape_def unat_gt_0)
  have "length (region_of st) \<le> unat i * ?w" using da_shape_region [OF assms(1)] assms(3) by simp
  then have "write_bytes (unat i * ?w) (take ?w bs) (region_of st) = None" if "?w \<le> length bs"
    using that \<open>0 < ?w\<close> by (simp add: write_bytes_def)
  then show ?thesis
    using da_shape_heap [OF assms(1,2)] unat_mult_fits [OF assms(4)] by (simp add: poke_def Let_def)
qed

lemma t_grow_nonempty:
  assumes "da_shape st" shows "cells (t_grow (table_of st)) \<noteq> []"
proof -
  have "0 < lower (table_of st)" using assms by (simp add: da_shape_def unat_gt_0)
  then show ?thesis by (auto simp: t_grow_def t_capacity_def)
qed

text \<open>
  \<^verbatim>\<open>append_to_store\<close> is the append of the abstract table: when the count is below the capacity or
  the array can double, it returns 0, the payload is in the slot whose index is the old count
  (whatever that slot held), every other slot is unchanged and new ones are zero, the count is one
  more and the invariant holds again with the lock free; otherwise it returns -1 and the store is
  exactly as before.
\<close>

lemma append_runs:
  assumes "da_ok st" "length bs = unat (element_byte_footprint st)"
  shows "if \<not> can_grow al (table_of st) then append_to_store al (Some bs) (Some st) = Done (-1) (Some st)
    else if live (table_of st) < length (cells (t_grow (table_of st)))
    then \<exists>st'. append_to_store al (Some bs) (Some st) = Done 0 (Some st') \<and> da_ok st' \<and> within st' \<and>
           table_of st' = t_append bs (table_of st)
    else live (table_of st) * width (table_of st) \<le> unat SIZE_MAX \<longrightarrow>
           append_to_store al (Some bs) (Some st) = Fault Out_Of_Bounds"
proof -
  have shape: "da_shape (st\<lparr>synchronizer := Locked\<rparr>)" and free: "synchronizer st = Unlocked"
    using assms(1) by (simp_all add: da_ok_def)
  show ?thesis
  proof (cases "can_grow al (table_of st)")
    case True
    then obtain st1 where g: "expand_storage_if_required al (st\<lparr>synchronizer := Locked\<rparr>) = Done 0 st1"
      "da_shape st1" "table_of st1 = t_grow (table_of st)" "occupied_slots st1 = occupied_slots st"
      using expand_grows [OF shape, of al] by auto
    have size: "length (cells (t_grow (table_of st))) = unat (allocated_slots st1)"
      by (simp flip: g(3))
    have "width (table_of st1) = width (table_of st)" using g(3) by simp
    then have w: "unat (element_byte_footprint st1) = unat (element_byte_footprint st)" by simp
    show ?thesis
    proof (cases "live (table_of st) < length (cells (t_grow (table_of st)))")
      case room: True
      then have "occupied_slots st1 < allocated_slots st1" using g(4) size by (simp add: word_less_nat_alt)
      moreover have "length bs = unat (element_byte_footprint st1)" using assms(2) w by simp
      ultimately obtain st2 where
        "put_and_count (occupied_slots st1) bs st1 = Done 0 st2" "da_ok st2" "within st2"
        "table_of st2 = (table_of st1)\<lparr>cells := (cells (table_of st1))[unat (occupied_slots st1) := bs],
           live := Suc (live (table_of st1))\<rparr>"
        using g(2) put_and_count_spec by blast
      then show ?thesis using True room free g
        by (auto simp: append_run cmd_defs store_prims t_append_def)
    next
      case full: False
      have "poke (occupied_slots st1) bs st1 = Fault Out_Of_Bounds"
        if fits: "unat (occupied_slots st) * unat (element_byte_footprint st) \<le> unat SIZE_MAX"
      proof (rule poke_beyond)
        show "da_shape st1" by (rule g(2))
        show "unat (allocated_slots st1) \<le> unat (occupied_slots st1)" using full g(4) size by simp
        show "unat (occupied_slots st1) * unat (element_byte_footprint st1) \<le> unat SIZE_MAX" using fits g(4) w by simp
        show "allocated_slots st1 \<noteq> 0"
          using t_grow_nonempty [OF shape] size by (auto simp flip: length_0_conv)
      qed
      then show ?thesis using True full free g
        by (simp add: append_run put_and_count_def cmd_defs store_prims)
    qed
  next
    case False
    then have "expand_storage_if_required al (st\<lparr>synchronizer := Locked\<rparr>) = Done (-1) (st\<lparr>synchronizer := Locked\<rparr>)"
      using shape by (intro expand_fails) simp_all
    then show ?thesis using False free by (simp add: append_run cmd_defs store_prims)
  qed
qed

lemma append_spec:
  assumes "da_ok st" "within st" "length bs = unat (element_byte_footprint st)"
  shows "if can_grow al (table_of st)
    then \<exists>st'. append_to_store al (Some bs) (Some st) = Done 0 (Some st') \<and> da_ok st' \<and> within st' \<and>
           table_of st' = t_append bs (table_of st)
    else append_to_store al (Some bs) (Some st) = Done (-1) (Some st)"
proof -
  have "live (table_of st) < length (cells (t_grow (table_of st)))"
    using length_grow(1) [of st] assms(1,2) by (simp add: da_ok_def)
  then show ?thesis using append_runs [OF assms(1,3), of al] by simp
qed

text \<open>
  \<^verbatim>\<open>implant_at_offset\<close>, every branch: beyond the allocated slots it is refused; if growing is
  needed and impossible it is refused, in both cases with the store as before; inside the (grown)
  array it is the table's overwrite at that index. In the one remaining case, an offset equal to
  the number of slots while a slot is still free, no growth happens and the copy leaves the block:
  undefined behaviour.
\<close>

lemma implant_spec:
  assumes ok: "da_ok st" "within st" and len: "length bs = unat (element_byte_footprint st)"
  shows "if allocated_slots st < i \<or> \<not> can_grow al (table_of st)
      then implant_at_offset al i (Some bs) (Some st) = Done (-1) (Some st)
    else if i = allocated_slots st \<and> occupied_slots st < allocated_slots st
      then implant_at_offset al i (Some bs) (Some st) = Fault Out_Of_Bounds
    else \<exists>st'. implant_at_offset al i (Some bs) (Some st) = Done 0 (Some st') \<and> da_ok st' \<and> within st' \<and>
           table_of st' = t_implant (unat i) bs (table_of st)"
proof -
  let ?l = "st\<lparr>synchronizer := Locked\<rparr>"
  have shape: "da_shape ?l" and free: "synchronizer st = Unlocked"
    using ok(1) by (simp_all add: da_ok_def)
  show ?thesis
  proof (cases "allocated_slots st < i \<or> \<not> can_grow al (table_of st)")
    case True
    then show ?thesis using free expand_fails [OF shape, of al]
      by (auto simp: implant_run cmd_defs store_prims not_le not_less)
  next
    case can: False
    then have le: "i \<le> allocated_slots st" and grow: "can_grow al (table_of ?l)" by auto
    from expand_grows [OF shape grow] obtain st1 where g: "expand_storage_if_required al ?l = Done 0 st1"
      "da_shape st1" "table_of st1 = t_grow (table_of st)" "occupied_slots st1 = occupied_slots st"
      by auto
    have w1: "length bs = unat (element_byte_footprint st1)"
      using len arg_cong [OF g(3), of width] by simp
    have a1: "unat (allocated_slots st1) = length (cells (t_grow (table_of st)))"
      using arg_cong [OF g(3), of "\<lambda>t. length (cells t)"] by simp
    have run: "implant_at_offset al i (Some bs) (Some st) = lift_store (\<lambda>_. put_and_count i bs st1) st"
      using le free g(1) by (simp add: implant_run cmd_defs store_prims)
    show ?thesis
    proof (cases "i = allocated_slots st \<and> occupied_slots st < allocated_slots st")
      case True
      then have "st1 = ?l" using g(1) by (simp add: expand_storage_if_required_def)
      moreover have "allocated_slots st \<noteq> 0" using True by auto
      moreover have "0 < unat (element_byte_footprint st)" using shape by (simp add: da_shape_def unat_gt_0)
      moreover have "unat (allocated_slots st * element_byte_footprint st) =
          unat (allocated_slots st) * unat (element_byte_footprint st)"
        using shape by (simp add: unat_mult_fits da_shape_def)
      ultimately have "poke i bs st1 = Fault Out_Of_Bounds"
        using True len da_shape_heap [OF shape] da_shape_region [OF shape]
        by (simp add: poke_def write_bytes_def Let_def)
      then show ?thesis using run True can by (simp add: put_and_count_def cmd_defs store_prims)
    next
      case False
      have room: "occupied_slots st1 < allocated_slots st1"
        using length_grow(1) [of st] ok a1 g(4) by (simp add: da_ok_def word_less_nat_alt)
      have "i < allocated_slots st1"
      proof (cases "occupied_slots st < allocated_slots st")
        case True
        then have "i < allocated_slots st" using False le by auto
        then show ?thesis using length_grow(2) [of st] ok a1 by (simp add: da_ok_def word_less_nat_alt)
      next
        case False
        then have "occupied_slots st = allocated_slots st" using ok(2) by (simp add: within_def)
        then show ?thesis using room le g(4) by auto
      qed
      from g(2) this w1 room obtain st2 where
        "put_and_count i bs st1 = Done 0 st2" "da_ok st2" "within st2"
        "table_of st2 = (table_of st1)\<lparr>cells := (cells (table_of st1))[unat i := bs],
           live := Suc (live (table_of st1))\<rparr>"
        by (rule put_and_count_spec)
      then show ?thesis using run can False g(3) by (auto simp: store_prims t_implant_def)
    qed
  qed
qed

text \<open>
  \<^verbatim>\<open>fetch_from_offset\<close> copies out the element of any allocated slot, live or not, refuses every
  other index, and never changes the store.
\<close>

lemma fetch_spec:
  assumes "da_ok st"
  shows "fetch_from_offset i True (Some st) =
    (case t_fetch (unat i) (table_of st) of
       Some bs \<Rightarrow> Done (0, Some bs) (Some st) | None \<Rightarrow> Done (-1, None) (Some st))"
proof -
  have shape: "da_shape (st\<lparr>synchronizer := Locked\<rparr>)" and free: "synchronizer st = Unlocked"
    using assms by (simp_all add: da_ok_def)
  show ?thesis using free peek_shape [OF shape, of i]
    by (auto simp: fetch_from_offset_def cmd_defs store_prims t_fetch_def word_less_nat_alt)
qed

text \<open>What running a cleanup hook on a cell means: the new bytes have the width of the cell.\<close>

definition hook_yields :: "'h hook option \<Rightarrow> byte list \<Rightarrow> 'h \<Rightarrow> 'h \<Rightarrow> bool" where
  "hook_yields hook bs w w' \<longleftrightarrow>
     (case hook of None \<Rightarrow> w' = w
      | Some h \<Rightarrow> (case h bs w of Done bs' w'' \<Rightarrow> length bs' = length bs \<and> w'' = w' | _ \<Rightarrow> False))"

lemma run_hook_spec:
  assumes shape: "da_shape st" and i: "i < allocated_slots st"
    and hook: "hook_yields (Some h) (cells (table_of st) ! unat i) w w'"
  obtains st' bs' where "run_hook h i (st, w) = Done () (st', w')" "da_shape st'"
    "table_of st' = (table_of st)\<lparr>cells := (cells (table_of st))[unat i := bs']\<rparr>"
    "st' = st\<lparr>heap_region := heap_region st'\<rparr>" "h (cells (table_of st) ! unat i) w = Done bs' w'"
proof -
  obtain bs' where h: "h (cells (table_of st) ! unat i) w = Done bs' w'"
    and "length bs' = length (cells (table_of st) ! unat i)"
    using hook by (auto simp: hook_yields_def split: outcome.splits)
  then have len: "length bs' = unat (element_byte_footprint st)"
    using cell_width [OF shape, of "unat i"] i by (simp add: word_less_nat_alt)
  from shape i len obtain st' where "poke i bs' st = Done () st'" "da_shape st'"
    "table_of st' = (table_of st)\<lparr>cells := (cells (table_of st))[unat i := bs']\<rparr>"
    "st' = st\<lparr>heap_region := heap_region st'\<rparr>"
    by (rule poke_shape)
  then show thesis using h peek_shape [OF shape i]
    by (intro that) (auto simp: run_hook_def cmd_defs outcome_simps)
qed

text \<open>A hook that fails takes the removal with it.\<close>

lemma excise_hook_fault:
  assumes ok: "da_ok st" and i: "i < allocated_slots st" and hook: "h (cells (table_of st) ! unat i) w = Fault f"
  shows "excise_at_offset al i (Some h) (Some st, w) = Fault f"
proof -
  let ?l = "st\<lparr>synchronizer := Locked\<rparr>"
  have shape: "da_shape ?l" and free: "synchronizer st = Unlocked" and il: "i < allocated_slots ?l"
    using ok i by (simp_all add: da_ok_def)
  have "run_hook h i (?l, w) = Fault f" using peek_shape [OF shape il] hook
    by (simp add: run_hook_def cmd_defs outcome_simps)
  then show ?thesis using i free
    by (simp add: excise_at_offset_def lift_store_with_def cmd_defs outcome_simps)
qed

text \<open>
  \<^verbatim>\<open>excise_at_offset\<close> on an allocated slot of a non-empty store of elements no wider than a
  pointer: the hook sees the element, the slot is zeroed, the count is one less, the store shrinks
  exactly as the table's compaction says (and only if the smaller block is granted), the lock is
  free again.
\<close>

lemma excise_spec:
  assumes ok: "da_ok st" and w8: "unat (element_byte_footprint st) \<le> 8"
    and i: "i < allocated_slots st" and some: "occupied_slots st \<noteq> 0"
    and hook: "hook_yields hook (cells (table_of st) ! unat i) w w'"
  shows "\<exists>st'. excise_at_offset al i hook (Some st, w) = Done 0 (Some st', w') \<and> da_ok st' \<and>
    table_of st' =
      (let t = (table_of st)\<lparr>cells := (cells (table_of st))[unat i := zeros (width (table_of st))],
                   live := live (table_of st) - 1\<rparr>
       in if can_shrink al t then t_excise (unat i) (table_of st) else t)"
proof -
  let ?l = "st\<lparr>synchronizer := Locked\<rparr>" and ?w = "element_byte_footprint st"
  have shape: "da_shape ?l" and free: "synchronizer st = Unlocked" and il: "i < allocated_slots ?l"
    using ok i by (simp_all add: da_ok_def)
  have hl: "hook_yields hook (cells (table_of ?l) ! unat i) w w'" using hook by simp
  define hooked where "hooked = (case hook of None \<Rightarrow> ret () | Some h \<Rightarrow> run_hook h i)"
  obtain st1 bs' where r: "hooked (?l, w) = Done () (st1, w')" "da_shape st1"
    "(cells (table_of st1))[unat i := zeros (unat ?w)] = (cells (table_of st))[unat i := zeros (unat ?w)]"
    "st1 = ?l\<lparr>heap_region := heap_region st1\<rparr>"
  proof (cases hook)
    case None
    then show thesis using hl shape by (intro that [of ?l]) (auto simp: hooked_def hook_yields_def ret_def)
  next
    case (Some h)
    then show thesis
      using run_hook_spec [OF shape il hl [unfolded Some]] that by (fastforce simp: hooked_def)
  qed
  have f1: "allocated_slots st1 = allocated_slots st" "occupied_slots st1 = occupied_slots st"
    "element_byte_footprint st1 = ?w" "floor_threshold st1 = floor_threshold st"
    by (subst r(4), simp)+
  have "i < allocated_slots st1" "length (zeros (unat ?w)) = unat (element_byte_footprint st1)"
    using i f1 by simp_all
  from r(2) this obtain st2 where p: "poke i (zeros (unat ?w)) st1 = Done () st2" "da_shape st2"
    "table_of st2 = (table_of st1)\<lparr>cells := (cells (table_of st1))[unat i := zeros (unat ?w)]\<rparr>"
    "st2 = st1\<lparr>heap_region := heap_region st2\<rparr>"
    by (rule poke_shape)
  define st3 where "st3 = st2\<lparr>occupied_slots := occupied_slots st - 1\<rparr>"
  have f2: "allocated_slots st2 = allocated_slots st" "occupied_slots st2 = occupied_slots st"
    "element_byte_footprint st2 = ?w"
    using f1 by (subst p(4), simp)+
  have t3: "table_of st3 = (table_of st)\<lparr>cells := (cells (table_of st))[unat i := zeros (width (table_of st))],
      live := live (table_of st) - 1\<rparr>"
    using p(3) r(3) f1 some unat_minus_one [OF some]
    by (simp add: st3_def)
  have s3: "da_shape st3" and w3: "unat (element_byte_footprint st3) \<le> 8" and i3: "i < allocated_slots st3"
    using p(2) w8 i f2 by (simp_all add: st3_def)
  obtain rc st4 where c: "evaluate_compaction al i st3 = Done rc st4" "da_shape st4"
    "table_of st4 = (if can_shrink al (table_of st3) then t_compact (unat i) (table_of st3) else table_of st3)"
    by (rule compaction_spec [OF s3 w3 i3, of al]) blast
  have "excise_at_offset al i hook (Some st, w) = Done 0 (Some (st4\<lparr>synchronizer := Unlocked\<rparr>), w')"
    using free i r(1) p(1) c(1) f2
    by (simp add: excise_at_offset_def lift_store_with_def hooked_def [symmetric] cmd_defs outcome_simps st3_def)
  then show ?thesis using c t3 by (auto simp: da_ok_def Let_def t_excise_def)
qed

text \<open>
  \<^verbatim>\<open>extract_tail_from_store\<close>: an empty store is refused unchanged; otherwise the receiver gets the
  last live element, the count drops by one and the table is compacted. The slot keeps its bytes.
\<close>

lemma extract_spec:
  assumes ok: "da_ok st" "within st" and w8: "unat (element_byte_footprint st) \<le> 8"
  shows "if occupied_slots st = 0 then extract_tail_from_store al True (Some st) = Done (-1, None) (Some st)
    else \<exists>st'. extract_tail_from_store al True (Some st) =
          Done (0, t_fetch (live (table_of st) - 1) (table_of st)) (Some st') \<and> da_ok st' \<and>
        table_of st' = (let n = live (table_of st) - 1; t = (table_of st)\<lparr>live := n\<rparr>
          in if can_shrink al t then t_compact n t else t)"
proof (cases "occupied_slots st = 0")
  case True
  then show ?thesis using ok by (simp add: extract_tail_from_store_def cmd_defs store_prims da_ok_def)
next
  case False
  let ?l = "st\<lparr>synchronizer := Locked\<rparr>" and ?i = "occupied_slots st - 1"
  let ?d = "?l\<lparr>occupied_slots := ?i\<rparr>"
  have free: "synchronizer st = Unlocked" and shape: "da_shape ?d" using ok(1) by (simp_all add: da_ok_def)
  have ui: "unat ?i = unat (occupied_slots st) - 1" and pos: "0 < unat (occupied_slots st)"
    using unat_minus_one [OF False] False by (simp_all add: unat_gt_0)
  then have i: "?i < allocated_slots ?d" using ok(2) by (simp add: within_def word_less_nat_alt word_le_nat_alt)
  obtain rc st' where c: "evaluate_compaction al ?i ?d = Done rc st'" "da_shape st'"
    "table_of st' = (if can_shrink al (table_of ?d) then t_compact (unat ?i) (table_of ?d) else table_of ?d)"
    by (rule compaction_spec [OF shape _ i, of al]) (use w8 in auto)
  have "extract_tail_from_store al True (Some st) =
      Done (0, Some (cells (table_of st) ! unat ?i)) (Some (st'\<lparr>synchronizer := Unlocked\<rparr>))"
    using False free c(1) peek_shape [OF shape i]
    by (simp add: extract_tail_from_store_def cmd_defs store_prims)
  moreover have "t_fetch (live (table_of st) - 1) (table_of st) = Some (cells (table_of st) ! unat ?i)"
    using i ui by (simp add: t_fetch_def word_less_nat_alt)
  ultimately show ?thesis using False c(2,3) ui by (auto simp: da_ok_def Let_def)
qed

text \<open>
  C36. \<^verbatim>\<open>configure_memory_store\<close>, every branch: a zero footprint is refused untouched; otherwise the call
  returns 0 exactly when the block (if one is needed) fits a \<^verbatim>\<open>size_t\<close>, is granted and the mutex
  initialises, and then the invariant holds and the table is the requested number of zeroed slots,
  none of them live, with a lower bound of at least one slot.
\<close>

theorem configure_refines:
  fixes st :: dyn_array and starter footprint :: u64
  defines "t0 \<equiv> \<lparr>cells = replicate (unat starter) (zeros (unat footprint)), width = unat footprint,
      live = 0, lower = (if starter = 0 then 1 else unat starter)\<rparr>"
  shows "if footprint = 0 then configure_memory_store al mx starter footprint (Some st) = Done (-1) (Some st)
    else if mx \<and> (starter = 0 \<or> calloc al starter footprint \<noteq> None)
    then \<exists>st'. configure_memory_store al mx starter footprint (Some st) = Done 0 (Some st') \<and>
        da_ok st' \<and> within st' \<and> table_of st' = t0
    else \<exists>st'. configure_memory_store al mx starter footprint (Some st) = Done (-1) (Some st') \<and>
        heap_region st' = None"
proof -
  let ?n = "unat starter" and ?w = "unat footprint"
  have grow: "cells_of ?w ?n (zeros (?n * ?w)) = replicate ?n (zeros ?w)"
    using cells_of_grow [of "[]" 0 ?w ?n] by simp
  have "calloc al starter footprint \<noteq> None \<Longrightarrow>
      calloc al starter footprint = Some (zeros (?n * ?w)) \<and> ?n * ?w \<le> unat SIZE_MAX"
    by (auto simp: calloc_def uint_mult_fits split: if_splits)
  then show ?thesis
    using grow by (auto simp: configure_memory_store_def Let_def da_ok_def da_shape_def within_def
        table_of_def region_of_def t0_def word_gt_0)
qed

text \<open>Running the hook over a list of elements, with the state each call leaves for the next.\<close>

fun hook_fold :: "'h hook \<Rightarrow> byte list list \<Rightarrow> 'h \<Rightarrow> 'h option" where
  "hook_fold h [] w = Some w"
| "hook_fold h (c # cs) w =
     (case h c w of Done bs w' \<Rightarrow> if length bs = length c then hook_fold h cs w' else None | _ \<Rightarrow> None)"

lemma run_hooks_spec:
  assumes "da_shape st" "k + n = unat (allocated_slots st)"
    and "hook_fold h (drop k (cells (table_of st))) w = Some w'"
  shows "\<exists>st'. run_hooks h [k..<k + n] (st, w) = Done () (st', w') \<and>
    synchronizer st' = synchronizer st"
  using assms
proof (induction n arbitrary: k st w)
  case 0
  then show ?case by (simp add: ret_def)
next
  case (Suc n)
  let ?k = "word_of_nat k :: u64" and ?cs = "cells (table_of st)"
  have k: "k < unat (allocated_slots st)" using Suc.prems(2) by simp
  then have uk: "unat ?k = k" using unat_le_size_max [of "allocated_slots st"] by (simp add: unat_of_nat)
  have split: "drop k ?cs = ?cs ! k # drop (Suc k) ?cs" using k by (intro Cons_nth_drop_Suc [symmetric]) simp
  then obtain bs w1 where h: "h (?cs ! k) w = Done bs w1" "length bs = length (?cs ! k)"
    "hook_fold h (drop (Suc k) ?cs) w1 = Some w'"
    using Suc.prems(3) by (auto split: outcome.splits if_splits)
  have i: "?k < allocated_slots st" using k uk by (simp add: word_less_nat_alt)
  have "hook_yields (Some h) (?cs ! unat ?k) w w1" using h uk by (simp add: hook_yields_def)
  from run_hook_spec [OF Suc.prems(1) i this] obtain st1 bs' where r: "run_hook h ?k (st, w) = Done () (st1, w1)"
    "da_shape st1" "table_of st1 = (table_of st)\<lparr>cells := ?cs[unat ?k := bs']\<rparr>"
    "st1 = st\<lparr>heap_region := heap_region st1\<rparr>" by blast
  have f: "allocated_slots st1 = allocated_slots st" "synchronizer st1 = synchronizer st" by (subst r(4), simp)+
  have "drop (Suc k) (cells (table_of st1)) = drop (Suc k) ?cs" using r(3) uk by simp
  then obtain st2 where "run_hooks h [Suc k..<Suc k + n] (st1, w1) = Done () (st2, w')"
    "synchronizer st2 = synchronizer st1"
    using Suc.IH [of st1 "Suc k" w1] r(2) Suc.prems(2) f h(3) by (auto simp del: upt_Suc)
  moreover have "[k..<k + Suc n] = k # [Suc k..<Suc k + n]" by (simp add: upt_conv_Cons del: upt_Suc)
  ultimately show ?case using r(1) f by (simp add: cmd_defs del: upt_Suc)
qed

text \<open>The store after its demolition.\<close>

definition demolished :: dyn_array where
  "demolished = \<lparr>floor_threshold = 0, element_byte_footprint = 0, synchronizer = Dead,
      allocated_slots = 0, occupied_slots = 0, heap_region = None\<rparr>"

lemma demolish_run:
  assumes ok: "da_ok st" and hooks: "hook_fold h (cells (table_of st)) w = Some w'"
  shows "demolish_memory_store (Some h) (Some st, w) = Done () (Some demolished, w')"
proof -
  let ?l = "st\<lparr>synchronizer := Locked\<rparr>"
  have shape: "da_shape ?l" and free: "synchronizer st = Unlocked" using ok by (simp_all add: da_ok_def)
  obtain st1 where r: "run_hooks h [0..<unat (allocated_slots st)] (?l, w) = Done () (st1, w')"
    "synchronizer st1 = Locked"
    using run_hooks_spec [OF shape, of 0 "unat (allocated_slots st)" h w w'] hooks by auto
  show ?thesis
  proof (cases "heap_region st")
    case None
    then have "w' = w" using hooks shape by (simp add: da_shape_def table_of_def)
    then show ?thesis using None free
      by (simp add: demolish_memory_store_def cmd_defs outcome_simps lift_store_with_def demolished_def)
  next
    case (Some mem)
    then show ?thesis using r free
      by (simp add: demolish_memory_store_def cmd_defs outcome_simps lift_store_with_def demolished_def)
  qed
qed

text \<open>
  C35. \<^verbatim>\<open>demolish_memory_store\<close> with a cleanup hook that does not fail runs the hook once on every slot, live or
  not, in index order, and nothing without a hook; then it has freed the block, cleared every counter
  and the width, and destroyed the mutex. A NULL store is left alone. From then on the store may not be
  used: appending, implanting, fetching, extracting, excising and demolishing again all lock the
  destroyed mutex, which is undefined.
\<close>

theorem demolish_refines:
  assumes ok: "da_ok st" and hooks: "hook_fold h (cells (table_of st)) w = Some w'"
  shows "\<exists>gone. demolish_memory_store (Some h) (Some st, w) = Done () (Some gone, w') \<and>
    demolish_memory_store None (Some st, w) = Done () (Some gone, w) \<and>
    demolish_memory_store (Some h) (None, w) = Done () (None, w) \<and>
    heap_region gone = None \<and> allocated_slots gone = 0 \<and> occupied_slots gone = 0 \<and>
    element_byte_footprint gone = 0 \<and> floor_threshold gone = 0 \<and> synchronizer gone = Dead \<and>
    append_to_store al (Some bs) (Some gone) = Fault Dead_Mutex \<and>
    implant_at_offset al i (Some bs) (Some gone) = Fault Dead_Mutex \<and>
    fetch_from_offset i True (Some gone) = Fault Dead_Mutex \<and>
    extract_tail_from_store al True (Some gone) = Fault Dead_Mutex \<and>
    excise_at_offset al i (Some h) (Some gone, w) = Fault Dead_Mutex \<and>
    demolish_memory_store (Some h) (Some gone, w) = Fault Dead_Mutex"
proof (intro exI [of _ demolished] conjI)
  show "demolish_memory_store (Some h) (Some st, w) = Done () (Some demolished, w')" using assms by (rule demolish_run)
  show "demolish_memory_store None (Some st, w) = Done () (Some demolished, w)" using ok
    by (cases "heap_region st")
      (simp_all add: demolish_memory_store_def cmd_defs outcome_simps lift_store_with_def demolished_def da_ok_def)
qed (simp_all add: append_to_store_def implant_at_offset_def fetch_from_offset_def extract_tail_from_store_def
      excise_at_offset_def demolish_memory_store_def cmd_defs outcome_simps lift_store_with_def demolished_def)

end
