(* ===== verification/Registry.thy ===== *)
theory Registry
  imports Slots
begin

text \<open>
  The dynamic array as the server uses it: a registry of pointers, eight bytes each, where a zeroed
  slot is a NULL pointer. \<open>entry st i\<close> is the pointer registered under index \<open>i\<close>, NULL beyond the
  allocated slots; growing and shrinking do not change it. The interface the server relies on is
  the locale \<open>slot_map\<close>, interpreted here on the byte-level routines.
\<close>

section \<open>Pointers as elements\<close>

definition ptr_bytes :: "u64 \<Rightarrow> byte list" where
  "ptr_bytes p = bytes_le 8 (unat p)"

definition bytes_ptr :: "byte list \<Rightarrow> u64" where
  "bytes_ptr bs = word_of_nat (nat_le bs)"

lemma length_ptr_bytes [simp]: "length (ptr_bytes p) = 8"
  by (simp add: ptr_bytes_def)

lemma bytes_ptr_ptr_bytes [simp]: "bytes_ptr (ptr_bytes p) = p"
proof -
  have "unat p < 256 ^ 8" using unsigned_less [of p, where 'a = nat] by simp
  then show ?thesis by (simp add: ptr_bytes_def bytes_ptr_def)
qed

lemma bytes_ptr_zeros [simp]: "bytes_ptr (zeros n) = NULL"
  by (simp add: bytes_ptr_def)

lemma bytes_ptr_eq_NULL:
  assumes "length bs = 8"
  shows "bytes_ptr bs = NULL \<longleftrightarrow> bs = zeros 8"
proof
  assume "bytes_ptr bs = NULL"
  moreover have "nat_le bs < 2 ^ 64" using nat_le_less [of bs] assms by simp
  then have "unat (word_of_nat (nat_le bs) :: u64) = nat_le bs" by (simp add: unat_of_nat)
  ultimately have "nat_le bs = nat_le (zeros 8)" by (simp add: bytes_ptr_def)
  with assms show "bs = zeros 8" by (intro nat_le_inject) simp_all
qed simp

definition pointers :: "dyn_array \<Rightarrow> u64 list" where
  "pointers st = map bytes_ptr (cells (table_of st))"

definition entry :: "dyn_array \<Rightarrow> nat \<Rightarrow> u64" where
  "entry st i = (if i < length (pointers st) then pointers st ! i else NULL)"

definition non_null :: "u64 list \<Rightarrow> nat" where
  "non_null ps = length (filter (\<lambda>p. p \<noteq> NULL) ps)"

definition pointer_store :: "dyn_array \<Rightarrow> bool" where
  "pointer_store st \<longleftrightarrow> da_ok st \<and> element_byte_footprint st = 8"

definition reg_ok :: "dyn_array \<Rightarrow> bool" where
  "reg_ok st \<longleftrightarrow> pointer_store st \<and> unat (occupied_slots st) = non_null (pointers st)"

lemma length_pointers [simp]: "length (pointers st) = unat (allocated_slots st)"
  by (simp add: pointers_def)

lemma entry_simps:
  "i < unat (allocated_slots st) \<Longrightarrow> entry st i = bytes_ptr (cells (table_of st) ! i)"
  "unat (allocated_slots st) \<le> i \<Longrightarrow> entry st i = NULL"
  by (simp_all add: entry_def pointers_def)

lemma entry_in_range: "entry st i \<noteq> NULL \<Longrightarrow> i < unat (allocated_slots st)"
  by (auto simp: entry_def split: if_splits)

lemma entry_eq_pointers: "pointers st = pointers st' \<Longrightarrow> entry st = entry st'"
  by (rule ext) (simp add: entry_def del: length_pointers)

lemma non_null_le: "non_null ps \<le> length ps"
  by (simp add: non_null_def)

lemma non_null_append [simp]: "non_null (xs @ ys) = non_null xs + non_null ys"
  by (simp add: non_null_def)

lemma non_null_NULLs [simp]: "non_null (replicate n NULL) = 0"
  by (simp add: non_null_def)

lemma non_null_update:
  "i < length ps \<Longrightarrow> ps ! i = NULL \<Longrightarrow> p \<noteq> NULL \<Longrightarrow> non_null (ps[i := p]) = Suc (non_null ps)"
  "i < length ps \<Longrightarrow> ps ! i \<noteq> NULL \<Longrightarrow> Suc (non_null (ps[i := NULL])) = non_null ps"
  by (induction ps arbitrary: i) (auto simp: non_null_def split: nat.splits)

lemma reg_ok_within: "reg_ok st \<Longrightarrow> within st"
  using non_null_le [of "pointers st"] by (simp add: reg_ok_def within_def word_le_nat_alt)

lemma reg_ok_da: "reg_ok st \<Longrightarrow> da_ok st \<and> unat (element_byte_footprint st) = 8"
  by (simp add: reg_ok_def pointer_store_def)

lemma non_null_pos: "entry st i \<noteq> NULL \<Longrightarrow> 0 < non_null (pointers st)"
proof -
  assume e: "entry st i \<noteq> NULL"
  then have "i < unat (allocated_slots st)" by (rule entry_in_range)
  then have "Suc (non_null ((pointers st)[i := NULL])) = non_null (pointers st)"
    using e by (intro non_null_update) (simp_all add: entry_def)
  then show ?thesis by linarith
qed

section \<open>The registry operations\<close>

text \<open>
  The server reads a slot into a pointer variable it has just set to NULL, so a refused read leaves
  NULL.
\<close>

definition fetch_pointer :: "nat \<Rightarrow> (dyn_array option, u64) cmd" where
  "fetch_pointer i =
     andThen (fetch_from_offset (word_of_nat i) True) (\<lambda>(rc, out).
       ret (case out of Some bs \<Rightarrow> bytes_ptr bs | None \<Rightarrow> NULL))"

lemma fetch_pointer_entry:
  assumes "pointer_store st" "i \<le> unat SIZE_MAX"
  shows "fetch_pointer i (Some st) = Done (entry st i) (Some st)"
proof -
  have "unat (word_of_nat i :: u64) = i" using assms(2) by (simp add: unat_of_nat)
  then show ?thesis using assms fetch_spec [of st "word_of_nat i"]
    by (auto simp: pointer_store_def fetch_pointer_def cmd_defs t_fetch_def entry_def pointers_def)
qed

text \<open>Growing appends NULL entries, which changes no entry.\<close>

lemma pointers_grow:
  "pointer_store st \<Longrightarrow> table_of st' = t_grow (table_of st) \<Longrightarrow>
    \<exists>k. pointers st' = pointers st @ replicate k NULL"
  by (auto simp: pointers_def t_grow_def)

lemma implant_pointer:
  assumes ok: "reg_ok st" and free: "entry st (unat i) = NULL" and p: "p \<noteq> NULL"
    and run: "implant_at_offset al i (Some (ptr_bytes p)) (Some st) = Done 0 (Some st')"
  shows "reg_ok st' \<and> entry st' = (entry st)(unat i := p)"
proof -
  let ?t = "table_of st"
  have d: "da_ok st" "within st" "unat (element_byte_footprint st) = 8"
    using ok reg_ok_within [OF ok] reg_ok_da [OF ok] by simp_all
  have r: "da_ok st'" "within st'" "table_of st' = t_implant (unat i) (ptr_bytes p) ?t"
    using implant_spec [OF d(1,2), of "ptr_bytes p" i al] d(3) run by (auto split: if_splits)
  define ps where "ps = map bytes_ptr (cells (t_grow ?t))"
  have grown: "\<exists>k. ps = pointers st @ replicate k NULL"
    by (auto simp: ps_def pointers_def t_grow_def)
  have ps': "pointers st' = ps[unat i := p]" using r(3) by (simp add: pointers_def ps_def t_implant_def map_update)
  have ps_entry: "entry st j = (if j < length ps then ps ! j else NULL)" for j
    using grown by (auto simp: entry_def nth_append)
  have w: "element_byte_footprint st' = 8"
    using arg_cong [OF r(3), of width] d(3) by (simp add: t_implant_def word_unat_eq_iff)
  have live: "unat (occupied_slots st') = Suc (non_null (pointers st))"
    using arg_cong [OF r(3), of live] ok by (simp add: t_implant_def reg_ok_def)
  have cnt: "non_null ps = non_null (pointers st)" using grown by auto
  have len: "length ps = unat (allocated_slots st')"
    using ps' length_pointers [of st'] by simp
  have "unat i < length ps"
  proof (rule ccontr)
    assume "\<not> unat i < length ps"
    then have "pointers st' = ps" using ps' by (simp add: list_update_beyond)
    then have "non_null (pointers st') < unat (occupied_slots st')" using live cnt by simp
    moreover have "i \<le> allocated_slots st" using run by (auto simp: implant_run cmd_defs store_prims not_le split: mutex.splits if_splits)
    moreover have "\<not> (i = allocated_slots st \<and> occupied_slots st < allocated_slots st)"
      using implant_spec [OF d(1,2), of "ptr_bytes p" i al] d(3) run by (auto split: if_splits)
    moreover have "live ?t < length ps" "length (cells ?t) \<le> length ps"
      using length_grow [of st] d by (simp_all add: da_ok_def ps_def)
    ultimately show False using \<open>\<not> unat i < length ps\<close> d(2)
      by (auto simp: word_le_nat_alt word_less_nat_alt word_unat_eq_iff within_def)
  qed
  then have "entry st' = (entry st)(unat i := p)"
    using ps' len by (auto simp: fun_eq_iff ps_entry entry_def [of st'] nth_list_update)
  moreover have "non_null (pointers st') = Suc (non_null ps)"
    using ps' \<open>unat i < length ps\<close> free p by (simp add: ps_entry non_null_update)
  ultimately show ?thesis using r w live cnt by (simp add: reg_ok_def pointer_store_def)
qed

text \<open>
  Putting a pointer over another one, as the routine allows: the entry changes, and the count rises
  although there are no more pointers than before.
\<close>

lemma implant_over:
  assumes ok: "reg_ok st" and i: "unat i < unat (allocated_slots st)" and grow: "can_grow al (table_of st)"
  shows "\<exists>st'. implant_at_offset al i (Some (ptr_bytes p)) (Some st) = Done 0 (Some st') \<and> pointer_store st' \<and>
    entry st' = (entry st)(unat i := p) \<and> occupied_slots st' \<noteq> 0 \<and>
    unat (occupied_slots st') = Suc (unat (occupied_slots st))"
proof -
  let ?t = "table_of st"
  have d: "da_ok st" "within st" "unat (element_byte_footprint st) = 8"
    using ok reg_ok_within [OF ok] reg_ok_da [OF ok] by simp_all
  have "\<not> allocated_slots st < i" "i \<noteq> allocated_slots st" using i by (auto simp: word_less_nat_alt)
  then obtain st' where r: "implant_at_offset al i (Some (ptr_bytes p)) (Some st) = Done 0 (Some st')"
    "da_ok st'" "table_of st' = t_implant (unat i) (ptr_bytes p) ?t"
    using implant_spec [OF d(1,2), of "ptr_bytes p" i al] d(3) grow by auto
  define ps where "ps = map bytes_ptr (cells (t_grow ?t))"
  have "\<exists>k. ps = pointers st @ replicate k NULL" by (auto simp: ps_def pointers_def t_grow_def)
  then have ps: "length (pointers st) \<le> length ps" "entry st j = (if j < length ps then ps ! j else NULL)" for j
    by (auto simp: entry_def nth_append)
  have "pointers st' = ps[unat i := p]" using r(3) by (simp add: pointers_def ps_def t_implant_def map_update)
  then have "entry st' = (entry st)(unat i := p)"
    using i ps(1) by (auto simp: fun_eq_iff ps(2) entry_def [of st'] nth_list_update simp del: length_pointers) (simp add: ps(2))
  moreover have "unat (occupied_slots st') = Suc (unat (occupied_slots st))" "unat (element_byte_footprint st') = 8"
    using arg_cong [OF r(3), of live] arg_cong [OF r(3), of width] d(3) by (simp_all add: t_implant_def)
  ultimately show ?thesis using r(1,2) by (auto simp: pointer_store_def word_unat_eq_iff)
qed

text \<open>Removing a registered pointer: compaction only drops NULL slots, so no other entry changes.\<close>

lemma pointers_compact:
  assumes "\<And>c. c \<in> set (cells t) \<Longrightarrow> length c = 8" "width t = 8"
  obtains m k where "map bytes_ptr (cells (t_compact i t)) = take m (map bytes_ptr (cells t))"
    "drop m (map bytes_ptr (cells t)) = replicate k NULL"
proof (cases "Suc i = length (cells t) div 2 \<and>
    list_all (\<lambda>c. c = zeros (width t)) (drop (max (length (cells t) div 2) (lower t)) (cells t))")
  case True
  let ?m = "max (length (cells t) div 2) (lower t)"
  have "\<forall>c \<in> set (drop ?m (cells t)). bytes_ptr c = NULL" using True by (auto simp: list_all_iff)
  then have "map bytes_ptr (drop ?m (cells t)) = replicate (length (cells t) - ?m) NULL"
    by (intro replicate_eqI) auto
  then show thesis using True that [of ?m "length (cells t) - ?m"]
    by (simp add: t_compact_def Let_def take_map drop_map)
next
  case False
  then show thesis using that [of "length (cells t)" 0] by (auto simp: t_compact_def Let_def)
qed

lemma excise_entry:
  assumes st: "pointer_store st" and occ: "occupied_slots st \<noteq> 0" and some: "entry st (unat i) \<noteq> NULL"
    and hook: "hook_yields hook (cells (table_of st) ! unat i) w w'"
  shows "\<exists>st'. excise_at_offset al i hook (Some st, w) = Done 0 (Some st', w') \<and> pointer_store st' \<and>
    entry st' = (entry st)(unat i := NULL) \<and> Suc (non_null (pointers st')) = non_null (pointers st) \<and>
    unat (occupied_slots st') = unat (occupied_slots st) - 1"
proof -
  let ?t = "table_of st"
  have d: "da_ok st" and w8: "unat (element_byte_footprint st) = 8"
    using st by (simp_all add: pointer_store_def)
  have i: "unat i < unat (allocated_slots st)" using some by (rule entry_in_range)
  define t where "t = ?t\<lparr>cells := (cells ?t)[unat i := zeros (width ?t)], live := live ?t - 1\<rparr>"
  have "i < allocated_slots st" using i by (simp add: word_less_nat_alt)
  from excise_spec [OF d _ this occ hook, of al] w8 obtain st' where
    r: "excise_at_offset al i hook (Some st, w) = Done 0 (Some st', w')" "da_ok st'"
      "table_of st' = (if can_shrink al t then t_compact (unat i) t else t)"
    by (auto simp: t_def Let_def t_excise_def)
  have "length c = 8" if "c \<in> set (cells t)" for c
    using that cell_width [of st] d w8 i
    by (auto simp: t_def in_set_conv_nth nth_list_update da_ok_def split: if_splits)
  moreover have "width t = 8" using w8 by (simp add: t_def)
  ultimately obtain m k where
    "map bytes_ptr (cells (t_compact (unat i) t)) = take m (map bytes_ptr (cells t))"
    "drop m (map bytes_ptr (cells t)) = replicate k NULL"
    by (rule pointers_compact)
  then have "\<exists>m' k'. pointers st' = take m' (map bytes_ptr (cells t)) \<and>
      drop m' (map bytes_ptr (cells t)) = replicate k' NULL"
    using r(3) by (cases "can_shrink al t") (auto simp: pointers_def intro: exI [of _ "length (cells t)"])
  then obtain m' k' where m: "pointers st' = take m' (map bytes_ptr (cells t))"
    "drop m' (map bytes_ptr (cells t)) = replicate k' NULL" by blast
  have t: "map bytes_ptr (cells t) = (pointers st)[unat i := NULL]"
    by (simp add: t_def pointers_def map_update)
  then have split: "(pointers st)[unat i := NULL] = pointers st' @ replicate k' NULL"
    using m by (metis append_take_drop_id)
  have "entry st' j = ((entry st)(unat i := NULL)) j" for j
  proof -
    have "((entry st)(unat i := NULL)) j =
        (if j < length ((pointers st)[unat i := NULL]) then (pointers st)[unat i := NULL] ! j else NULL)"
      by (auto simp: entry_def nth_list_update)
    then show ?thesis unfolding split by (auto simp: entry_def nth_append simp del: length_pointers)
  qed
  moreover have "Suc (non_null (pointers st')) = non_null (pointers st)"
  proof -
    have "Suc (non_null ((pointers st)[unat i := NULL])) = non_null (pointers st)"
      using i some by (intro non_null_update) (simp_all add: entry_def)
    then show ?thesis by (simp add: split)
  qed
  moreover have "unat (occupied_slots st') = unat (occupied_slots st) - 1"
      "unat (element_byte_footprint st') = 8"
    using arg_cong [OF r(3), of live] arg_cong [OF r(3), of width] w8 by (auto simp: t_def split: if_splits)
  ultimately show ?thesis using r st w8
    by (auto simp: pointer_store_def word_unat_eq_iff)
qed

lemma excise_pointer:
  assumes ok: "reg_ok st" and some: "entry st (unat i) \<noteq> NULL"
    and hook: "hook_yields hook (cells (table_of st) ! unat i) w w'"
  shows "\<exists>st'. excise_at_offset al i hook (Some st, w) = Done 0 (Some st', w') \<and> reg_ok st' \<and>
    entry st' = (entry st)(unat i := NULL)"
proof -
  have "pointer_store st" "occupied_slots st \<noteq> 0" using non_null_pos [OF some] ok by (auto simp: reg_ok_def)
  from excise_entry [OF this some hook, of al] show ?thesis using ok by (auto simp: reg_ok_def)
qed


section \<open>Appending a pointer\<close>

lemma append_pointer:
  assumes st: "pointer_store st" "within st"
    and run: "append_to_store al (Some (ptr_bytes p)) (Some st) = Done 0 (Some st')"
  shows "pointer_store st' \<and> within st' \<and> entry st' = (entry st)(unat (occupied_slots st) := p) \<and>
    unat (occupied_slots st') = Suc (unat (occupied_slots st))"
proof -
  let ?t = "table_of st" and ?n = "unat (occupied_slots st)"
  have d: "da_ok st" "element_byte_footprint st = 8" using st(1) by (simp_all add: pointer_store_def)
  have "da_ok st' \<and> within st' \<and> table_of st' = t_append (ptr_bytes p) ?t"
    using append_spec [OF d(1) st(2), of "ptr_bytes p" al] d(2) run by (auto split: if_splits)
  then have r: "da_ok st'" "within st'" "table_of st' = t_append (ptr_bytes p) ?t" by simp_all
  define ps where "ps = map bytes_ptr (cells (t_grow ?t))"
  have "\<exists>k. ps = pointers st @ replicate k NULL" by (auto simp: ps_def pointers_def t_grow_def)
  then have ps_entry: "entry st j = (if j < length ps then ps ! j else NULL)" for j
    by (auto simp: entry_def nth_append)
  have ps': "pointers st' = ps[?n := p]" using r(3) by (simp add: pointers_def ps_def t_append_def map_update)
  have "?n < length ps" using length_grow(1) [of st] d st(2) by (simp add: da_ok_def ps_def)
  then have "entry st' = (entry st)(?n := p)"
    by (auto simp: fun_eq_iff ps_entry entry_def [of st'] ps' nth_list_update simp del: length_pointers)
  moreover have "element_byte_footprint st' = 8" "unat (occupied_slots st') = Suc ?n"
    using arg_cong [OF r(3), of width] arg_cong [OF r(3), of live] d(2)
    by (simp_all add: t_append_def word_unat_eq_iff)
  ultimately show ?thesis using r by (simp add: pointer_store_def)
qed

text \<open>
  C26. Appending to a registry with a hole: if the first \<open>n\<close> slots all hold a pointer, then removing
  the pointer at an index below \<open>n - 1\<close> and appending a new one puts the new one over the pointer at
  index \<open>n - 1\<close>, which the registry loses although nobody removed it.
\<close>

theorem append_after_excise_loses_pointer:
  assumes ok: "reg_ok st" and full: "unat (occupied_slots st) = n" "\<forall>j<n. entry st j \<noteq> NULL"
    and i: "unat i < n - 1"
    and excised: "excise_at_offset al i None (Some st, ()) = Done 0 (Some st1, ())"
    and appended: "append_to_store al (Some (ptr_bytes p)) (Some st1) = Done 0 (Some st2)"
    and fresh: "entry st (n - 1) \<noteq> p" "inj_on (entry st) {..<n}"
  shows "entry st2 = (entry st)(unat i := NULL, n - 1 := p) \<and> (\<forall>j. entry st2 j \<noteq> entry st (n - 1))"
proof -
  have some: "entry st (unat i) \<noteq> NULL" using full i by simp
  have "reg_ok st1 \<and> entry st1 = (entry st)(unat i := NULL)"
    using excise_pointer [OF ok some, of None "()" "()" al] excised by (auto simp: hook_yields_def)
  then have s1: "reg_ok st1" "entry st1 = (entry st)(unat i := NULL)" by simp_all
  have occ1: "unat (occupied_slots st1) = n - 1"
  proof -
    have "i < allocated_slots st" "occupied_slots st \<noteq> 0"
      using entry_in_range [OF some] i full(1) by (auto simp: word_less_nat_alt)
    then show ?thesis
      using excise_spec [of st i None "()" "()" al] ok reg_ok_da [OF ok] excised
      by (auto simp: hook_yields_def t_excise_def Let_def full(1) dest!: arg_cong [of _ _ live] split: if_splits)
  qed
  have e2: "entry st2 = (entry st)(unat i := NULL, n - 1 := p)"
    using append_pointer [OF _ reg_ok_within [OF s1(1)] appended] s1 occ1 by (simp add: reg_ok_def)
  have "entry st2 j \<noteq> entry st (n - 1)" for j
  proof (cases "j < n")
    case True
    then show ?thesis using e2 fresh full(2) i by (auto simp: inj_on_def)
  next
    case False
    have "entry st j = NULL"
    proof (rule ccontr)
      assume bad: "entry st j \<noteq> NULL"
      have "card (insert j {..<n}) \<le> card {k. k < length (pointers st) \<and> pointers st ! k \<noteq> NULL}"
        using bad full(2) entry_in_range [of st]
        by (intro card_mono) (auto simp: entry_def simp del: length_pointers split: if_splits)
      then have "Suc n \<le> non_null (pointers st)"
        using False by (simp add: non_null_def length_filter_conv_card del: length_pointers)
      then show False using ok full(1) by (simp add: reg_ok_def)
    qed
    then show ?thesis using e2 False i full(2) by auto
  qed
  then show ?thesis using e2 by blast
qed

text \<open>A registry of six slots holding the given pointers.\<close>

definition roster :: "u64 list \<Rightarrow> dyn_array" where
  "roster ps = \<lparr>floor_threshold = 6, element_byte_footprint = 8, synchronizer = Unlocked,
     allocated_slots = word_of_nat (length ps), occupied_slots = word_of_nat (non_null ps),
     heap_region = Some (concat (map ptr_bytes ps))\<rparr>"

lemma roster_ok: "reg_ok (roster [11, 12, 13, 0, 0, 0])"
proof -
  have "unat (occupied_slots (roster [11, 12, 13, 0, 0, 0])) = non_null (pointers (roster [11, 12, 13, 0, 0, 0]))"
    by code_simp
  then show ?thesis
    by (simp add: reg_ok_def pointer_store_def da_ok_def da_shape_def) (simp add: roster_def)
qed

theorem append_after_excise_loses_pointer_witness:
  "\<exists>st1 st2. excise_at_offset generous 0 None (Some (roster [11, 12, 13, 0, 0, 0]), ()) = Done 0 (Some st1, ()) \<and>
     append_to_store generous (Some (ptr_bytes 14)) (Some st1) = Done 0 (Some st2) \<and>
     entry st2 = (entry (roster [11, 12, 13, 0, 0, 0]))(0 := NULL, 2 := 14) \<and> (\<forall>j. entry st2 j \<noteq> 13)"
proof -
  let ?st = "roster [11, 12, 13, 0, 0, 0]" and ?st1 = "roster [0, 12, 13, 0, 0, 0]"
  let ?st2 = "roster [0, 12, 14, 0, 0, 0]\<lparr>occupied_slots := 3\<rparr>"
  have x: "excise_at_offset generous 0 None (Some ?st, ()) = Done 0 (Some ?st1, ())" by code_simp
  have a: "append_to_store generous (Some (ptr_bytes 14)) (Some ?st1) = Done 0 (Some ?st2)" by code_simp
  have e: "entry ?st 0 = 11" "entry ?st 1 = 12" "entry ?st 2 = 13" by code_simp+
  have occ: "unat (occupied_slots ?st) = 3" by code_simp
  have below: "{..<3} = {0, 1, 2 :: nat}" by auto
  have full: "\<forall>j<3. entry ?st j \<noteq> NULL"
  proof (intro allI impI)
    fix j :: nat assume "j < 3"
    then consider "j = 0" | "j = 1" | "j = 2" by arith
    then show "entry ?st j \<noteq> NULL" using e by cases simp_all
  qed
  have inj: "inj_on (entry ?st) {..<3}" unfolding below using e by (simp flip: One_nat_def)
  have "entry ?st (3 - 1) \<noteq> 14" "unat (0 :: u64) < 3 - 1" using e by simp_all
  note lost = append_after_excise_loses_pointer [OF roster_ok occ full this(2) x a this(1) inj]
  have "entry ?st2 = (entry ?st)(0 := NULL, 2 := 14)" using conjunct1 [OF lost] by simp
  moreover have "\<forall>j. entry ?st2 j \<noteq> 13" using conjunct2 [OF lost] e(3) by simp
  ultimately show ?thesis using x a by blast
qed

section \<open>The interface of a registry\<close>

text \<open>
  What the server's components rely on: an index is vacant or holds a pointer; a successful put into
  a vacant index and the removal of a held one change that index and nothing else.
\<close>

locale slot_map =
  fixes lookup :: "'st \<Rightarrow> 'i \<Rightarrow> 'p"
    and vacant :: 'p
    and ok :: "'st \<Rightarrow> bool"
    and put :: "'i \<Rightarrow> 'p \<Rightarrow> 'st \<Rightarrow> 'st option"
    and remove :: "'i \<Rightarrow> 'st \<Rightarrow> 'st option"
  assumes put_law: "ok st \<Longrightarrow> lookup st i = vacant \<Longrightarrow> p \<noteq> vacant \<Longrightarrow> put i p st = Some st' \<Longrightarrow>
      ok st' \<and> lookup st' = (lookup st)(i := p)"
    and remove_law: "ok st \<Longrightarrow> lookup st i \<noteq> vacant \<Longrightarrow>
      \<exists>st'. remove i st = Some st' \<and> ok st' \<and> lookup st' = (lookup st)(i := vacant)"
begin

lemma put_then_remove:
  assumes "ok st" "lookup st i = vacant" "p \<noteq> vacant" "put i p st = Some st'"
  shows "\<exists>st''. remove i st' = Some st'' \<and> ok st'' \<and> lookup st'' = lookup st"
proof -
  have st': "ok st'" "lookup st' = (lookup st)(i := p)" using put_law [OF assms] by simp_all
  moreover from this assms(3) have "lookup st' i \<noteq> vacant" by simp
  ultimately obtain st'' where "remove i st' = Some st''" "ok st''" "lookup st'' = (lookup st')(i := vacant)"
    using remove_law by blast
  with st' assms(2) show ?thesis by (auto simp: fun_eq_iff)
qed

text \<open>Putting a pointer that is registered nowhere keeps the registry free of duplicates.\<close>

lemma put_keeps_distinct:
  assumes "ok st" "lookup st i = vacant" "p \<noteq> vacant" "put i p st = Some st'"
    and "inj_on (lookup st) {j. lookup st j \<noteq> vacant}" "\<forall>j. lookup st j \<noteq> p"
  shows "inj_on (lookup st') {j. lookup st' j \<noteq> vacant}"
proof -
  have "lookup st' = (lookup st)(i := p)" using put_law [OF assms(1-4)] by simp
  then show ?thesis using assms(5,6) by (auto simp: inj_on_def split: if_splits)
qed

lemma remove_keeps_distinct:
  assumes "ok st" "lookup st i \<noteq> vacant" "remove i st = Some st'"
    and "inj_on (lookup st) {j. lookup st j \<noteq> vacant}"
  shows "inj_on (lookup st') {j. lookup st' j \<noteq> vacant} \<and> (\<forall>j. lookup st' j \<noteq> lookup st i)"
proof -
  have "lookup st' = (lookup st)(i := vacant)" using remove_law [OF assms(1,2)] assms(3) by auto
  then show ?thesis using assms(2,4) by (auto simp: inj_on_def split: if_splits)
qed

text \<open>A run of removals empties exactly the listed indices.\<close>

fun remove_all :: "'i list \<Rightarrow> 'st \<Rightarrow> 'st option" where
  "remove_all [] st = Some st"
| "remove_all (i # is) st = Option.bind (remove i st) (remove_all is)"

lemma remove_all_spec:
  assumes "ok st" "distinct is" "\<forall>i\<in>set is. lookup st i \<noteq> vacant"
  shows "\<exists>st'. remove_all is st = Some st' \<and> ok st' \<and>
    lookup st' = (\<lambda>j. if j \<in> set is then vacant else lookup st j)"
  using assms
proof (induction "is" arbitrary: st)
  case (Cons i "is")
  then obtain st1 where s1: "remove i st = Some st1" "ok st1" "lookup st1 = (lookup st)(i := vacant)"
    using remove_law [of st i] by auto
  with Cons.prems have "\<forall>j\<in>set is. lookup st1 j \<noteq> vacant" by auto
  with Cons.IH [OF s1(2)] Cons.prems(2) obtain st' where
    "remove_all is st1 = Some st'" "ok st'" "lookup st' = (\<lambda>j. if j \<in> set is then vacant else lookup st1 j)"
    by auto
  with s1 show ?case by (auto simp: fun_eq_iff)
qed simp

end

definition registry_put :: "allocator \<Rightarrow> u64 \<Rightarrow> u64 \<Rightarrow> dyn_array \<Rightarrow> dyn_array option" where
  "registry_put al i p st =
     (case implant_at_offset al i (Some (ptr_bytes p)) (Some st) of
        Done rc ref \<Rightarrow> if rc = 0 then ref else None
      | _ \<Rightarrow> None)"

definition registry_remove :: "allocator \<Rightarrow> u64 \<Rightarrow> dyn_array \<Rightarrow> dyn_array option" where
  "registry_remove al i st =
     (case excise_at_offset al i None (Some st, ()) of
        Done rc (ref, _) \<Rightarrow> if rc = 0 then ref else None
      | _ \<Rightarrow> None)"

abbreviation lookup_pointer :: "dyn_array \<Rightarrow> u64 \<Rightarrow> u64" where
  "lookup_pointer st i \<equiv> entry st (unat i)"

lemma lookup_pointer_update:
  "entry st' = (entry st)(unat i := p) \<Longrightarrow> lookup_pointer st' = (lookup_pointer st)(i := p)"
  by (auto simp: fun_eq_iff word_unat_eq_iff)

interpretation registry: slot_map lookup_pointer NULL reg_ok "registry_put al" "registry_remove al"
  for al :: allocator
proof
  fix st st' and i p :: u64
  assume "reg_ok st" "lookup_pointer st i = NULL" "p \<noteq> NULL" "registry_put al i p st = Some st'"
  then have "reg_ok st' \<and> entry st' = (entry st)(unat i := p)"
    by (intro implant_pointer) (auto simp: registry_put_def split: outcome.splits if_splits)
  then show "reg_ok st' \<and> lookup_pointer st' = (lookup_pointer st)(i := p)"
    using lookup_pointer_update [of st' st i p] by blast
next
  fix st and i :: u64
  assume "reg_ok st" "lookup_pointer st i \<noteq> NULL"
  from excise_pointer [OF this, of None "()" "()" al] obtain st' where
    "excise_at_offset al i None (Some st, ()) = Done 0 (Some st', ())" "reg_ok st'"
    "entry st' = (entry st)(unat i := NULL)" by (auto simp: hook_yields_def)
  then show "\<exists>st'. registry_remove al i st = Some st' \<and> reg_ok st' \<and>
      lookup_pointer st' = (lookup_pointer st)(i := NULL)"
    using lookup_pointer_update [of st' st i NULL] by (auto simp: registry_remove_def)
qed

end
