(* ===== verification/IdPool.thy ===== *)
theory IdPool
  imports Prelude
begin

text \<open>
  The session identifiers of \<^verbatim>\<open>Server/server.c\<close>: a counter of identifiers handed out so far and a pool of
  at most twenty returned ones, used as a stack. The C variables are \<^verbatim>\<open>int\<close>; the increment of the
  counter at its largest value is undefined behaviour, and so is an index outside the pool's array.
  The lock around both routines is held for the whole of each, so a routine is one step.
\<close>

section \<open>State and routines\<close>

definition POOL_SIZE_FOR_IDS :: int where
  "POOL_SIZE_FOR_IDS = 20"

definition INT_MAX :: int where
  "INT_MAX = 2147483647"

record id_pool =
  current_highest_id :: int
  recycled_id_pool :: "int list"
  recycled_id_count :: int

definition initial_ids :: id_pool where
  "initial_ids = \<lparr>current_highest_id = 0, recycled_id_pool = replicate 20 0, recycled_id_count = 0\<rparr>"

definition acquireNewSessionIdentifier :: "(id_pool, int) cmd" where
  "acquireNewSessionIdentifier s =
     (if recycled_id_count s \<le> 0 then
        (if current_highest_id s = INT_MAX then Fault Signed_Overflow
         else Done (current_highest_id s) (s\<lparr>current_highest_id := current_highest_id s + 1\<rparr>))
      else
        let k = recycled_id_count s - 1 in
        if nat k < length (recycled_id_pool s)
        then Done (recycled_id_pool s ! nat k) (s\<lparr>recycled_id_count := k\<rparr>)
        else Fault Out_Of_Bounds)"

definition relinquishSessionIdentifier :: "int \<Rightarrow> (id_pool, unit) cmd" where
  "relinquishSessionIdentifier identifierValue s =
     (if recycled_id_count s < POOL_SIZE_FOR_IDS then
        let k = recycled_id_count s in
        if 0 \<le> k \<and> nat k < length (recycled_id_pool s)
        then Done () (s\<lparr>recycled_id_pool := (recycled_id_pool s)[nat k := identifierValue],
                        recycled_id_count := k + 1\<rparr>)
        else Fault Out_Of_Bounds
      else Done () s)"

section \<open>The invariant\<close>

text \<open>The identifiers that wait in the pool, bottom of the stack first.\<close>

definition pooled :: "id_pool \<Rightarrow> int list" where
  "pooled s = take (nat (recycled_id_count s)) (recycled_id_pool s)"

text \<open>
  Against the set of identifiers in use: the pool is an array of twenty with a count in range, what
  waits in it is duplicate free, not in use, and every identifier in use or waiting was handed out.
\<close>

definition ids_ok :: "id_pool \<Rightarrow> int set \<Rightarrow> bool" where
  "ids_ok s used \<longleftrightarrow>
     length (recycled_id_pool s) = 20 \<and> 0 \<le> recycled_id_count s \<and> recycled_id_count s \<le> 20 \<and>
     0 \<le> current_highest_id s \<and> current_highest_id s \<le> INT_MAX \<and>
     distinct (pooled s) \<and> set (pooled s) \<inter> used = {} \<and>
     set (pooled s) \<union> used \<subseteq> {0..<current_highest_id s}"

lemma ids_ok_initial: "ids_ok initial_ids {}"
  by (simp add: ids_ok_def initial_ids_def pooled_def INT_MAX_def)

lemma length_pooled: "ids_ok s used \<Longrightarrow> length (pooled s) = nat (recycled_id_count s)"
  by (auto simp: pooled_def ids_ok_def min_def)

lemma pooled_le: "ids_ok s used \<Longrightarrow> length (pooled s) \<le> 20"
  by (auto simp: pooled_def ids_ok_def)

text \<open>The two branches of the routines, over the stack.\<close>

lemma acquire_pooled:
  assumes "ids_ok s used" "pooled s = ps @ [x]"
  shows "\<exists>s'. acquireNewSessionIdentifier s = Done x s' \<and> pooled s' = ps \<and>
    current_highest_id s' = current_highest_id s \<and> recycled_id_pool s' = recycled_id_pool s \<and>
    recycled_id_count s' = recycled_id_count s - 1"
proof -
  have k: "nat (recycled_id_count s) = Suc (length ps)" using length_pooled [OF assms(1)] assms(2) by simp
  then have km: "nat (recycled_id_count s - 1) = length ps" by simp
  have len: "length (recycled_id_pool s) = 20" "recycled_id_count s \<le> 20" using assms(1) by (simp_all add: ids_ok_def)
  have "take (Suc (length ps)) (recycled_id_pool s) = ps @ [x]" using assms(2) k by (simp add: pooled_def)
  moreover have room: "length ps < 20" using k len(2) by linarith
  ultimately have "take (length ps) (recycled_id_pool s) = ps" "recycled_id_pool s ! length ps = x"
    using len(1) by (simp_all add: take_Suc_conv_app_nth)
  then show ?thesis
    using k km len(1) room by (auto simp: acquireNewSessionIdentifier_def pooled_def Let_def)
qed

lemma relinquish_room:
  assumes "ids_ok s used" "length (pooled s) < 20"
  shows "\<exists>s'. relinquishSessionIdentifier x s = Done () s' \<and> pooled s' = pooled s @ [x] \<and>
    current_highest_id s' = current_highest_id s \<and> length (recycled_id_pool s') = 20 \<and>
    recycled_id_count s' = recycled_id_count s + 1"
proof -
  have k: "nat (recycled_id_count s) < 20" "0 \<le> recycled_id_count s" "length (recycled_id_pool s) = 20"
    using assms length_pooled [OF assms(1)] by (auto simp: ids_ok_def)
  then have "nat (recycled_id_count s + 1) = Suc (nat (recycled_id_count s))" by simp
  then show ?thesis using k
    by (auto simp: relinquishSessionIdentifier_def POOL_SIZE_FOR_IDS_def Let_def pooled_def take_Suc_conv_app_nth)
qed

lemma relinquish_full:
  "ids_ok s used \<Longrightarrow> length (pooled s) = 20 \<Longrightarrow> relinquishSessionIdentifier x s = Done () s"
  using length_pooled [of s used] by (auto simp: relinquishSessionIdentifier_def POOL_SIZE_FOR_IDS_def ids_ok_def)

text \<open>
  An identifier that is handed out is in use by nobody, and the bookkeeping stays right; the
  only way the call can fail is the counter at the largest \<^verbatim>\<open>int\<close> with an empty pool.
\<close>

lemma acquire_fresh:
  assumes "ids_ok s used"
  shows "if pooled s = [] \<and> current_highest_id s = INT_MAX
    then acquireNewSessionIdentifier s = Fault Signed_Overflow
    else \<exists>x s'. acquireNewSessionIdentifier s = Done x s' \<and> x \<notin> used \<and> 0 \<le> x \<and> ids_ok s' (insert x used)"
proof (cases "pooled s" rule: rev_cases)
  case Nil
  then have "recycled_id_count s = 0" using assms length_pooled [OF assms] by (simp add: ids_ok_def)
  then show ?thesis using assms Nil
    by (auto simp: acquireNewSessionIdentifier_def ids_ok_def pooled_def)
next
  case (snoc ps x)
  then obtain s' where s': "acquireNewSessionIdentifier s = Done x s'" "pooled s' = ps"
    "current_highest_id s' = current_highest_id s" "recycled_id_pool s' = recycled_id_pool s"
    "recycled_id_count s' = recycled_id_count s - 1"
    using acquire_pooled [OF assms] by blast
  moreover have "recycled_id_count s - 1 \<ge> 0" using length_pooled [OF assms] snoc by simp
  ultimately show ?thesis using assms snoc by (auto simp: ids_ok_def)
qed

text \<open>
  Returning an identifier in use never fails and keeps the bookkeeping right, whether the pool
  has room or drops the identifier.
\<close>

lemma relinquish_ok:
  assumes "ids_ok s used" "x \<in> used"
  shows "\<exists>s'. relinquishSessionIdentifier x s = Done () s' \<and> ids_ok s' (used - {x}) \<and>
    pooled s' = (if length (pooled s) < 20 then pooled s @ [x] else pooled s)"
proof (cases "length (pooled s) < 20")
  case True
  then obtain s' where s': "relinquishSessionIdentifier x s = Done () s'" "pooled s' = pooled s @ [x]"
    "current_highest_id s' = current_highest_id s" "length (recycled_id_pool s') = 20"
    "recycled_id_count s' = recycled_id_count s + 1"
    using relinquish_room [OF assms(1)] by blast
  moreover have "recycled_id_count s + 1 \<le> 20" using True length_pooled [OF assms(1)] by simp
  ultimately show ?thesis using assms True by (auto simp: ids_ok_def)
next
  case False
  moreover have "length (pooled s) \<le> 20" using assms(1) by (rule pooled_le)
  ultimately have "length (pooled s) = 20" by simp
  then show ?thesis using relinquish_full [OF assms(1)] assms by (auto simp: ids_ok_def)
qed

text \<open>
  The pool is a stack: an identifier returned to a pool with room is the next one handed out, and
  the pool is then as before the return.
\<close>

theorem relinquish_then_acquire:
  assumes "ids_ok s used" "x \<in> used" "length (pooled s) < 20"
  shows "\<exists>s' s''. relinquishSessionIdentifier x s = Done () s' \<and>
    acquireNewSessionIdentifier s' = Done x s'' \<and> pooled s'' = pooled s \<and>
    current_highest_id s'' = current_highest_id s"
proof -
  obtain s' where r: "relinquishSessionIdentifier x s = Done () s'" "ids_ok s' (used - {x})"
    "pooled s' = pooled s @ [x]" using relinquish_ok [OF assms(1,2)] assms(3) by auto
  moreover have "current_highest_id s' = current_highest_id s"
    using relinquish_room [OF assms(1,3), of x] r(1) by auto
  ultimately show ?thesis using acquire_pooled [OF r(2,3)] by auto
qed

text \<open>A counter at 3 with identifiers 0 and 1 in use and 2 waiting.\<close>

definition few_ids :: id_pool where
  "few_ids = \<lparr>current_highest_id = 3, recycled_id_pool = 2 # replicate 19 0, recycled_id_count = 1\<rparr>"

theorem relinquish_then_acquire_witness:
  "\<exists>s' s''. relinquishSessionIdentifier 1 few_ids = Done () s' \<and>
     acquireNewSessionIdentifier s' = Done 1 s'' \<and> pooled s'' = [2] \<and> current_highest_id s'' = 3"
proof -
  have ids: "pooled few_ids = [2]" by (simp add: pooled_def few_ids_def)
  then have "ids_ok few_ids {0, 1}" by (simp add: ids_ok_def INT_MAX_def few_ids_def)
  moreover have "1 \<in> {0, 1 :: int}" "length (pooled few_ids) < 20" using ids by simp_all
  ultimately have "\<exists>s' s''. relinquishSessionIdentifier 1 few_ids = Done () s' \<and>
      acquireNewSessionIdentifier s' = Done 1 s'' \<and> pooled s'' = pooled few_ids \<and>
      current_highest_id s'' = current_highest_id few_ids"
    by (rule relinquish_then_acquire)
  then show ?thesis using ids by (simp add: few_ids_def)
qed

section \<open>Runs of takes and returns\<close>

text \<open>
  Owners (sessions, say) take and return identifiers in any order. \<open>serve\<close> runs a list of requests
  against a source of identifiers and records what each owner holds; a request of an owner that
  holds one already, or returns what it does not hold, is no request.
\<close>

datatype 'o id_request = Take 'o | Give 'o

fun serve ::
  "('s \<Rightarrow> ('x \<times> 's) option) \<Rightarrow> ('x \<Rightarrow> 's \<Rightarrow> 's option) \<Rightarrow> 'o id_request list \<Rightarrow>
     ('o \<rightharpoonup> 'x) \<times> 's \<Rightarrow> (('o \<rightharpoonup> 'x) \<times> 's) option" where
  "serve acq rel [] (m, s) = Some (m, s)"
| "serve acq rel (Take o1 # rs) (m, s) =
     (if m o1 = None then
        (case acq s of None \<Rightarrow> None | Some (x, s') \<Rightarrow> serve acq rel rs (m(o1 \<mapsto> x), s'))
      else None)"
| "serve acq rel (Give o1 # rs) (m, s) =
     (case m o1 of None \<Rightarrow> None
      | Some x \<Rightarrow> (case rel x s of None \<Rightarrow> None | Some s' \<Rightarrow> serve acq rel rs (m(o1 := None), s')))"

locale fresh_ids =
  fixes acq :: "'s \<Rightarrow> ('x \<times> 's) option"
    and rel :: "'x \<Rightarrow> 's \<Rightarrow> 's option"
    and inv :: "'s \<Rightarrow> 'x set \<Rightarrow> bool"
  assumes acq_law: "inv s used \<Longrightarrow> acq s = Some (x, s') \<Longrightarrow> x \<notin> used \<and> inv s' (insert x used)"
    and rel_law: "inv s used \<Longrightarrow> x \<in> used \<Longrightarrow> \<exists>s'. rel x s = Some s' \<and> inv s' (used - {x})"
begin

lemma serve_exclusive:
  assumes "inv s (ran m)" "inj_on m (dom m)" "serve acq rel rs (m, s) = Some (m', s')"
  shows "inv s' (ran m') \<and> inj_on m' (dom m')"
  using assms
proof (induction rs arbitrary: m s)
  case (Cons r rs)
  show ?case
  proof (cases r)
    case (Take o1)
    then obtain x s1 where a: "m o1 = None" "acq s = Some (x, s1)"
      "serve acq rel rs (m(o1 \<mapsto> x), s1) = Some (m', s')"
      using Cons.prems(3) by (auto split: if_splits option.splits)
    then have fresh: "x \<notin> ran m" "inv s1 (insert x (ran m))" using acq_law [OF Cons.prems(1) a(2)] by auto
    then have "inv s1 (ran (m(o1 \<mapsto> x)))" using a(1) by simp
    moreover have "inj_on (m(o1 \<mapsto> x)) (dom (m(o1 \<mapsto> x)))"
      using Cons.prems(2) fresh(1) by (auto simp: inj_on_def ran_def)
    ultimately show ?thesis by (rule Cons.IH [OF _ _ a(3)])
  next
    case (Give o1)
    then obtain x s1 where g: "m o1 = Some x" "rel x s = Some s1"
      "serve acq rel rs (m(o1 := None), s1) = Some (m', s')"
      using Cons.prems(3) by (auto split: option.splits)
    have inj: "inj_on (m(o1 := None)) (dom (m(o1 := None)))"
      using Cons.prems(2) by (auto simp: inj_on_def dom_def)
    have "inv s1 (ran m - {x})" using rel_law [OF Cons.prems(1), of x] g(1,2) by (auto simp: ran_def)
    moreover have "ran m - {x} = ran (m(o1 := None))"
      using Cons.prems(2) g(1) by (auto simp: ran_def inj_on_def dom_def) (metis option.inject)
    ultimately have "inv s1 (ran (m(o1 := None)))" by (rule back_subst)
    then show ?thesis using inj by (rule Cons.IH [OF _ _ g(3)])
  qed
qed simp

end

definition take_id :: "id_pool \<Rightarrow> (int \<times> id_pool) option" where
  "take_id s = (case acquireNewSessionIdentifier s of Done x s' \<Rightarrow> Some (x, s') | _ \<Rightarrow> None)"

definition give_id :: "int \<Rightarrow> id_pool \<Rightarrow> id_pool option" where
  "give_id x s = (case relinquishSessionIdentifier x s of Done _ s' \<Rightarrow> Some s' | _ \<Rightarrow> None)"

interpretation session_ids: fresh_ids take_id give_id ids_ok
proof
  fix s s' used x
  assume "ids_ok s used" "take_id s = Some (x, s')"
  then show "x \<notin> used \<and> ids_ok s' (insert x used)"
    using acquire_fresh [of s used] by (auto simp: take_id_def split: outcome.splits if_splits)
next
  fix s used x
  assume "ids_ok s used" "x \<in> used"
  then show "\<exists>s'. give_id x s = Some s' \<and> ids_ok s' (used - {x})"
    using relinquish_ok [of s used x] by (auto simp: give_id_def)
qed

text \<open>
  C14. Whatever the order in which sessions take and return identifiers, from the server's start no
  two of them ever hold the same one.
\<close>

theorem ids_exclusive:
  assumes "serve take_id give_id rs (Map.empty, initial_ids) = Some (m, s)"
    and "m o1 = Some x" "m o2 = Some x"
  shows "o1 = o2"
proof -
  have "inj_on m (dom m)"
    using session_ids.serve_exclusive [OF _ _ assms(1)] ids_ok_initial by simp
  then show ?thesis using assms(2,3) by (auto simp: inj_on_def dom_def)
qed

theorem ids_exclusive_witness:
  "\<exists>m s. serve take_id give_id [Take ''a'', Take ''b'', Give ''a'', Take ''c''] (Map.empty, initial_ids) = Some (m, s) \<and>
     m ''c'' = Some 0 \<and> m ''b'' = Some 1 \<and> (\<forall>o1. m o1 = Some 0 \<longrightarrow> o1 = ''c'')"
proof -
  let ?rs = "[Take ''a'', Take ''b'', Give ''a'', Take ''c'']"
  have "case serve take_id give_id ?rs (Map.empty, initial_ids) of None \<Rightarrow> False
    | Some (m, s) \<Rightarrow> m ''c'' = Some 0 \<and> m ''b'' = Some 1" by code_simp
  then obtain m s where run: "serve take_id give_id ?rs (Map.empty, initial_ids) = Some (m, s)"
    and m: "m ''c'' = Some 0" "m ''b'' = Some 1" by (auto split: option.splits)
  have "\<forall>o1. m o1 = Some 0 \<longrightarrow> o1 = ''c''" using ids_exclusive [OF run _ m(1)] by blast
  with run m show ?thesis by blast
qed

text \<open>An identifier that was handed out but is neither waiting in the pool nor held.\<close>

definition lost_id :: "int \<Rightarrow> ('o \<rightharpoonup> int) \<times> id_pool \<Rightarrow> bool" where
  "lost_id x = (\<lambda>(m, s). x \<notin> set (pooled s) \<and> x \<notin> ran m \<and> x < current_highest_id s)"

lemma lost_id_take:
  assumes ok: "ids_ok s (ran m)" and lost: "lost_id x (m, s)" and m: "m o2 = None"
    and y: "acquireNewSessionIdentifier s = Done y s1"
  shows "lost_id x (m(o2 \<mapsto> y), s1)"
proof (cases "pooled s" rule: rev_cases)
  case Nil
  then have "recycled_id_count s = 0" using ok length_pooled [OF ok] by (simp add: ids_ok_def)
  then show ?thesis using y lost m Nil
    by (auto simp: lost_id_def acquireNewSessionIdentifier_def pooled_def split: if_splits)
next
  case (snoc ps z)
  then show ?thesis using acquire_pooled [OF ok snoc] y lost m by (auto simp: lost_id_def)
qed

lemma lost_id_give:
  assumes ok: "ids_ok s (ran m)" and lost: "lost_id x (m, s)" and m: "m o2 = Some y"
    and y: "relinquishSessionIdentifier y s = Done () s1"
  shows "lost_id x (m(o2 := None), s1)"
proof -
  have "y \<in> ran m" using m by (rule ranI)
  then have "y \<noteq> x" "pooled s1 = (if length (pooled s) < 20 then pooled s @ [y] else pooled s)"
    using relinquish_ok [OF ok, of y] y lost by (auto simp: lost_id_def)
  moreover have "current_highest_id s1 = current_highest_id s"
    using y by (auto simp: relinquishSessionIdentifier_def Let_def split: if_splits)
  moreover have "ran (m(o2 := None)) \<subseteq> ran m" by (auto simp: ran_def split: if_splits)
  ultimately show ?thesis using lost by (auto simp: lost_id_def)
qed

lemma lost_id_serve:
  assumes "ids_ok s (ran m)" "inj_on m (dom m)" "lost_id x (m, s)"
    and "serve take_id give_id rs (m, s) = Some (m', s')"
  shows "lost_id x (m', s')"
  using assms
proof (induction rs arbitrary: m s)
  case (Cons r rs)
  obtain m1 s1 where one: "serve take_id give_id [r] (m, s) = Some (m1, s1)"
    and rest: "serve take_id give_id rs (m1, s1) = Some (m', s')"
    using Cons.prems(4) by (cases r) (auto split: if_splits option.splits)
  have "lost_id x (m1, s1)"
    using one lost_id_take [OF Cons.prems(1,3)] lost_id_give [OF Cons.prems(1,3)]
    by (cases r) (auto simp: take_id_def give_id_def split: if_splits option.splits outcome.splits)
  moreover have "ids_ok s1 (ran m1) \<and> inj_on m1 (dom m1)"
    using session_ids.serve_exclusive [OF Cons.prems(1,2) one] .
  ultimately show ?case using Cons.IH [OF _ _ _ rest] by blast
qed simp

text \<open>
  C34. An identifier returned to a full pool is lost: whatever is taken and returned afterwards, no
  session gets it again.
\<close>

theorem dropped_id_never_returns:
  assumes ok: "ids_ok s (ran m)" and full: "length (pooled s) = 20" and held: "m o1 = Some x"
    and inj: "inj_on m (dom m)"
    and run: "serve take_id give_id (Give o1 # rs) (m, s) = Some (m', s')"
  shows "x \<notin> ran m'"
proof -
  have x: "x \<in> ran m" using held by (rule ranI)
  have "relinquishSessionIdentifier x s = Done () s" using ok full by (rule relinquish_full)
  then have one: "serve take_id give_id [Give o1] (m, s) = Some (m(o1 := None), s)"
    and rest: "serve take_id give_id rs (m(o1 := None), s) = Some (m', s')"
    using held run by (auto simp: give_id_def)
  have "ids_ok s (ran (m(o1 := None))) \<and> inj_on (m(o1 := None)) (dom (m(o1 := None)))"
    using session_ids.serve_exclusive [OF ok inj one] .
  moreover have "x \<notin> ran (m(o1 := None))"
    using held inj by (auto simp: ran_def inj_on_def dom_def split: if_splits)
  then have "lost_id x (m(o1 := None), s)" using ok x by (auto simp: lost_id_def ids_ok_def)
  ultimately have "lost_id x (m', s')" using lost_id_serve rest by blast
  then show ?thesis by (simp add: lost_id_def)
qed

text \<open>Twenty-one identifiers handed out, the first twenty back in the pool, the last in use.\<close>

definition full_pool :: id_pool where
  "full_pool = \<lparr>current_highest_id = 21, recycled_id_pool = map int [0..<20], recycled_id_count = 20\<rparr>"

theorem dropped_id_never_returns_witness:
  "\<exists>m s. serve take_id give_id [Give ''a'', Take ''b'', Take ''c''] ([''a'' \<mapsto> 20], full_pool) = Some (m, s) \<and>
     m ''b'' = Some 19 \<and> m ''c'' = Some 18 \<and> 20 \<notin> ran m"
proof -
  let ?m = "[''a'' \<mapsto> 20] :: string \<rightharpoonup> int"
  have run: "case serve take_id give_id [Give ''a'', Take ''b'', Take ''c''] (?m, full_pool) of None \<Rightarrow> False
    | Some (m, s) \<Rightarrow> m ''b'' = Some 19 \<and> m ''c'' = Some 18" by code_simp
  have ids: "pooled full_pool = map int [0..<20]" by (simp add: pooled_def full_pool_def)
  have rng: "ran ?m = {20}" by (simp add: ran_def)
  have ok: "ids_ok full_pool (ran ?m)"
    unfolding ids_ok_def ids rng by (auto simp: INT_MAX_def distinct_map full_pool_def)
  have "length (pooled full_pool) = 20" "?m ''a'' = Some 20" "inj_on ?m (dom ?m)" using ids by simp_all
  note gone = dropped_id_never_returns [OF ok this]
  from run show ?thesis using gone by (auto split: option.splits)
qed

end
