(* ===== verification/Wire.thy ===== *)
theory Wire
  imports Prelude
begin

text \<open>
  What travels on a connection, \<^verbatim>\<open>Server/server.h\<close>: the enumerations of the protocol with their codes,
  the strings the server logs for them, and integers in network byte order (\<^verbatim>\<open>htonl\<close>, \<^verbatim>\<open>htons\<close> and
  their inverses, as the bytes a send puts on the wire and a read takes off it).
\<close>

section \<open>Protocol constants\<close>

datatype NetworkOpcode = OP_SERVER_ACK | OP_BUILD_MATCH_SESSION | OP_FETCH_WAITING_LIST
  | OP_INIT_MATCH_SESSION | OP_TERMINATE_LINK | OP_APPROVE_REQ | OP_DECLINE_REQ | OP_SESSION_STATE_UPDATE

datatype MatchSessionState = STATE_CONCLUDED | STATE_IN_PROGRESS | STATE_PENDING_PLYR | STATE_FRESH_INST

fun opcode_value :: "NetworkOpcode \<Rightarrow> int" where
  "opcode_value OP_SERVER_ACK = 0"
| "opcode_value OP_BUILD_MATCH_SESSION = 1"
| "opcode_value OP_FETCH_WAITING_LIST = 2"
| "opcode_value OP_INIT_MATCH_SESSION = 3"
| "opcode_value OP_TERMINATE_LINK = 4"
| "opcode_value OP_APPROVE_REQ = 5"
| "opcode_value OP_DECLINE_REQ = 6"
| "opcode_value OP_SESSION_STATE_UPDATE = 7"

fun state_value :: "MatchSessionState \<Rightarrow> int" where
  "state_value STATE_CONCLUDED = 0"
| "state_value STATE_IN_PROGRESS = 1"
| "state_value STATE_PENDING_PLYR = 2"
| "state_value STATE_FRESH_INST = 3"

lemma opcode_value_inject [simp]: "opcode_value x = opcode_value y \<longleftrightarrow> x = y"
  by (cases x; cases y) simp_all

lemma state_value_inject [simp]: "state_value x = state_value y \<longleftrightarrow> x = y"
  by (cases x; cases y) simp_all

text \<open>The order of the codes.\<close>

instantiation MatchSessionState :: linorder
begin

definition less_eq_MatchSessionState :: "MatchSessionState \<Rightarrow> MatchSessionState \<Rightarrow> bool" where
  "less_eq_MatchSessionState x y = (state_value x \<le> state_value y)"

definition less_MatchSessionState :: "MatchSessionState \<Rightarrow> MatchSessionState \<Rightarrow> bool" where
  "less_MatchSessionState x y = (state_value x < state_value y)"

instance
  by standard (auto simp: less_eq_MatchSessionState_def less_MatchSessionState_def)

end

definition LIMIT_IDENTITY_CAPACITY :: int where
  "LIMIT_IDENTITY_CAPACITY = 64"

section \<open>Log strings\<close>

text \<open>An enumeration is an \<^verbatim>\<open>int\<close> to C, so the functions take any code.\<close>

definition transformOpcodeToLoggableString :: "int \<Rightarrow> string" where
  "transformOpcodeToLoggableString opcodeValue =
     (if opcodeValue = opcode_value OP_SERVER_ACK then ''OP_SERVER_ACK''
      else if opcodeValue = opcode_value OP_BUILD_MATCH_SESSION then ''OP_BUILD_MATCH_SESSION''
      else if opcodeValue = opcode_value OP_FETCH_WAITING_LIST then ''OP_FETCH_WAITING_LIST''
      else if opcodeValue = opcode_value OP_INIT_MATCH_SESSION then ''OP_INIT_MATCH_SESSION''
      else if opcodeValue = opcode_value OP_TERMINATE_LINK then ''OP_TERMINATE_LINK''
      else if opcodeValue = opcode_value OP_APPROVE_REQ then ''OP_APPROVE_REQ''
      else if opcodeValue = opcode_value OP_DECLINE_REQ then ''OP_DECLINE_REQ''
      else ''UNIDENTIFIED_OPCODE'')"

definition transformStateToLoggableString :: "int \<Rightarrow> string" where
  "transformStateToLoggableString stateValue =
     (if stateValue = state_value STATE_CONCLUDED then ''STATE_CONCLUDED''
      else if stateValue = state_value STATE_IN_PROGRESS then ''STATE_IN_PROGRESS''
      else if stateValue = state_value STATE_PENDING_PLYR then ''STATE_PENDING_PLYR''
      else if stateValue = state_value STATE_FRESH_INST then ''STATE_FRESH_INST''
      else ''UNIDENTIFIED_STATE'')"

text \<open>
  The log tells the states apart; for opcodes it does not: \<^verbatim>\<open>OP_SESSION_STATE_UPDATE\<close> is logged like an
  unknown code, and it is the only code of the enumeration that is.
\<close>

lemma state_strings_distinct:
  "transformStateToLoggableString (state_value x) = transformStateToLoggableString (state_value y) \<longleftrightarrow> x = y"
  by (cases x; cases y) (simp_all add: transformStateToLoggableString_def)

lemma opcode_string_unidentified:
  "transformOpcodeToLoggableString (opcode_value x) = ''UNIDENTIFIED_OPCODE'' \<longleftrightarrow> x = OP_SESSION_STATE_UPDATE"
  by (cases x) (simp_all add: transformOpcodeToLoggableString_def)

section \<open>Network byte order\<close>

definition net32 :: "u32 \<Rightarrow> byte list" where
  "net32 x = rev (bytes_le 4 (unat x))"

definition host32 :: "byte list \<Rightarrow> u32" where
  "host32 bs = word_of_nat (nat_le (rev bs))"

definition net16 :: "u16 \<Rightarrow> byte list" where
  "net16 x = rev (bytes_le 2 (unat x))"

definition host16 :: "byte list \<Rightarrow> u16" where
  "host16 bs = word_of_nat (nat_le (rev bs))"

lemma length_net [simp]: "length (net32 x) = 4" "length (net16 y) = 2"
  by (simp_all add: net32_def net16_def)

lemma host32_net32 [simp]: "host32 (net32 x) = x"
proof -
  have "unat x < 256 ^ 4" using unsigned_less [of x, where 'a = nat] by simp
  then show ?thesis by (simp add: host32_def net32_def)
qed

lemma host16_net16 [simp]: "host16 (net16 x) = x"
proof -
  have "unat x < 256 ^ 2" using unsigned_less [of x, where 'a = nat] by simp
  then show ?thesis by (simp add: host16_def net16_def)
qed

lemma net32_host32:
  assumes "length bs = 4"
  shows "net32 (host32 bs) = bs"
proof -
  have "nat_le (rev bs) < 2 ^ 32" using nat_le_less [of "rev bs"] assms by simp
  then have "unat (host32 bs) = nat_le (rev bs)" by (simp add: host32_def unat_of_nat)
  then show ?thesis using bytes_le_nat_le [of "rev bs"] assms by (simp add: net32_def)
qed

lemma net16_host16:
  assumes "length bs = 2"
  shows "net16 (host16 bs) = bs"
proof -
  have "nat_le (rev bs) < 2 ^ 16" using nat_le_less [of "rev bs"] assms by simp
  then have "unat (host16 bs) = nat_le (rev bs)" by (simp add: host16_def unat_of_nat)
  then show ?thesis using bytes_le_nat_le [of "rev bs"] assms by (simp add: net16_def)
qed

text \<open>An opcode or a code of the enumeration as the four bytes on the wire, and what they decode to.\<close>

definition net_opcode :: "NetworkOpcode \<Rightarrow> byte list" where
  "net_opcode x = net32 (word_of_int (opcode_value x))"

lemma length_net_opcode [simp]: "length (net_opcode x) = 4"
  by (simp add: net_opcode_def)

lemma sint_host32_net_opcode [simp]: "sint (host32 (net_opcode x)) = opcode_value x"
  by (cases x) (simp_all add: net_opcode_def)

end
