(* ===== verification/Stream_IO.thy ===== *)
theory Stream_IO
  imports Wire
begin

text \<open>
  Reading from a connection. What a socket will deliver is a script of events: runs of bytes cut at
  arbitrary points, interruptions by signals, receive timeouts, failures, the end of the stream.
  \<open>recv\<close> takes at most the requested bytes from the head of the script; with nothing left to come it
  times out. \<open>consumeExactBytesFromStream\<close> is the loop of \<^verbatim>\<open>server.c\<close> over it, with \<^verbatim>\<open>errno\<close> threaded
  through, and the theory shows what it reads does not depend on how the bytes were cut.
\<close>

section \<open>The socket\<close>

datatype recv_event = Chunk byte "byte list" | Interrupted | Would_Block | Failed int | Closed

datatype recv_result = Got "byte list" | End_Of_Stream | Error int

definition EINTR :: int where
  "EINTR = 4"

definition EAGAIN :: int where
  "EAGAIN = 11"

definition EWOULDBLOCK :: int where
  "EWOULDBLOCK = EAGAIN"

fun recv :: "nat \<Rightarrow> recv_event list \<Rightarrow> recv_result \<times> recv_event list" where
  "recv n [] = (Error EAGAIN, [])"
| "recv n (Chunk b bs # es) =
     (Got (take n (b # bs)), (case drop n (b # bs) of [] \<Rightarrow> es | c # cs \<Rightarrow> Chunk c cs # es))"
| "recv n (Interrupted # es) = (Error EINTR, es)"
| "recv n (Would_Block # es) = (Error EAGAIN, es)"
| "recv n (Failed e # es) = (Error e, es)"
| "recv n (Closed # es) = (End_Of_Stream, Closed # es)"

text \<open>A measure that every productive \<open>recv\<close> lowers.\<close>

fun event_weight :: "recv_event \<Rightarrow> nat" where
  "event_weight (Chunk b bs) = Suc (length bs)"
| "event_weight _ = 1"

definition script_weight :: "recv_event list \<Rightarrow> nat" where
  "script_weight es = sum_list (map event_weight es)"

lemma recv_got_weight:
  "recv n es = (Got bs, es') \<Longrightarrow> 0 < n \<Longrightarrow> script_weight es' < script_weight es"
  by (cases "(n, es)" rule: recv.cases)
    (auto simp: script_weight_def drop_Cons' split: list.splits dest!: arg_cong [of "drop _ _" _ length])

lemma recv_error_weight:
  "recv n es = (Error e, es') \<Longrightarrow> es \<noteq> [] \<Longrightarrow> script_weight es' < script_weight es"
  by (cases "(n, es)" rule: recv.cases) (auto simp: script_weight_def)

section \<open>Reading an exact number of bytes\<close>

text \<open>
  The value is the return code with the bytes written to the buffer so far, which a failing call
  leaves there. The state is what the socket will deliver and the thread's \<^verbatim>\<open>errno\<close>. A signal that
  interrupts the call on a socket with nothing left to come does not arise: \<open>recv\<close> on the empty
  script times out.
\<close>

type_synonym channel = "recv_event list \<times> int"

function consumeExactBytesFromStream ::
  "nat \<Rightarrow> byte list \<Rightarrow> channel \<Rightarrow> (int \<times> byte list) \<times> channel" where
  "consumeExactBytesFromStream expectedBytes payloadBuffer (es, err) =
     (if \<not> length payloadBuffer < expectedBytes then ((int (length payloadBuffer), payloadBuffer), (es, err))
      else
        (case recv (expectedBytes - length payloadBuffer) es of
           (Error e, es') \<Rightarrow>
             if e \<noteq> EAGAIN \<and> e \<noteq> EWOULDBLOCK then
               (if e \<noteq> EINTR then ((-1, payloadBuffer), (es', e))
                else consumeExactBytesFromStream expectedBytes payloadBuffer (es', e))
             else ((-2, payloadBuffer), (es', e))
         | (End_Of_Stream, es') \<Rightarrow> ((0, payloadBuffer), (es', err))
         | (Got bs, es') \<Rightarrow> consumeExactBytesFromStream expectedBytes (payloadBuffer @ bs) (es', err)))"
  by pat_completeness auto
termination
proof (relation "measure (\<lambda>(n, got, es, err). script_weight es)", goal_cases)
  case (2 n got es err r es' bs)
  then show ?case using recv_got_weight [of "n - length got" es bs es'] by auto
next
  case (3 n got es err r es' e)
  then show ?case using recv_error_weight [of "n - length got" es e es']
    by (cases es) (auto simp: EINTR_def EAGAIN_def)
qed simp

declare consumeExactBytesFromStream.simps [simp del]

section \<open>What the loop reads\<close>

text \<open>
  The bytes a script delivers before the first event that ends a read, that event, and the script
  beyond it. The end of a stream stays; an empty script times out.
\<close>

fun pending :: "recv_event list \<Rightarrow> byte list" where
  "pending (Chunk b bs # es) = b # bs @ pending es"
| "pending (Interrupted # es) = pending es"
| "pending (Failed e # es) = (if e = EINTR then pending es else [])"
| "pending _ = []"

fun stopper :: "recv_event list \<Rightarrow> recv_event" where
  "stopper [] = Would_Block"
| "stopper (Chunk b bs # es) = stopper es"
| "stopper (Interrupted # es) = stopper es"
| "stopper (Failed e # es) = (if e = EINTR then stopper es else Failed e)"
| "stopper (e # es) = e"

fun beyond :: "recv_event list \<Rightarrow> recv_event list" where
  "beyond [] = []"
| "beyond (Chunk b bs # es) = beyond es"
| "beyond (Interrupted # es) = beyond es"
| "beyond (Failed e # es) = (if e = EINTR then beyond es else es)"
| "beyond (Would_Block # es) = es"
| "beyond (Closed # es) = Closed # es"

fun stop_code :: "recv_event \<Rightarrow> int" where
  "stop_code Closed = 0"
| "stop_code (Failed e) = (if e = EAGAIN then -2 else -1)"
| "stop_code _ = -2"

lemma stop_code_le: "stop_code e \<le> 0"
  by (cases e) auto

fun stop_errno :: "recv_event \<Rightarrow> int option" where
  "stop_errno Closed = None"
| "stop_errno (Failed e) = Some e"
| "stop_errno _ = Some EAGAIN"

lemmas consume_step = consumeExactBytesFromStream.simps

lemma errno_simps [simp]: "EWOULDBLOCK = EAGAIN" "EINTR \<noteq> EAGAIN" "EAGAIN \<noteq> EINTR"
  by (simp_all add: EWOULDBLOCK_def EINTR_def EAGAIN_def)

text \<open>A positive \<open>recv\<close> takes its bytes off the front of what is pending and changes nothing else.\<close>

lemma recv_got:
  assumes "recv k es = (Got bs, es')" "0 < k"
  shows "length bs \<le> k" "pending es = bs @ pending es'" "stopper es' = stopper es" "beyond es' = beyond es"
proof -
  have *: "length bs \<le> k \<and> pending es = bs @ pending es' \<and> stopper es' = stopper es \<and> beyond es' = beyond es"
    using assms
  proof (cases "(k, es)" rule: recv.cases)
    case (2 n b cs fs)
    have "pending es' = drop n (b # cs) @ pending fs \<and> stopper es' = stopper fs \<and> beyond es' = beyond fs"
      using assms(1) 2 by (auto split: list.splits)
    then show ?thesis using assms(1) 2 by auto
  qed auto
  then show "length bs \<le> k" "pending es = bs @ pending es'" "stopper es' = stopper es" "beyond es' = beyond es"
    by simp_all
qed

lemma consume_enough:
  "length got \<le> n \<Longrightarrow> n - length got \<le> length (pending es) \<Longrightarrow>
   \<exists>es' err'. consumeExactBytesFromStream n got (es, err) =
       ((int n, got @ take (n - length got) (pending es)), (es', err')) \<and>
     pending es' = drop (n - length got) (pending es) \<and> stopper es' = stopper es \<and> beyond es' = beyond es"
proof (induction n got "(es, err)" arbitrary: es err rule: consumeExactBytesFromStream.induct)
  case (1 n got es err)
  show ?case
  proof (cases "length got < n")
    case False
    then show ?thesis using 1(3) by (subst consume_step) auto
  next
    case less: True
    obtain r es1 where r: "recv (n - length got) es = (r, es1)" by fastforce
    show ?thesis
    proof (cases r)
      case (Got bs)
      note g = recv_got [OF r [unfolded Got]] less
      have "length (got @ bs) \<le> n" "n - length (got @ bs) \<le> length (pending es1)" using g 1(3,4) by simp_all
      with 1(1) [OF _ r [symmetric] Got] less obtain es' err' where
        "consumeExactBytesFromStream n (got @ bs) (es1, err) =
          ((int n, (got @ bs) @ take (n - length (got @ bs)) (pending es1)), (es', err'))"
        "pending es' = drop (n - length (got @ bs)) (pending es1)" "stopper es' = stopper es1" "beyond es' = beyond es1"
        by blast
      then show ?thesis using r Got less g by (subst consume_step) (simp add: diff_diff_add)
    next
      case End_Of_Stream
      then have "pending es = []" using r by (cases "(n - length got, es)" rule: recv.cases) auto
      then show ?thesis using 1(4) less by simp
    next
      case (Error e)
      show ?thesis
      proof (cases "e = EINTR")
        case True
        then have same: "pending es1 = pending es" "stopper es1 = stopper es" "beyond es1 = beyond es"
          using r Error by (cases "(n - length got, es)" rule: recv.cases; simp)+
        with 1(2) [OF _ r [symmetric] Error] less True 1(3,4) obtain es' err' where
          "consumeExactBytesFromStream n got (es1, e) = ((int n, got @ take (n - length got) (pending es1)), (es', err'))"
          "pending es' = drop (n - length got) (pending es1)" "stopper es' = stopper es1" "beyond es' = beyond es1"
          by auto
        then show ?thesis using r Error less True same by (subst consume_step) simp
      next
        case False
        then have "pending es = []" using r Error by (cases "(n - length got, es)" rule: recv.cases) auto
        then show ?thesis using 1(4) less by simp
      qed
    qed
  qed
qed

lemma consume_short:
  "length got \<le> n \<Longrightarrow> length (pending es) < n - length got \<Longrightarrow>
   \<exists>err'. consumeExactBytesFromStream n got (es, err) =
       ((stop_code (stopper es), got @ pending es), (beyond es, err')) \<and>
     (case stop_errno (stopper es) of None \<Rightarrow> err' = err \<or> err' = EINTR | Some e \<Rightarrow> err' = e)"
proof (induction n got "(es, err)" arbitrary: es err rule: consumeExactBytesFromStream.induct)
  case (1 n got es err)
  then have less: "length got < n" by simp
  obtain r es1 where r: "recv (n - length got) es = (r, es1)" by fastforce
  show ?case
  proof (cases r)
    case (Got bs)
    note g = recv_got [OF r [unfolded Got]] less
    have "length (got @ bs) \<le> n" "length (pending es1) < n - length (got @ bs)" using g 1(3,4) by simp_all
    with 1(1) [OF _ r [symmetric] Got] less obtain err' where
      "consumeExactBytesFromStream n (got @ bs) (es1, err) =
        ((stop_code (stopper es1), (got @ bs) @ pending es1), (beyond es1, err'))"
      "case stop_errno (stopper es1) of None \<Rightarrow> err' = err \<or> err' = EINTR | Some e \<Rightarrow> err' = e"
      by blast
    then show ?thesis using r Got less g by (subst consume_step) (simp add: diff_diff_add)
  next
    case End_Of_Stream
    then have "pending es = []" "stopper es = Closed" "es1 = beyond es"
      using r by (cases "(n - length got, es)" rule: recv.cases; simp)+
    then show ?thesis using r End_Of_Stream less by (subst consume_step) simp
  next
    case (Error e)
    show ?thesis
    proof (cases "e = EINTR")
      case True
      then have same: "pending es1 = pending es" "stopper es1 = stopper es" "beyond es1 = beyond es"
        using r Error by (cases "(n - length got, es)" rule: recv.cases; simp)+
      with 1(2) [OF _ r [symmetric] Error] less True 1(3,4) obtain err' where
        "consumeExactBytesFromStream n got (es1, e) = ((stop_code (stopper es1), got @ pending es1), (beyond es1, err'))"
        "case stop_errno (stopper es1) of None \<Rightarrow> err' = e \<or> err' = EINTR | Some e' \<Rightarrow> err' = e'"
        by auto
      then show ?thesis using r Error less True same by (subst consume_step) (auto split: option.splits)
    next
      case False
      then have "pending es = []" "es1 = beyond es" "stop_errno (stopper es) = Some e"
        "stop_code (stopper es) = (if e = EAGAIN then -2 else -1)"
        using r Error by (cases "(n - length got, es)" rule: recv.cases; auto)+
      then show ?thesis using r Error less False by (subst consume_step) simp
    qed
  qed
qed

text \<open>
  C13. The whole contract of the read loop. With at least \<open>n\<close> bytes pending it returns \<open>n\<close> with exactly
  the next \<open>n\<close> bytes and leaves the rest; otherwise it hands over all pending bytes and returns 0 for a
  closed stream, -2 for a timeout, -1 for a failure, past the event that stopped it. It always
  returns.
\<close>

theorem consume_contract:
  "if n \<le> length (pending es)
   then \<exists>es' err'. consumeExactBytesFromStream n [] (es, err) = ((int n, take n (pending es)), (es', err')) \<and>
          pending es' = drop n (pending es) \<and> stopper es' = stopper es \<and> beyond es' = beyond es
   else \<exists>err'. consumeExactBytesFromStream n [] (es, err) =
          ((stop_code (stopper es), pending es), (beyond es, err'))"
  using consume_enough [of "[]" n es err] consume_short [of "[]" n es err] by auto

text \<open>
  C27. How the network cut the bytes into segments, and how often signals interrupted the calls, does
  not matter: two sockets with the same pending bytes and the same end give the same return code
  and the same buffer for every read, and have the same pending bytes and end afterwards.
\<close>

theorem consume_ignores_cuts:
  assumes "pending es = pending fs" "stopper es = stopper fs" "beyond es = beyond fs"
    and "consumeExactBytesFromStream n [] (es, err) = (r, (es', e1))"
    and "consumeExactBytesFromStream n [] (fs, err') = (r', (fs', e2))"
  shows "r = r' \<and> pending es' = pending fs'"
  using consume_enough [of "[]" n es err] consume_short [of "[]" n es err]
    consume_enough [of "[]" n fs err'] consume_short [of "[]" n fs err'] assms
  by (cases "n \<le> length (pending es)") (auto simp: not_le)

theorem consume_ignores_cuts_witness:
  "\<exists>es' fs' e1 e2. consumeExactBytesFromStream 3 [] ([Chunk 1 [2], Interrupted, Chunk 3 [4], Closed], 0) =
      ((3, [1, 2, 3]), (es', e1)) \<and>
    consumeExactBytesFromStream 3 [] ([Chunk 1 [], Chunk 2 [3, 4], Closed], 0) = ((3, [1, 2, 3]), (fs', e2)) \<and>
    pending es' = pending fs' \<and> pending fs' = [4]"
proof -
  let ?es = "[Chunk 1 [2], Interrupted, Chunk 3 [4], Closed]" and ?fs = "[Chunk 1 [], Chunk 2 [3, 4], Closed]"
  have es: "consumeExactBytesFromStream 3 [] (?es, 0) = ((3, [1, 2, 3]), ([Chunk 4 [], Closed], EINTR))" by code_simp
  have fs: "consumeExactBytesFromStream 3 [] (?fs, 0) = ((3, [1, 2, 3]), ([Chunk 4 [], Closed], 0))" by code_simp
  have "pending ?es = pending ?fs" "stopper ?es = stopper ?fs" "beyond ?es = beyond ?fs" by simp_all
  from consume_ignores_cuts [OF this es fs] es fs show ?thesis by auto
qed

text \<open>A read never adds to a script, and one that returns a positive code shortens it.\<close>

lemma consume_weight:
  "consumeExactBytesFromStream n got (es, err) = ((rc, bs), (es', err')) \<Longrightarrow>
   script_weight es' \<le> script_weight es \<and> (length got < n \<longrightarrow> 0 < rc \<longrightarrow> script_weight es' < script_weight es)"
proof (induction n got "(es, err)" arbitrary: es err rule: consumeExactBytesFromStream.induct)
  case (1 n got es err)
  show ?case
  proof (cases "length got < n")
    case False
    then show ?thesis using 1(3) by (subst (asm) consume_step) simp
  next
    case less: True
    obtain r es1 where r: "recv (n - length got) es = (r, es1)" by fastforce
    show ?thesis
    proof (cases r)
      case (Got cs)
      have "script_weight es1 < script_weight es" using recv_got_weight [OF r [unfolded Got]] less by simp
      moreover have "consumeExactBytesFromStream n (got @ cs) (es1, err) = ((rc, bs), (es', err'))"
        using 1(3) less r Got by (subst (asm) consume_step) simp
      ultimately show ?thesis using 1(1) [OF _ r [symmetric] Got] less by fastforce
    next
      case End_Of_Stream
      then have "es1 = es" using r by (cases "(n - length got, es)" rule: recv.cases) auto
      then show ?thesis using 1(3) less r End_Of_Stream by (subst (asm) consume_step) simp
    next
      case (Error e)
      have le: "script_weight es1 \<le> script_weight es"
        using r Error recv_error_weight [of "n - length got" es e es1] by (cases es) auto
      show ?thesis
      proof (cases "e = EINTR")
        case True
        then have "es \<noteq> []" using r Error by (auto simp: EINTR_def EAGAIN_def)
        then have "script_weight es1 < script_weight es" using recv_error_weight r Error by blast
        moreover have "consumeExactBytesFromStream n got (es1, e) = ((rc, bs), (es', err'))"
          using 1(3) less r Error True by (subst (asm) consume_step) simp
        ultimately show ?thesis using 1(2) [OF _ r [symmetric] Error] less True by fastforce
      next
        case False
        then show ?thesis using 1(3) less r Error le by (subst (asm) consume_step) (auto split: if_splits)
      qed
    qed
  qed
qed

section \<open>The interface of a byte source\<close>

text \<open>
  What the protocol handlers rely on, whatever delivers the bytes: an exact read takes precisely the
  next bytes, and a read that cannot be satisfied says so with a code that is not positive.
\<close>

locale byte_source =
  fixes pull :: "nat \<Rightarrow> 's \<Rightarrow> (int \<times> byte list) \<times> 's"
    and waiting :: "'s \<Rightarrow> byte list"
  assumes pull_enough: "n \<le> length (waiting s) \<Longrightarrow>
      \<exists>s'. pull n s = ((int n, take n (waiting s)), s') \<and> waiting s' = drop n (waiting s)"
    and pull_short: "length (waiting s) < n \<Longrightarrow> \<exists>rc s'. pull n s = ((rc, waiting s), s') \<and> rc \<le> 0"
begin

lemma pull_code: "fst (fst (pull n s)) = int n \<longleftrightarrow> n \<le> length (waiting s)"
proof (cases "n \<le> length (waiting s)")
  case True
  then show ?thesis using pull_enough [OF True] by auto
next
  case False
  then obtain rc s' where "pull n s = ((rc, waiting s), s')" "rc \<le> 0" using pull_short [of s n] by auto
  with False show ?thesis by auto
qed

lemma pull_exact: "waiting s = xs @ ys \<Longrightarrow> length xs = n \<Longrightarrow>
    \<exists>s'. pull n s = ((int n, xs), s') \<and> waiting s' = ys"
  using pull_enough [of n s] by auto

lemma pull_twice:
  assumes "n + m \<le> length (waiting s)"
  shows "\<exists>s1 s2. pull n s = ((int n, take n (waiting s)), s1) \<and>
    pull m s1 = ((int m, take m (drop n (waiting s))), s2) \<and>
    take n (waiting s) @ take m (drop n (waiting s)) = take (n + m) (waiting s) \<and>
    waiting s2 = drop (n + m) (waiting s)"
proof -
  obtain s1 where s1: "pull n s = ((int n, take n (waiting s)), s1)" "waiting s1 = drop n (waiting s)"
    using pull_enough [of n s] assms by auto
  moreover obtain s2 where "pull m s1 = ((int m, take m (waiting s1)), s2)" "waiting s2 = drop m (waiting s1)"
    using pull_enough [of m s1] assms s1(2) le_diff_conv2 [of n "length (waiting s)" m] by (auto simp: add.commute)
  ultimately show ?thesis by (simp add: take_add add.commute [of m n])
qed

text \<open>A name as the clients send it: its length in network order, then its bytes.\<close>

lemma pull_name:
  assumes "waiting s = net32 (word_of_nat (length name)) @ name @ more" "length name < 2 ^ 31"
  shows "\<exists>s1 s2. pull 4 s = ((4, net32 (word_of_nat (length name))), s1) \<and>
    sint (host32 (net32 (word_of_nat (length name)))) = int (length name) \<and>
    pull (length name) s1 = ((int (length name), name), s2) \<and> waiting s2 = more"
proof -
  obtain s1 where s1: "pull 4 s = ((4, net32 (word_of_nat (length name))), s1)" "waiting s1 = name @ more"
    using pull_exact [OF assms(1), of 4] by auto
  moreover obtain s2 where "pull (length name) s1 = ((int (length name), name), s2)" "waiting s2 = more"
    using pull_exact [OF s1(2) refl] by auto
  moreover have "sint (word_of_nat (length name) :: u32) = int (length name)"
    using assms(2) by (simp add: signed_of_nat signed_take_bit_int_eq_self)
  ultimately show ?thesis by simp
qed

end

definition socket_pull :: "nat \<Rightarrow> channel \<Rightarrow> (int \<times> byte list) \<times> channel" where
  "socket_pull n = consumeExactBytesFromStream n []"

abbreviation socket_waiting :: "channel \<Rightarrow> byte list" where
  "socket_waiting c \<equiv> pending (fst c)"

interpretation connection: byte_source socket_pull socket_waiting
proof
  fix n and s :: channel
  obtain es err where s: "s = (es, err)" by fastforce
  show "n \<le> length (socket_waiting s) \<Longrightarrow>
      \<exists>s'. socket_pull n s = ((int n, take n (socket_waiting s)), s') \<and> socket_waiting s' = drop n (socket_waiting s)"
    using consume_enough [of "[]" n es err] by (auto simp: s socket_pull_def)
  show "length (socket_waiting s) < n \<Longrightarrow> \<exists>rc s'. socket_pull n s = ((rc, socket_waiting s), s') \<and> rc \<le> 0"
    using consume_short [of "[]" n es err] stop_code_le by (auto simp: s socket_pull_def)
qed

text \<open>
  C28. Round trip of a name on the wire: if what a connection delivers starts with the length of a name
  in network order and the name, cut into any segments, then the server's two reads return 4 and the
  length, decode the length, yield the name, and leave what follows.
\<close>

theorem name_round_trip:
  assumes "pending es = net32 (word_of_nat (length name)) @ name @ more" "length name < 2 ^ 31"
  shows "\<exists>c1 c2 bs. consumeExactBytesFromStream 4 [] (es, err) = ((4, bs), c1) \<and>
    sint (host32 bs) = int (length name) \<and>
    consumeExactBytesFromStream (length name) [] c1 = ((int (length name), name), c2) \<and>
    pending (fst c2) = more"
  using connection.pull_name [of "(es, err)" name more] assms by (auto simp: socket_pull_def)

theorem name_round_trip_witness:
  "\<exists>c1 c2 bs. consumeExactBytesFromStream 4 [] ([Chunk 0 [0], Chunk 0 [], Chunk 2 [65], Interrupted, Chunk 66 [7]], 0) = ((4, bs), c1) \<and>
     sint (host32 bs) = 2 \<and> consumeExactBytesFromStream 2 [] c1 = ((2, [65, 66]), c2) \<and> pending (fst c2) = [7]"
proof -
  have "pending [Chunk 0 [0], Chunk 0 [], Chunk 2 [65], Interrupted, Chunk 66 [7]] =
      net32 (word_of_nat (length [65, 66 :: byte])) @ [65, 66] @ [7]" by code_simp
  moreover have two: "length [65, 66 :: byte] = 2" and "length [65, 66 :: byte] < 2 ^ 31" by simp_all
  ultimately show ?thesis using name_round_trip [of _ "[65, 66]" "[7]" 0] unfolding two by simp
qed

end
