(* ===== verification/Grid.thy ===== *)
theory Grid
  imports Prelude "HOL-Library.Signed_Division"
begin

text \<open>
  The board of a match: three rows of three unsigned cells behind a pointer to row pointers. An
  access outside the three rows or the three cells of a row is a fault; the rows are separate
  blocks, so nothing else can be hit without one. The alignment tests are the loops of \<^verbatim>\<open>server.c\<close>
  with their flag and early return; the theory shows what the victor computation decides, in terms
  of the eight lines of the board, and that a play on free cells never has two winners.
\<close>

section \<open>Storage\<close>

type_synonym grid = "u32 list list"

definition grid_read :: "grid \<Rightarrow> int \<Rightarrow> int \<Rightarrow> fault + u32" where
  "grid_read g r c =
     (if 0 \<le> r \<and> nat r < length g \<and> 0 \<le> c \<and> nat c < length (g ! nat r)
      then Inr (g ! nat r ! nat c) else Inl Out_Of_Bounds)"

definition grid_write :: "grid \<Rightarrow> int \<Rightarrow> int \<Rightarrow> u32 \<Rightarrow> fault + grid" where
  "grid_write g r c v =
     (if 0 \<le> r \<and> nat r < length g \<and> 0 \<le> c \<and> nat c < length (g ! nat r)
      then Inr (g[nat r := (g ! nat r)[nat c := v]]) else Inl Out_Of_Bounds)"

text \<open>
  Allocation asks for one block of row pointers and three zeroed rows. The list says which requests
  are granted, in order, and what is left of it is returned; a refused request ends the process.
\<close>

fun take_grant :: "bool list \<Rightarrow> bool \<times> bool list" where
  "take_grant [] = (True, [])"
| "take_grant (b # bs) = (b, bs)"

definition allocateGridMatrixBuffer :: "(bool list, grid) cmd" where
  "allocateGridMatrixBuffer grants0 =
     (let (ok, grants1) = take_grant grants0 in
      if \<not> ok then Halted grants1
      else
        (case for_ret [0..<3 :: nat]
                (\<lambda>j (rows, grants').
                   let (ok', grants'') = take_grant grants' in
                   if ok' then Inl (rows @ [[0, 0, 0]], grants'') else Inr grants'')
                ([], grants1) of
           Inl (rows, grants') \<Rightarrow> Done rows grants'
         | Inr grants' \<Rightarrow> Halted grants'))"

definition wipe_topological_grid :: "grid option \<Rightarrow> fault + grid option" where
  "wipe_topological_grid matrix =
     (case matrix of
        None \<Rightarrow> Inr None
      | Some g \<Rightarrow>
          (case for_ret [0..<3 :: nat]
                  (\<lambda>r g. for_ret [0..<3 :: nat]
                     (\<lambda>c g. case grid_write g (int r) (int c) 0 of Inl f \<Rightarrow> Inr f | Inr g' \<Rightarrow> Inl g') g) g of
             Inl g' \<Rightarrow> Inr (Some g')
           | Inr f \<Rightarrow> Inl f))"

section \<open>Alignment\<close>

text \<open>
  The inner loop body is shared: the flag drops at the first cell that differs from the target, and
  a flag still set at the last column returns 1. The cell is read only while the flag is set. \<open>Inr\<close> is
  a return from the loop, with the fault of a bad access or the value returned.
\<close>

definition scan_cell :: "fault + u32 \<Rightarrow> u32 \<Rightarrow> nat \<Rightarrow> bool \<Rightarrow> bool + (fault + int)" where
  "scan_cell content target_val c alignment_valid =
     (if \<not> alignment_valid then Inl False
      else (case content of
              Inl f \<Rightarrow> Inr (Inl f)
            | Inr v \<Rightarrow> if v \<noteq> target_val then Inl False
                       else if c = 2 then Inr (Inr 1) else Inl True))"

definition validate_horizontal_alignment :: "grid \<Rightarrow> u32 \<Rightarrow> fault + int" where
  "validate_horizontal_alignment g target_val =
     (case for_ret [0..<3 :: nat]
             (\<lambda>r alignment_valid.
                case for_ret [0..<3 :: nat]
                       (\<lambda>c. scan_cell (grid_read g (int r) (int c)) target_val c) alignment_valid of
                  Inl _ \<Rightarrow> Inl True
                | Inr r \<Rightarrow> Inr r) True of
        Inl _ \<Rightarrow> Inr 0
      | Inr r \<Rightarrow> r)"

definition validate_vertical_alignment :: "grid \<Rightarrow> u32 \<Rightarrow> fault + int" where
  "validate_vertical_alignment g target_val =
     (case for_ret [0..<3 :: nat]
             (\<lambda>r alignment_valid.
                case for_ret [0..<3 :: nat]
                       (\<lambda>c. scan_cell (grid_read g (int c) (int r)) target_val c) alignment_valid of
                  Inl _ \<Rightarrow> Inl True
                | Inr r \<Rightarrow> Inr r) True of
        Inl _ \<Rightarrow> Inr 0
      | Inr r \<Rightarrow> r)"

definition keep_flag :: "fault + u32 \<Rightarrow> u32 \<Rightarrow> bool \<Rightarrow> bool + fault" where
  "keep_flag content target_val alignment_valid =
     (if \<not> alignment_valid then Inl False
      else (case content of Inl f \<Rightarrow> Inr f | Inr v \<Rightarrow> Inl (v = target_val)))"

definition validate_diagonal_alignment :: "grid \<Rightarrow> u32 \<Rightarrow> fault + int" where
  "validate_diagonal_alignment g target_val =
     (case for_ret [0..<3 :: nat] (\<lambda>p. keep_flag (grid_read g (int p) (int p)) target_val) True of
        Inr f \<Rightarrow> Inl f
      | Inl alignment_valid \<Rightarrow>
          if \<not> alignment_valid then
            (case for_ret [0..<3 :: nat] (\<lambda>p. keep_flag (grid_read g (int p) (2 - int p)) target_val) True of
               Inr f \<Rightarrow> Inl f
             | Inl alignment_valid' \<Rightarrow> Inr (if alignment_valid' then 1 else 0))
          else Inr 1)"

text \<open>
  The victor: the tests in the order of the code, each answering with the value it found aligned;
  \<open>checks\<close> runs such a list of tests and goes on with \<open>rest\<close> when none succeeds.
\<close>

fun checks :: "((fault + int) \<times> int) list \<Rightarrow> fault + int \<Rightarrow> fault + int" where
  "checks [] rest = rest"
| "checks ((found, answer) # ts) rest =
     (case found of Inl f \<Rightarrow> Inl f | Inr b \<Rightarrow> if b \<noteq> 0 then Inr answer else checks ts rest)"

definition calculate_session_victor :: "grid \<Rightarrow> u32 \<Rightarrow> u32 \<Rightarrow> fault + int" where
  "calculate_session_victor g val1 val2 =
     checks [(validate_horizontal_alignment g val1, sint val1),
             (validate_horizontal_alignment g val2, sint val2),
             (validate_vertical_alignment g val1, sint val1),
             (validate_vertical_alignment g val2, sint val2),
             (validate_diagonal_alignment g val1, sint val1),
             (validate_diagonal_alignment g val2, sint val2)]
       (case for_ret [0..<3 :: nat]
               (\<lambda>r (_ :: unit). for_ret [0..<3 :: nat]
                  (\<lambda>c _. case grid_read g (int r) (int c) of
                     Inl f \<Rightarrow> Inr (Inl f) | Inr v \<Rightarrow> if v = 0 then Inr (Inr (-2)) else Inl ()) ()) () of
          Inl _ \<Rightarrow> Inr (-1)
        | Inr r \<Rightarrow> r)"

section \<open>Moves and turns\<close>

text \<open>
  The store of a received cell number, with the truncating division and remainder of C and the
  overflow of the subtraction.
\<close>

definition place_mark :: "grid \<Rightarrow> int \<Rightarrow> u32 \<Rightarrow> fault + grid" where
  "place_mark g decoded_cell mark =
     (if decoded_cell = - (2 ^ 31) then Inl Signed_Overflow
      else grid_write g ((decoded_cell - 1) sdiv 3) ((decoded_cell - 1) smod 3) mark)"

definition dispatch_turn_marker :: "int \<Rightarrow> int \<Rightarrow> int \<Rightarrow> int" where
  "dispatch_turn_marker base1 base2 current_turn_marker =
     (if current_turn_marker \<noteq> base1 then base1 else base2)"

section \<open>The eight lines\<close>

definition board_ok :: "grid \<Rightarrow> bool" where
  "board_ok g \<longleftrightarrow> length g = 3 \<and> list_all (\<lambda>row. length row = 3) g"

definition row_lines :: "(nat \<times> nat) list list" where
  "row_lines = [[(0, 0), (0, 1), (0, 2)], [(1, 0), (1, 1), (1, 2)], [(2, 0), (2, 1), (2, 2)]]"

definition column_lines :: "(nat \<times> nat) list list" where
  "column_lines = [[(0, 0), (1, 0), (2, 0)], [(0, 1), (1, 1), (2, 1)], [(0, 2), (1, 2), (2, 2)]]"

definition diagonal_lines :: "(nat \<times> nat) list list" where
  "diagonal_lines = [[(0, 0), (1, 1), (2, 2)], [(0, 2), (1, 1), (2, 0)]]"

definition lines :: "(nat \<times> nat) list list" where
  "lines = row_lines @ column_lines @ diagonal_lines"

definition content :: "grid \<Rightarrow> nat \<times> nat \<Rightarrow> u32" where
  "content g = (\<lambda>(r, c). g ! r ! c)"

definition owns :: "grid \<Rightarrow> u32 \<Rightarrow> (nat \<times> nat) list \<Rightarrow> bool" where
  "owns g v line = list_all (\<lambda>pos. content g pos = v) line"

definition has_line :: "grid \<Rightarrow> u32 \<Rightarrow> bool" where
  "has_line g v = list_ex (owns g v) lines"

definition squares :: "(nat \<times> nat) list" where
  "squares = [(0, 0), (0, 1), (0, 2), (1, 0), (1, 1), (1, 2), (2, 0), (2, 1), (2, 2)]"

definition full_board :: "grid \<Rightarrow> bool" where
  "full_board g = list_all (\<lambda>pos. content g pos \<noteq> 0) squares"

lemma board_cases:
  assumes "board_ok g"
  obtains a b c d e f h i j where "g = [[a, b, c], [d, e, f], [h, i, j]]"
  using assms by (auto simp: board_ok_def numeral_3_eq_3 length_Suc_conv)

lemma upt3: "[0..<3] = [0, 1, 2 :: nat]"
  by (simp add: upt_rec)

lemmas scan_simps = scan_cell_def keep_flag_def grid_read_def upt3

lemma horizontal_spec:
  assumes "board_ok g"
  shows "validate_horizontal_alignment g v = Inr (if list_ex (owns g v) row_lines then 1 else 0)"
  using assms
  by (elim board_cases) (simp add: validate_horizontal_alignment_def scan_simps row_lines_def owns_def content_def)

lemma vertical_spec:
  assumes "board_ok g"
  shows "validate_vertical_alignment g v = Inr (if list_ex (owns g v) column_lines then 1 else 0)"
  using assms
  by (elim board_cases) (simp add: validate_vertical_alignment_def scan_simps column_lines_def owns_def content_def)

lemma diagonal_spec:
  assumes "board_ok g"
  shows "validate_diagonal_alignment g v = Inr (if list_ex (owns g v) diagonal_lines then 1 else 0)"
  using assms
  by (elim board_cases) (simp add: validate_diagonal_alignment_def scan_simps diagonal_lines_def owns_def content_def)

lemma free_cell_scan:
  assumes "board_ok g"
  shows "(case for_ret [0..<3 :: nat]
               (\<lambda>r (_ :: unit). for_ret [0..<3 :: nat]
                  (\<lambda>c _. case grid_read g (int r) (int c) of
                     Inl f \<Rightarrow> Inr (Inl f) | Inr v \<Rightarrow> if v = 0 then Inr (Inr (-2)) else Inl ()) ()) () of
          Inl _ \<Rightarrow> Inr (-1)
        | Inr r \<Rightarrow> r) = Inr (if full_board g then -1 else -2 :: int)"
  using assms
  by (elim board_cases) (simp add: scan_simps full_board_def squares_def content_def)

lemma victor_order:
  assumes "board_ok g"
  shows "calculate_session_victor g v1 v2 = Inr
    (if list_ex (owns g v1) row_lines then sint v1
     else if list_ex (owns g v2) row_lines then sint v2
     else if list_ex (owns g v1) column_lines then sint v1
     else if list_ex (owns g v2) column_lines then sint v2
     else if list_ex (owns g v1) diagonal_lines then sint v1
     else if list_ex (owns g v2) diagonal_lines then sint v2
     else if full_board g then -1 else -2)"
  unfolding calculate_session_victor_def horizontal_spec [OF assms] vertical_spec [OF assms]
    diagonal_spec [OF assms] free_cell_scan [OF assms]
  by simp

lemma has_line_split:
  "has_line g v \<longleftrightarrow> list_ex (owns g v) row_lines \<or> list_ex (owns g v) column_lines \<or> list_ex (owns g v) diagonal_lines"
  by (simp add: has_line_def lines_def)

text \<open>As long as at most one of the two has a line, the order of the tests does not matter.\<close>

lemma victor_decides:
  assumes "board_ok g" "\<not> (has_line g v1 \<and> has_line g v2)"
  shows "calculate_session_victor g v1 v2 = Inr
    (if has_line g v1 then sint v1 else if has_line g v2 then sint v2
     else if full_board g then -1 else -2)"
  using assms by (auto simp: victor_order has_line_split)

text \<open>
  C37. The victor computation on every board, reachable or not: rows are looked at before columns before
  diagonals, within each the first player before the second; without a line the answer is -1 exactly
  on a full board and -2 otherwise.
\<close>

theorem victor_exact:
  assumes "board_ok g"
  shows "calculate_session_victor g v1 v2 = Inr
    (if list_ex (owns g v1) row_lines then sint v1
     else if list_ex (owns g v2) row_lines then sint v2
     else if list_ex (owns g v1) column_lines then sint v1
     else if list_ex (owns g v2) column_lines then sint v2
     else if list_ex (owns g v1) diagonal_lines then sint v1
     else if list_ex (owns g v2) diagonal_lines then sint v2
     else if full_board g then -1 else -2)"
  using assms by (rule victor_order)

theorem victor_exact_witness:
  "calculate_session_victor [[4, 4, 0], [5, 5, 5], [4, 0, 0]] 4 5 = Inr 5 \<and>
   calculate_session_victor [[4, 5, 4], [4, 5, 5], [5, 4, 4]] 4 5 = Inr (-1)"
proof -
  have "board_ok [[4, 4, 0], [5, 5, 5], [4, 0, 0]]" "board_ok [[4, 5, 4], [4, 5, 5], [5, 4, 4]]"
    by (simp_all add: board_ok_def)
  note this [THEN victor_exact, of 4 5]
  then show ?thesis
    by (simp add: row_lines_def column_lines_def diagonal_lines_def owns_def content_def full_board_def squares_def)
qed

section \<open>Marking a cell\<close>

definition square_of :: "int \<Rightarrow> nat \<times> nat" where
  "square_of k = (nat ((k - 1) div 3), nat ((k - 1) mod 3))"

lemma cell_quotient: "1 \<le> k \<Longrightarrow> (k - 1) sdiv 3 = (k - 1) div (3 :: int) \<and> (k - 1) smod 3 = (k - 1) mod (3 :: int)"
  by (simp add: signed_divide_int_def signed_modulo_int_def sgn_if)

lemma board_ok_nth: "board_ok g \<Longrightarrow> r < 3 \<Longrightarrow> length (g ! r) = 3"
  by (simp add: board_ok_def list_all_length)

lemma grid_write_inside:
  assumes "board_ok g" "r < 3" "c < 3"
  shows "\<exists>g'. grid_write g (int r) (int c) v = Inr g' \<and> board_ok g' \<and> content g' = (content g)((r, c) := v)"
proof -
  let ?g' = "g[r := (g ! r)[c := v]]"
  have len: "length g = 3" "length (g ! r) = 3"
    using assms(1) board_ok_nth [OF assms(1,2)] by (simp_all add: board_ok_def)
  have "grid_write g (int r) (int c) v = Inr ?g'" using assms(2,3) len by (simp add: grid_write_def)
  moreover have "board_ok ?g'"
    using assms(1) len by (auto simp: board_ok_def list_all_iff dest!: set_update_subset_insert [THEN subsetD])
  moreover have "content ?g' = (content g)((r, c) := v)"
    using assms(2,3) len by (auto simp: fun_eq_iff content_def nth_list_update)
  ultimately show ?thesis by blast
qed

lemma place_mark_inside:
  assumes "board_ok g" "1 \<le> k" "k \<le> 9"
  shows "\<exists>g'. place_mark g k v = Inr g' \<and> board_ok g' \<and> content g' = (content g)(square_of k := v)"
proof -
  obtain r c where sq: "square_of k = (r, c)" by fastforce
  then have rc: "(k - 1) div 3 = int r" "(k - 1) mod 3 = int c"
    using assms(2) by (simp_all add: square_of_def) (simp add: nat_eq_iff pos_imp_zdiv_nonneg_iff)+
  have "int r < 3" unfolding rc(1) [symmetric] using assms(3) by linarith
  moreover have "int c < 3" unfolding rc(2) [symmetric] by simp
  ultimately have "r < 3" "c < 3" by simp_all
  from grid_write_inside [OF assms(1) this, of v] show ?thesis
    using assms(2) cell_quotient [OF assms(2)] unfolding sq rc by (simp add: place_mark_def rc)
qed

text \<open>
  C38. The server stores a move without checking it. Exactly the cell numbers 1 to 9 stay on the board;
  every other number a client can send, zero and negative ones included, makes the store leave its
  row or the board.
\<close>

theorem place_mark_range:
  assumes "board_ok g" "- (2 ^ 31) \<le> k" "k < 2 ^ 31"
  shows "(\<exists>g'. place_mark g k v = Inr g') = (1 \<le> k \<and> k \<le> 9)"
proof -
  have "\<not> (1 \<le> k \<and> k \<le> 9) \<Longrightarrow> place_mark g k v \<noteq> Inr g'" for g'
  proof (cases "1 \<le> k")
    case True
    moreover assume "\<not> (1 \<le> k \<and> k \<le> 9)"
    ultimately have "\<not> nat ((k - 1) div 3) < 3" by linarith
    then show ?thesis using cell_quotient [OF True] assms(1) by (simp add: place_mark_def grid_write_def board_ok_def)
  next
    case False
    define m where "m = 1 - k"
    have m: "0 < m" "k - 1 = - m" using False by (simp_all add: m_def)
    then have q: "(k - 1) sdiv 3 = - (m div 3)" "(k - 1) smod 3 = - (m mod 3)"
      unfolding m(2) by (simp_all add: signed_divide_int_def signed_modulo_int_def)
    have "m div 3 = 0 \<longrightarrow> m mod 3 \<noteq> 0" using m(1) by auto
    moreover have "0 \<le> m div 3" "0 \<le> m mod 3" using m(1) by simp_all
    ultimately have "- (m div 3) < 0 \<or> - (m mod 3) < 0" by linarith
    then show ?thesis by (auto simp: place_mark_def grid_write_def q)
  qed
  then show ?thesis using place_mark_inside [OF assms(1), of k v] by blast
qed

definition blank_board :: grid where
  "blank_board = [[0, 0, 0], [0, 0, 0], [0, 0, 0]]"

lemma blank_board_ok [simp]: "board_ok blank_board"
  by (simp add: board_ok_def blank_board_def)

theorem place_mark_range_witness:
  "(\<exists>g'. place_mark blank_board 5 4 = Inr g') \<and> (\<nexists>g'. place_mark blank_board 0 4 = Inr g') \<and>
   (\<nexists>g'. place_mark blank_board 10 4 = Inr g')"
  using place_mark_range [OF blank_board_ok, of 5 4] place_mark_range [OF blank_board_ok, of 0 4]
    place_mark_range [OF blank_board_ok, of 10 4] by simp

text \<open>Allocation and wiping give the blank board.\<close>

lemma allocate_spec:
  "allocateGridMatrixBuffer gs = (if list_all id (take 4 gs) then Done blank_board (drop 4 gs)
     else Halted (tl (dropWhile id gs)))"
proof -
  obtain a b c d where g: "take_grant gs = a" "take_grant (snd a) = b" "take_grant (snd b) = c" "take_grant (snd c) = d"
    by blast
  have tg: "take_grant xs = (xs = [] \<or> hd xs, tl xs)" for xs by (cases xs) simp_all
  show ?thesis
    by (cases gs; cases "tl gs"; cases "tl (tl gs)"; cases "tl (tl (tl gs))")
      (auto simp: allocateGridMatrixBuffer_def upt3 tg Let_def blank_board_def)
qed

lemma wipe_spec:
  assumes "board_ok g"
  shows "wipe_topological_grid (Some g) = Inr (Some blank_board)"
  using assms
  by (elim board_cases) (simp add: wipe_topological_grid_def grid_write_def upt3 blank_board_def)

section \<open>Games\<close>

text \<open>
  The moves of one game: marks alternate, and the game ends with the first status that is not -2.
  The result is that status (-2 when the moves run out), the board and the next to move.
\<close>

fun game :: "u32 \<Rightarrow> u32 \<Rightarrow> u32 \<Rightarrow> grid \<Rightarrow> int list \<Rightarrow> fault + int \<times> grid \<times> u32" where
  "game v1 v2 mover g [] = Inr (-2, g, mover)"
| "game v1 v2 mover g (k # ks) =
     (case place_mark g k mover of
        Inl f \<Rightarrow> Inl f
      | Inr g' \<Rightarrow>
          (let mover' = (if mover \<noteq> v1 then v1 else v2) in
           case calculate_session_victor g' v1 v2 of
             Inl f \<Rightarrow> Inl f
           | Inr status \<Rightarrow> if status = -2 then game v1 v2 mover' g' ks else Inr (status, g', mover')))"

definition free_cells :: "grid \<Rightarrow> int set" where
  "free_cells g = {k. 1 \<le> k \<and> k \<le> 9 \<and> content g (square_of k) = 0}"

lemma squares_cells: "squares = map square_of [1, 2, 3, 4, 5, 6, 7, 8, 9]"
  by (simp add: squares_def square_of_def)

lemma cells_1_9: "{1..9 :: int} = set [1, 2, 3, 4, 5, 6, 7, 8, 9]"
  by auto

lemma full_board_cells: "full_board g \<longleftrightarrow> free_cells g = {}"
proof -
  have "full_board g \<longleftrightarrow> (\<forall>k\<in>{1..9}. content g (square_of k) \<noteq> 0)"
    unfolding full_board_def squares_cells cells_1_9 by (simp add: list_all_iff del: One_nat_def)
  then show ?thesis by (auto simp: free_cells_def)
qed

lemma square_of_inject:
  assumes "1 \<le> k" "1 \<le> l"
  shows "square_of k = square_of l \<longleftrightarrow> k = l"
proof
  assume eq: "square_of k = square_of l"
  have "0 \<le> (k - 1) div 3" "0 \<le> (l - 1) div 3" using assms by (simp_all add: pos_imp_zdiv_nonneg_iff)
  moreover have "0 \<le> (k - 1) mod 3" "0 \<le> (l - 1) mod 3" by simp_all
  ultimately have "(k - 1) div 3 = (l - 1) div 3" "(k - 1) mod 3 = (l - 1) mod 3"
    using eq by (simp_all only: square_of_def prod.inject eq_nat_nat_iff)
  then have "(k - 1) div 3 * 3 + (k - 1) mod 3 = (l - 1) div 3 * 3 + (l - 1) mod 3" by simp
  then show "k = l" by (simp only: div_mult_mod_eq)
qed simp

lemma free_cells_mark:
  assumes "content g' = (content g)(square_of k := v)" "v \<noteq> 0" "1 \<le> k"
  shows "free_cells g' = free_cells g - {k}"
  using assms by (auto simp: free_cells_def square_of_inject)

lemma free_cells_blank: "free_cells blank_board = {1..9}"
proof -
  have "content blank_board (square_of k) = 0" if "1 \<le> k" "k \<le> 9" for k
  proof -
    from that have "k \<in> set [1, 2, 3, 4, 5, 6, 7, 8, 9]" unfolding cells_1_9 [symmetric] by simp
    then show ?thesis by (auto simp: content_def blank_board_def square_of_def)
  qed
  then show ?thesis by (auto simp: free_cells_def)
qed

text \<open>A mark on a free cell can only complete a line of the one who moves.\<close>

lemma other_gets_no_line:
  assumes "content g' = (content g)(pos := v)" "w \<noteq> v" "\<not> has_line g w"
  shows "\<not> has_line g' w"
proof
  assume "has_line g' w"
  then obtain line where line: "line \<in> set lines" "owns g' w line" by (auto simp: has_line_def list_ex_iff)
  then have "owns g w line" using assms(1,2) by (auto simp: owns_def list_all_iff split: if_splits)
  then show False using line(1) assms(3) by (auto simp: has_line_def list_ex_iff)
qed

text \<open>Between two moves of a running game nobody has a line.\<close>

definition running :: "u32 \<Rightarrow> u32 \<Rightarrow> grid \<Rightarrow> bool" where
  "running v1 v2 g \<longleftrightarrow> board_ok g \<and> \<not> has_line g v1 \<and> \<not> has_line g v2"

definition rivals :: "u32 \<Rightarrow> u32 \<Rightarrow> bool" where
  "rivals v1 v2 \<longleftrightarrow> v1 \<noteq> v2 \<and> 0 < sint v1 \<and> 0 < sint v2"

lemma rivals_nonzero: "rivals v1 v2 \<Longrightarrow> v1 \<noteq> 0 \<and> v2 \<noteq> 0"
  by (auto simp: rivals_def)

lemma one_move:
  assumes run: "running v1 v2 g" and v: "rivals v1 v2" "mover = v1 \<or> mover = v2" and k: "k \<in> free_cells g"
  obtains g' where "place_mark g k mover = Inr g'" "board_ok g'" "free_cells g' = free_cells g - {k}"
    "calculate_session_victor g' v1 v2 = Inr
      (if has_line g' mover then sint mover else if full_board g' then -1 else -2)"
    "\<not> has_line g' (if mover \<noteq> v1 then v1 else v2)"
proof -
  have k19: "1 \<le> k" "k \<le> 9" using k by (simp_all add: free_cells_def)
  obtain g' where g': "place_mark g k mover = Inr g'" "board_ok g'" "content g' = (content g)(square_of k := mover)"
    using place_mark_inside [OF _ k19, of g mover] run by (auto simp: running_def)
  have "\<not> has_line g' (if mover \<noteq> v1 then v1 else v2)"
    using run v by (intro other_gets_no_line [OF g'(3)]) (auto simp: running_def rivals_def)
  moreover from this have "calculate_session_victor g' v1 v2 = Inr
      (if has_line g' mover then sint mover else if full_board g' then -1 else -2)"
    using g'(2) v(2) by (subst victor_decides) (auto split: if_splits)
  moreover have "free_cells g' = free_cells g - {k}"
    using rivals_nonzero [OF v(1)] v(2) k19 by (intro free_cells_mark [OF g'(3)]) auto
  ultimately show thesis using that g' by blast
qed

lemma game_spec:
  assumes "running v1 v2 g" "rivals v1 v2" "mover = v1 \<or> mover = v2"
    and "distinct ks" "set ks \<subseteq> free_cells g"
  shows "\<exists>status g' next. game v1 v2 mover g ks = Inr (status, g', next) \<and> board_ok g' \<and>
    \<not> (has_line g' v1 \<and> has_line g' v2) \<and>
    status = (if has_line g' v1 then sint v1 else if has_line g' v2 then sint v2
              else if ks \<noteq> [] \<and> full_board g' then -1 else -2) \<and>
    (status = -2 \<longrightarrow> free_cells g' = free_cells g - set ks)"
  using assms
proof (induction ks arbitrary: g mover)
  case Nil
  then show ?case by (auto simp: running_def)
next
  case (Cons k ks)
  then have k: "k \<in> free_cells g" by simp
  obtain g1 where g1: "place_mark g k mover = Inr g1" "board_ok g1" "free_cells g1 = free_cells g - {k}"
    "calculate_session_victor g1 v1 v2 = Inr
      (if has_line g1 mover then sint mover else if full_board g1 then -1 else -2)"
    "\<not> has_line g1 (if mover \<noteq> v1 then v1 else v2)"
    using one_move [OF Cons.prems(1-3) k] by blast
  show ?case
  proof (cases "has_line g1 mover \<or> full_board g1")
    case True
    moreover have "sint v1 \<noteq> -2" "sint v2 \<noteq> -2" using Cons.prems(2) by (auto simp: rivals_def)
    ultimately show ?thesis using g1 Cons.prems(3) by (auto simp: Let_def split: if_splits)
  next
    case False
    let ?next = "if mover \<noteq> v1 then v1 else v2"
    have r1: "running v1 v2 g1" using False g1(2,5) Cons.prems(3) by (auto simp: running_def split: if_splits)
    have "?next = v1 \<or> ?next = v2" "distinct ks" "set ks \<subseteq> free_cells g1"
      using Cons.prems(4,5) g1(3) by auto
    from Cons.IH [OF r1 Cons.prems(2) this] obtain status g' nxt where g': "game v1 v2 ?next g1 ks = Inr (status, g', nxt)" "board_ok g'"
      "\<not> (has_line g' v1 \<and> has_line g' v2)"
      "status = (if has_line g' v1 then sint v1 else if has_line g' v2 then sint v2
              else if ks \<noteq> [] \<and> full_board g' then -1 else -2)"
      "status = -2 \<longrightarrow> free_cells g' = free_cells g1 - set ks"
      by (elim exE conjE) (rule that)
    have run: "game v1 v2 mover g (k # ks) = Inr (status, g', nxt)"
      using g1(1,4) False g'(1) by (simp add: Let_def)
    have last: "ks = [] \<Longrightarrow> \<not> full_board g'" using g'(1) False by auto
    show ?thesis
    proof (intro exI conjI)
      show "status = (if has_line g' v1 then sint v1 else if has_line g' v2 then sint v2
          else if k # ks \<noteq> [] \<and> full_board g' then -1 else -2)"
        using g'(4) last by (cases "ks = []") simp_all
      show "status = -2 \<longrightarrow> free_cells g' = free_cells g - set (k # ks)"
        using g'(5) g1(3) by auto
    qed (fact run g'(2,3))+
  qed
qed

text \<open>
  C6. A game on free cells, from the blank board: it never faults, never has two winners; the status is
  the socket of the player who has three in a line exactly when there is one, -1 exactly on a full
  board without a line; and nine moves always end it.
\<close>

theorem game_outcome:
  assumes "rivals v1 v2" "mover = v1 \<or> mover = v2" "distinct ks" "set ks \<subseteq> {1..9}"
  shows "\<exists>status g' next. game v1 v2 mover blank_board ks = Inr (status, g', next) \<and>
    (status = sint v1) = has_line g' v1 \<and> (status = sint v2) = has_line g' v2 \<and>
    (status = -1) = (full_board g' \<and> \<not> has_line g' v1 \<and> \<not> has_line g' v2) \<and>
    \<not> (has_line g' v1 \<and> has_line g' v2) \<and> (length ks = 9 \<longrightarrow> status \<noteq> -2)"
proof -
  have "\<not> has_line blank_board v" if "v \<noteq> 0" for v
    using that by (simp add: has_line_def lines_def row_lines_def column_lines_def diagonal_lines_def
        owns_def content_def blank_board_def)
  then have run: "running v1 v2 blank_board" using rivals_nonzero [OF assms(1)] by (simp add: running_def)
  obtain status g' nxt where g: "game v1 v2 mover blank_board ks = Inr (status, g', nxt)"
    "\<not> (has_line g' v1 \<and> has_line g' v2)"
    "status = (if has_line g' v1 then sint v1 else if has_line g' v2 then sint v2
              else if ks \<noteq> [] \<and> full_board g' then -1 else -2)"
    "status = -2 \<longrightarrow> free_cells g' = {1..9} - set ks"
    using game_spec [OF run assms(1,2,3)] assms(4) by (auto simp: free_cells_blank)
  have pos: "0 < sint v1" "0 < sint v2" "sint v1 \<noteq> sint v2"
    using assms(1) signed_word_eqI [of v1 v2] by (auto simp: rivals_def)
  have nofull: "ks = [] \<Longrightarrow> \<not> full_board g'" using g(1) full_board_cells free_cells_blank by auto
  have "status \<noteq> -2" if nine: "length ks = 9"
  proof
    assume s: "status = -2"
    have "card (set ks) = card {1..9 :: int}" using nine assms(3) by (simp add: distinct_card)
    then have "set ks = {1..9}" using assms(4) by (intro card_subset_eq) simp_all
    then have "full_board g'" using g(4) s full_board_cells by simp
    then show False using s g(3) pos nine by (auto split: if_splits)
  qed
  moreover from this have "(status = sint v1) = has_line g' v1" "(status = sint v2) = has_line g' v2"
    "(status = -1) = (full_board g' \<and> \<not> has_line g' v1 \<and> \<not> has_line g' v2)"
    using g(2,3) pos nofull by (auto split: if_splits)
  ultimately show ?thesis using g(1,2) by blast
qed

theorem game_outcome_witness:
  "\<exists>g' next. game 4 5 4 blank_board [1, 2, 5, 3, 9] = Inr (4, g', next) \<and> has_line g' 4 \<and> \<not> has_line g' 5"
proof -
  have "case game 4 5 4 blank_board [1, 2, 5, 3, 9] of Inl _ \<Rightarrow> False | Inr (status, _, _) \<Rightarrow> status = 4" by code_simp
  then obtain g' nxt where g: "game 4 5 4 blank_board [1, 2, 5, 3, 9] = Inr (4, g', nxt)"
    by (auto split: sum.splits)
  moreover have "rivals 4 5" by (simp add: rivals_def)
  ultimately show ?thesis using game_outcome [of 4 5 4 "[1, 2, 5, 3, 9]"] by auto
qed

end
