(* ===== verification/Server_State.thy ===== *)
theory Server_State
  imports Registry IdPool Stream_IO Grid
begin

text \<open>
  The state the handlers of \<^verbatim>\<open>server.c\<close> work on, seen from one client thread: the two registries and
  the identifier pool, the heap of \<^verbatim>\<open>PlayerNode\<close> and \<^verbatim>\<open>MatchSession\<close> structs behind the registered
  pointers, what each socket will still deliver, the thread's \<^verbatim>\<open>errno\<close>, and the trace of sends.

  The environment is part of the state as scripts: the addresses \<^verbatim>\<open>malloc\<close> will give to structs (0 for
  a refusal), whether other allocations and system requests are granted (granted once the list is
  used up), the numbers \<^verbatim>\<open>rand\<close> will return, the readings of the clock, the bytes found in
  uninitialised variables, and the sockets whose peer has reset the connection, on which a send ends
  the process (\<^verbatim>\<open>SIGPIPE\<close> is not handled).

  A struct of the C program is a record here; a boolean lock of a node is a \<open>mutex\<close>. Locking a lock
  that is not free is the fault \<open>Relock\<close>: undefined when the thread holds it itself, a wait for
  another thread otherwise, which a single thread's run does not follow.
\<close>

section \<open>State\<close>

record player_node =
  timeoutTicks :: u16
  socketDescriptor :: u32
  streamLock :: mutex
  identityMoniker :: "byte list option"
  activeSessionId :: int

record match_session =
  currentState :: MatchSessionState
  activeTurnIdx :: u32
  participantSecondary :: u64
  gridMatrix :: "grid option"
  sessionId :: u16
  participantPrimary :: u64

record server =
  activePlayerNodes :: dyn_array
  activeMatchSessions :: dyn_array
  identifiers :: id_pool
  nodes :: "u64 \<Rightarrow> player_node option"
  sessions :: "u64 \<Rightarrow> match_session option"
  channels :: "u32 \<Rightarrow> recv_event list"
  errno :: int
  sent :: "(u32 \<times> byte list) list"
  closed :: "u32 list"
  struct_addresses :: "u64 list"
  memory_grants :: "bool list"
  randoms :: "int list"
  stack_junk :: "nat \<Rightarrow> byte"
  reset_peers :: "u32 list"
  clock :: "int list"
  global_listen_descriptor :: int

section \<open>Heap\<close>

definition get_node :: "u64 \<Rightarrow> (server, player_node) cmd" where
  "get_node p s =
     (if p = NULL then Fault Null_Deref
      else case nodes s p of None \<Rightarrow> Fault Use_After_Free | Some n \<Rightarrow> Done n s)"

definition set_node :: "u64 \<Rightarrow> (player_node \<Rightarrow> player_node) \<Rightarrow> (server, unit) cmd" where
  "set_node p f = andThen (get_node p) (\<lambda>n s. Done () (s\<lparr>nodes := (nodes s)(p \<mapsto> f n)\<rparr>))"

definition free_node :: "u64 \<Rightarrow> (server, unit) cmd" where
  "free_node p s =
     (if nodes s p = None then Fault Bad_Free else Done () (s\<lparr>nodes := (nodes s)(p := None)\<rparr>))"

definition get_session :: "u64 \<Rightarrow> (server, match_session) cmd" where
  "get_session p s =
     (if p = NULL then Fault Null_Deref
      else case sessions s p of None \<Rightarrow> Fault Use_After_Free | Some m \<Rightarrow> Done m s)"

definition set_session :: "u64 \<Rightarrow> (match_session \<Rightarrow> match_session) \<Rightarrow> (server, unit) cmd" where
  "set_session p f = andThen (get_session p) (\<lambda>m s. Done () (s\<lparr>sessions := (sessions s)(p \<mapsto> f m)\<rparr>))"

definition free_session :: "u64 \<Rightarrow> (server, unit) cmd" where
  "free_session p s =
     (if sessions s p = None then Fault Bad_Free else Done () (s\<lparr>sessions := (sessions s)(p := None)\<rparr>))"

text \<open>
  \<^verbatim>\<open>malloc\<close> of a struct: the next address of the script, NULL when refused or when the script is used
  up. The allocator never gives out the address of a live block; an entry that is one counts as a
  refusal.
\<close>

definition malloc_struct :: "(server, u64) cmd" where
  "malloc_struct s =
     (case struct_addresses s of
        [] \<Rightarrow> Done NULL s
      | p # ps \<Rightarrow> Done (if nodes s p = None \<and> sessions s p = None then p else NULL) (s\<lparr>struct_addresses := ps\<rparr>))"

text \<open>
  \<^verbatim>\<open>malloc\<close> of a buffer: whether it is granted. More than \<^verbatim>\<open>PTRDIFF_MAX\<close> bytes never are.
\<close>

definition malloc_buffer :: "u64 \<Rightarrow> (server, bool) cmd" where
  "malloc_buffer amount s =
     (let (ok, gs) = take_grant (memory_grants s) in
      Done (ok \<and> amount \<le> 9223372036854775807) (s\<lparr>memory_grants := gs\<rparr>))"

text \<open>Any other request that the system or a library may refuse.\<close>

definition system_grant :: "(server, bool) cmd" where
  "system_grant s = (let (b, gs) = take_grant (memory_grants s) in Done b (s\<lparr>memory_grants := gs\<rparr>))"

text \<open>The monotonic clock, in nanoseconds.\<close>

definition read_clock :: "(server, int) cmd" where
  "read_clock s = (case clock s of [] \<Rightarrow> Done 0 s | t # ts \<Rightarrow> Done t (s\<lparr>clock := ts\<rparr>))"

section \<open>Sockets\<close>

definition send_bytes :: "u32 \<Rightarrow> byte list \<Rightarrow> (server, unit) cmd" where
  "send_bytes fd bs s =
     (if fd \<in> set (reset_peers s) then Halted s else Done () (s\<lparr>sent := sent s @ [(fd, bs)]\<rparr>))"

definition close_socket :: "u32 \<Rightarrow> (server, unit) cmd" where
  "close_socket fd = modify (\<lambda>s. s\<lparr>closed := closed s @ [fd]\<rparr>)"

text \<open>An exact read of \<open>n\<close> bytes, with its return code and the bytes that reached the buffer.\<close>

definition receive :: "u32 \<Rightarrow> nat \<Rightarrow> (server, int \<times> byte list) cmd" where
  "receive fd n s =
     (case consumeExactBytesFromStream n [] (channels s fd, errno s) of
        (r, (es, err)) \<Rightarrow> Done r (s\<lparr>channels := (channels s)(fd := es), errno := err\<rparr>))"

text \<open>The contents of an uninitialised \<open>n\<close> byte variable after a read that got \<open>bs\<close>.\<close>

definition filled :: "nat \<Rightarrow> byte list \<Rightarrow> server \<Rightarrow> byte list" where
  "filled n bs s = bs @ map (stack_junk s) [length bs..<n]"

text \<open>A read into a heap buffer of \<open>cap\<close> bytes; more bytes than it holds overrun it.\<close>

definition receive_into :: "u64 \<Rightarrow> u32 \<Rightarrow> u64 \<Rightarrow> (server, int \<times> byte list) cmd" where
  "receive_into cap fd n = andThen (receive fd (unat n)) (\<lambda>(rc, bs).
     if unat cap < length bs then raise Out_Of_Bounds else ret (rc, bs))"

section \<open>Registries\<close>

text \<open>An allocator that answers the one request of a store operation.\<close>

definition one_grant :: "bool \<Rightarrow> allocator" where
  "one_grant b = \<lparr>grants = (\<lambda>_. b), junk = (\<lambda>_. 0)\<rparr>"

definition with_grant :: "(allocator \<Rightarrow> (server, 'a) cmd) \<Rightarrow> (server, 'a) cmd" where
  "with_grant f s = (let (b, gs) = take_grant (memory_grants s) in f (one_grant b) (s\<lparr>memory_grants := gs\<rparr>))"

definition on_sessions :: "(dyn_array option \<times> server, 'a) cmd \<Rightarrow> (server, 'a) cmd" where
  "on_sessions m s =
     (case m (Some (activeMatchSessions s), s) of
        Done a (st, t) \<Rightarrow> Done a (t\<lparr>activeMatchSessions := the st\<rparr>)
      | Exited (st, t) \<Rightarrow> Exited (t\<lparr>activeMatchSessions := the st\<rparr>)
      | Halted (st, t) \<Rightarrow> Halted (t\<lparr>activeMatchSessions := the st\<rparr>)
      | Fault f \<Rightarrow> Fault f)"

definition on_players :: "(dyn_array option \<times> server, 'a) cmd \<Rightarrow> (server, 'a) cmd" where
  "on_players m s =
     (case m (Some (activePlayerNodes s), s) of
        Done a (st, t) \<Rightarrow> Done a (t\<lparr>activePlayerNodes := the st\<rparr>)
      | Exited (st, t) \<Rightarrow> Exited (t\<lparr>activePlayerNodes := the st\<rparr>)
      | Halted (st, t) \<Rightarrow> Halted (t\<lparr>activePlayerNodes := the st\<rparr>)
      | Fault f \<Rightarrow> Fault f)"

text \<open>A fetch into a pointer variable that was NULL before: its return code and the pointer.\<close>

definition fetch_session :: "nat \<Rightarrow> (server, int \<times> u64) cmd" where
  "fetch_session k =
     andThen (on_sessions (on_fst (fetch_from_offset (word_of_nat k) True))) (\<lambda>(rc, bs).
     ret (rc, case bs of None \<Rightarrow> NULL | Some bs \<Rightarrow> bytes_ptr bs))"

definition fetch_player :: "nat \<Rightarrow> (server, int \<times> u64) cmd" where
  "fetch_player k =
     andThen (on_players (on_fst (fetch_from_offset (word_of_nat k) True))) (\<lambda>(rc, bs).
     ret (rc, case bs of None \<Rightarrow> NULL | Some bs \<Rightarrow> bytes_ptr bs))"

text \<open>The pool routines on the server's pool.\<close>

definition on_pool :: "(id_pool, 'a) cmd \<Rightarrow> (server, 'a) cmd" where
  "on_pool m s =
     (case m (identifiers s) of
        Done a t \<Rightarrow> Done a (s\<lparr>identifiers := t\<rparr>)
      | Exited t \<Rightarrow> Exited (s\<lparr>identifiers := t\<rparr>)
      | Halted t \<Rightarrow> Halted (s\<lparr>identifiers := t\<rparr>)
      | Fault f \<Rightarrow> Fault f)"

section \<open>Locks\<close>

definition lock_stream :: "u64 \<Rightarrow> (server, unit) cmd" where
  "lock_stream p = andThen (get_node p) (\<lambda>n.
     case streamLock n of
       Unlocked \<Rightarrow> set_node p (\<lambda>n. n\<lparr>streamLock := Locked\<rparr>)
     | Locked \<Rightarrow> raise Relock
     | Dead \<Rightarrow> raise Dead_Mutex)"

definition unlock_stream :: "u64 \<Rightarrow> (server, unit) cmd" where
  "unlock_stream p = set_node p (\<lambda>n. if streamLock n = Locked then n\<lparr>streamLock := Unlocked\<rparr> else n)"

definition destroy_lock :: "u64 \<Rightarrow> (server, unit) cmd" where
  "destroy_lock p = andThen (get_node p) (\<lambda>n.
     case streamLock n of
       Unlocked \<Rightarrow> set_node p (\<lambda>n. n\<lparr>streamLock := Dead\<rparr>)
     | Locked \<Rightarrow> raise Held_Mutex
     | Dead \<Rightarrow> raise Dead_Mutex)"

section \<open>Destroying structs\<close>

text \<open>A context is the address of a descriptor, or NULL.\<close>

definition purgePlayerNodeContext :: "int option \<Rightarrow> (server, unit) cmd" where
  "purgePlayerNodeContext context =
     (case context of None \<Rightarrow> ret () | Some fd \<Rightarrow> if fd > 0 then close_socket (word_of_int fd) else ret ())"

definition deallocateGridMatrixBuffer :: "u64 \<Rightarrow> (server, unit) cmd" where
  "deallocateGridMatrixBuffer p = set_session p (\<lambda>m. m\<lparr>gridMatrix := None\<rparr>)"

text \<open>The hooks get the address of a slot: the pointer in it, and what the slot holds afterwards.\<close>

definition destroyMatchSessionInstance :: "byte list \<Rightarrow> (server, byte list) cmd" where
  "destroyMatchSessionInstance slot =
     (let session = bytes_ptr slot in
      if session = NULL then ret slot
      else
        andThen (deallocateGridMatrixBuffer session) (\<lambda>_.
        andThen (set_session session (\<lambda>m. m\<lparr>participantPrimary := NULL, participantSecondary := NULL\<rparr>)) (\<lambda>_.
        andThen (free_session session) (\<lambda>_. ret (ptr_bytes NULL)))))"

definition destroyPlayerNodeInstance :: "byte list \<Rightarrow> (server, byte list) cmd" where
  "destroyPlayerNodeInstance slot =
     (let node = bytes_ptr slot in
      if node = NULL then ret slot
      else
        andThen (set_node node (\<lambda>n. n\<lparr>identityMoniker := None\<rparr>)) (\<lambda>_.
        andThen (destroy_lock node) (\<lambda>_.
        andThen (free_node node) (\<lambda>_. ret slot))))"

section \<open>Diagnostics\<close>

text \<open>The dumps print; what is kept of them is what they dereference.\<close>

definition dumpPlayerNodeDiagnostics :: "u64 \<Rightarrow> (server, unit) cmd" where
  "dumpPlayerNodeDiagnostics p = (if p = NULL then ret () else andThen (get_node p) (\<lambda>_. ret ()))"

definition dumpMatchSessionDiagnostics :: "u64 \<Rightarrow> (server, unit) cmd" where
  "dumpMatchSessionDiagnostics p =
     (if p = NULL then ret ()
      else
        andThen (get_session p) (\<lambda>m.
        andThen (dumpPlayerNodeDiagnostics (participantPrimary m)) (\<lambda>_.
        andThen (dumpPlayerNodeDiagnostics (participantSecondary m)) (\<lambda>_.
        case gridMatrix m of
          None \<Rightarrow> ret ()
        | Some g \<Rightarrow> for_each [0..<3 :: nat] (\<lambda>r. for_each [0..<3 :: nat] (\<lambda>c.
            andThen (checked (grid_read g (int r) (int c))) (\<lambda>_. ret ())))))))"

text \<open>
  The loops \<^verbatim>\<open>for (int k = 0; k < store.allocated_slots; ++k)\<close>: the bound is read again before each
  round, and a body can only lower it.
\<close>

fun scan_sessions :: "nat list \<Rightarrow> (nat \<Rightarrow> (server, unit) cmd) \<Rightarrow> (server, unit) cmd" where
  "scan_sessions [] body = ret ()"
| "scan_sessions (k # ks) body =
     andThen (gets (\<lambda>s. k < unat (allocated_slots (activeMatchSessions s)))) (\<lambda>more.
     if more then andThen (body k) (\<lambda>_. scan_sessions ks body) else ret ())"

definition for_sessions :: "(nat \<Rightarrow> (server, unit) cmd) \<Rightarrow> (server, unit) cmd" where
  "for_sessions body =
     andThen (gets (\<lambda>s. unat (allocated_slots (activeMatchSessions s)))) (\<lambda>n. scan_sessions [0..<n] body)"

definition dump_registry :: "(server, unit) cmd" where
  "dump_registry = for_sessions (\<lambda>k.
     andThen (fetch_session k) (\<lambda>(_, p). if p \<noteq> NULL then dumpMatchSessionDiagnostics p else ret ()))"

section \<open>What the primitives leave alone\<close>

lemma keeps_get [intro!, keeps_rules]: "keeps P (get_node p)" "keeps P (get_session p)"
  by (auto simp: keeps_def get_node_def get_session_def split: option.splits)

lemma keeps_set_node [keeps_rules]:
  assumes "\<And>s n. P s \<Longrightarrow> nodes s p = Some n \<Longrightarrow> P (s\<lparr>nodes := (nodes s)(p \<mapsto> f n)\<rparr>)"
  shows "keeps P (set_node p f)"
  using assms by (auto simp: keeps_def set_node_def get_node_def andThen_def split: option.splits)

lemma keeps_destroy_lock:
  assumes "keeps P (set_node p (\<lambda>n. n\<lparr>streamLock := Dead\<rparr>))"
  shows "keeps P (destroy_lock p)"
  unfolding destroy_lock_def
  using assms by (intro keeps_andThen keeps_get) (simp_all add: keeps_def raise_def split: mutex.split)

lemma keeps_set_session [keeps_rules]:
  assumes "\<And>s m. P s \<Longrightarrow> sessions s p = Some m \<Longrightarrow> P (s\<lparr>sessions := (sessions s)(p \<mapsto> f m)\<rparr>)"
  shows "keeps P (set_session p f)"
  using assms by (auto simp: keeps_def set_session_def get_session_def andThen_def split: option.splits)

lemma keeps_free [keeps_rules]:
  "(\<And>s. P s \<Longrightarrow> P (s\<lparr>nodes := (nodes s)(p := None)\<rparr>)) \<Longrightarrow> keeps P (free_node p)"
  "(\<And>s. P s \<Longrightarrow> P (s\<lparr>sessions := (sessions s)(p := None)\<rparr>)) \<Longrightarrow> keeps P (free_session p)"
  by (auto simp: keeps_def free_node_def free_session_def)

lemma keeps_send [keeps_rules]:
  "(\<And>s. P s \<Longrightarrow> P (s\<lparr>sent := sent s @ [(fd, bs)]\<rparr>)) \<Longrightarrow> keeps P (send_bytes fd bs)"
  by (auto simp: keeps_def send_bytes_def)

lemma keeps_receive [keeps_rules]:
  "(\<And>s es e. P s \<Longrightarrow> P (s\<lparr>channels := (channels s)(fd := es), errno := e\<rparr>)) \<Longrightarrow> keeps P (receive fd n)"
  by (auto simp: keeps_def receive_def split: prod.splits)

lemma keeps_dumpPlayer [keeps_rules]: "keeps P (dumpPlayerNodeDiagnostics p)"
  unfolding dumpPlayerNodeDiagnostics_def by (intro keeps_rules)

lemma keeps_dumpSession [keeps_rules]: "keeps P (dumpMatchSessionDiagnostics p)"
  unfolding dumpMatchSessionDiagnostics_def by (intro keeps_rules)

end
