(* ===== verification/Match.thy ===== *)
theory Match
  imports Server_State
begin

text \<open>
  A match between two nodes: \<^verbatim>\<open>execute_core_loop\<close> with the rematch poll, in the phases of the code. One
  round of the inner loop is \<open>one_move\<close>; the loop itself terminates because every round that goes on
  takes four bytes off one of the sockets. The two polling threads of \<^verbatim>\<open>invoke_rematch\<close> work on
  different sockets and are joined at once, so they run one after the other here, each with a fresh
  \<^verbatim>\<open>errno\<close>; that the threads can be created is assumed.
\<close>

section \<open>One move\<close>

definition dispatch_active_node :: "u64 \<Rightarrow> u64 \<Rightarrow> u32 \<Rightarrow> (server, u64) cmd" where
  "dispatch_active_node nodeA nodeB current_turn_marker =
     andThen (get_node nodeA) (\<lambda>a.
     if current_turn_marker \<noteq> socketDescriptor a then ret nodeA else ret nodeB)"

definition the_grid :: "match_session \<Rightarrow> (server, grid) cmd" where
  "the_grid m = (case gridMatrix m of None \<Rightarrow> raise Null_Deref | Some g \<Rightarrow> ret g)"

text \<open>The socket of a participant of a session, both pointers followed anew.\<close>

definition primary_socket :: "u64 \<Rightarrow> (server, u32) cmd" where
  "primary_socket ms = andThen (get_session ms) (\<lambda>m. andThen (get_node (participantPrimary m)) (\<lambda>n. ret (socketDescriptor n)))"

definition secondary_socket :: "u64 \<Rightarrow> (server, u32) cmd" where
  "secondary_socket ms = andThen (get_session ms) (\<lambda>m. andThen (get_node (participantSecondary m)) (\<lambda>n. ret (socketDescriptor n)))"

text \<open>
  The body of the inner loop, in two halves: what follows a successful read, and the read. The value
  is \<^verbatim>\<open>bytes_fetched\<close>, \<^verbatim>\<open>core_status\<close> and \<^verbatim>\<open>acting_node\<close> at its end; a failed read leaves through the
  \<^verbatim>\<open>break\<close>, with the status still -2.
\<close>

definition apply_move :: "u64 \<Rightarrow> player_node \<Rightarrow> int \<Rightarrow> (server, int \<times> u64) cmd" where
  "apply_move ms acting decoded_cell =
     andThen (get_session ms) (\<lambda>m.
     andThen (the_grid m) (\<lambda>g.
     andThen (checked (place_mark g decoded_cell (socketDescriptor acting))) (\<lambda>g'.
     andThen (set_session ms (\<lambda>m. m\<lparr>gridMatrix := Some g'\<rparr>)) (\<lambda>_.
     andThen (dispatch_active_node (participantPrimary m) (participantSecondary m) (socketDescriptor acting)) (\<lambda>acting_node'.
     andThen (get_node acting_node') (\<lambda>acting'.
     andThen (set_session ms (\<lambda>m. m\<lparr>activeTurnIdx := socketDescriptor acting'\<rparr>)) (\<lambda>_.
     andThen (send_bytes (socketDescriptor acting') (net32 (word_of_int decoded_cell))) (\<lambda>_.
     andThen (primary_socket ms) (\<lambda>fd1.
     andThen (secondary_socket ms) (\<lambda>fd2.
     andThen (checked (calculate_session_victor g' fd1 fd2)) (\<lambda>core_status.
     andThen (send_bytes fd1 (net32 (word_of_int core_status))) (\<lambda>_.
     andThen (send_bytes fd2 (net32 (word_of_int core_status))) (\<lambda>_.
     andThen (dumpMatchSessionDiagnostics ms) (\<lambda>_.
     ret (core_status, acting_node')))))))))))))))"

definition one_move :: "u64 \<Rightarrow> u64 \<Rightarrow> (server, int \<times> int \<times> u64) cmd" where
  "one_move ms acting_node =
     andThen (get_node acting_node) (\<lambda>acting.
     andThen (receive (socketDescriptor acting) 4) (\<lambda>(bytes_fetched, incoming_move).
     if bytes_fetched \<le> 0 then ret (bytes_fetched, -2, acting_node)
     else andThen (apply_move ms acting (sint (host32 incoming_move))) (\<lambda>(core_status, acting_node').
          ret (bytes_fetched, core_status, acting_node'))))"

section \<open>The inner loop\<close>

text \<open>What all sockets will still deliver, as a number; a successful read lowers it.\<close>

definition inbox_weight :: "server \<Rightarrow> nat" where
  "inbox_weight s = (\<Sum>fd\<in>UNIV. script_weight (channels s fd))"

lemma inbox_weight_cong: "channels t = channels s \<Longrightarrow> inbox_weight t = inbox_weight s"
  by (simp add: inbox_weight_def)

lemma inbox_weight_less:
  assumes "channels t = (channels s)(fd := es)" "script_weight es < script_weight (channels s fd)"
  shows "inbox_weight t < inbox_weight s"
  unfolding inbox_weight_def using assms by (intro sum_strict_mono_ex1) (auto simp: less_imp_le)

lemma receive_weight:
  assumes "receive fd n s = Done (rc, bs) t" "0 < n" "0 < rc"
  shows "inbox_weight t < inbox_weight s"
proof -
  obtain es err where c: "consumeExactBytesFromStream n [] (channels s fd, errno s) = ((rc, bs), (es, err))"
    and t: "t = s\<lparr>channels := (channels s)(fd := es), errno := err\<rparr>"
    using assms(1) by (auto simp: receive_def split: prod.splits)
  have "script_weight es < script_weight (channels s fd)" using consume_weight [OF c] assms(2,3) by simp
  then show ?thesis using t by (intro inbox_weight_less [of t s fd es]) simp_all
qed

lemma keeps_dispatch [keeps_rules]: "keeps P (dispatch_active_node a b c)"
  unfolding dispatch_active_node_def by (intro keeps_rules)

lemma keeps_the_grid [keeps_rules]: "keeps P (the_grid m)"
  unfolding the_grid_def by (intro keeps_rules)

lemma keeps_sockets [keeps_rules]: "keeps P (primary_socket p)" "keeps P (secondary_socket p)"
  unfolding primary_socket_def secondary_socket_def by (intro keeps_rules)+

lemma keeps_apply_move:
  assumes "\<And>s x. P s \<Longrightarrow> P (s\<lparr>sessions := x\<rparr>)" "\<And>s x. P s \<Longrightarrow> P (s\<lparr>sent := x\<rparr>)"
  shows "keeps P (apply_move ms acting k)"
  unfolding apply_move_def by (intro keeps_rules assms)

lemma one_move_weight:
  assumes "one_move ms p s = Done (bytes, status, p') t" "0 < bytes"
  shows "inbox_weight t < inbox_weight s"
proof -
  obtain n where n: "nodes s p = Some n" "get_node p s = Done n s"
    using assms(1) by (auto simp: one_move_def get_node_def andThen_def split: option.splits if_splits)
  obtain rc bs es err where
    "consumeExactBytesFromStream 4 [] (channels s (socketDescriptor n), errno s) = ((rc, bs), (es, err))"
    by (metis prod.exhaust)
  then obtain u where r: "receive (socketDescriptor n) 4 s = Done (rc, bs) u" by (simp add: receive_def)
  then have pos: "\<not> rc \<le> 0"
    using assms n(2) by (auto simp: one_move_def andThen_def ret_def split: if_splits)
  then have "andThen (apply_move ms n (sint (host32 bs))) (\<lambda>(st, q). ret (rc, st, q)) u = Done (bytes, status, p') t"
    using assms(1) n(2) r by (simp add: one_move_def andThen_def)
  then have "bytes = rc" "apply_move ms n (sint (host32 bs)) u = Done (status, p') t"
    by (auto simp: andThen_def ret_def split: outcome.splits)
  moreover have "keeps (\<lambda>t. channels t = channels u) (apply_move ms n (sint (host32 bs)))"
    by (rule keeps_apply_move) simp_all
  from keepsD [OF this refl] have "after (\<lambda>t. channels t = channels u) (apply_move ms n (sint (host32 bs)) u)" .
  ultimately have "channels t = channels u" by simp
  then have "inbox_weight t = inbox_weight u" by (rule inbox_weight_cong)
  then show ?thesis using receive_weight [OF r] pos by simp
qed

function move_loop :: "u64 \<Rightarrow> u64 \<Rightarrow> (server, int \<times> int \<times> u64) cmd" where
  "move_loop ms acting_node s =
     (case one_move ms acting_node s of
        Done (bytes_fetched, core_status, acting_node') t \<Rightarrow>
          if bytes_fetched \<le> 0 then Done (bytes_fetched, core_status, acting_node') t
          else if core_status = -2 then move_loop ms acting_node' t
          else Done (bytes_fetched, core_status, acting_node') t
      | Exited t \<Rightarrow> Exited t | Halted t \<Rightarrow> Halted t | Fault f \<Rightarrow> Fault f)"
  by pat_completeness auto
termination
  by (relation "measure (\<lambda>(ms, p, s). inbox_weight s)") (auto simp: not_le intro: one_move_weight)

declare move_loop.simps [simp del]

lemma move_loop_weight:
  "move_loop ms p s = Done (bytes, status, p') t \<Longrightarrow>
   0 < bytes \<Longrightarrow> inbox_weight t < inbox_weight s"
proof (induction ms p s rule: move_loop.induct)
  case (1 ms p s)
  show ?case
  proof (cases "one_move ms p s")
    case (Done r u)
    obtain b st q where r: "r = (b, st, q)" by (cases r)
    have w: "0 < b \<Longrightarrow> inbox_weight u < inbox_weight s" using one_move_weight Done r by blast
    show ?thesis
    proof (cases "\<not> b \<le> 0 \<and> st = -2")
      case True
      then have "move_loop ms q u = Done (bytes, status, p') t"
        using 1(2) Done r by (subst (asm) move_loop.simps) simp
      then have "inbox_weight t < inbox_weight u" using 1(1) [OF Done r [symmetric] refl _ _ _ 1(3)] True by simp
      then show ?thesis using w True by simp
    next
      case False
      then show ?thesis using 1(2,3) Done r w by (subst (asm) move_loop.simps) (auto split: if_splits)
    qed
  qed (use 1(2) in \<open>simp_all add: move_loop.simps\<close>)
qed

section \<open>Rounds and rematches\<close>

definition draw_random :: "(server, int) cmd" where
  "draw_random s = (case randoms s of [] \<Rightarrow> Done 0 s | r # rs \<Rightarrow> Done r (s\<lparr>randoms := rs\<rparr>))"

text \<open>The start of a round: who begins, told to both; the value is the first acting node.\<close>

definition start_round :: "u64 \<Rightarrow> (server, u64) cmd" where
  "start_round ms =
     andThen (primary_socket ms) (\<lambda>node1_sock.
     andThen (secondary_socket ms) (\<lambda>node2_sock.
     andThen draw_random (\<lambda>r.
     andThen (set_session ms (\<lambda>m. m\<lparr>activeTurnIdx := (if r smod 2 \<noteq> 0 then node2_sock else node1_sock),
       currentState := STATE_IN_PROGRESS\<rparr>)) (\<lambda>_.
     andThen (get_session ms) (\<lambda>m.
     andThen (send_bytes node1_sock (net32 (activeTurnIdx m))) (\<lambda>_.
     andThen (send_bytes node2_sock (net32 (activeTurnIdx m))) (\<lambda>_.
     ret (if activeTurnIdx m \<noteq> node1_sock then participantSecondary m else participantPrimary m))))))))"

text \<open>
  The verdict of one player. The variable read into is uninitialised, and after a failed read only a
  timeout is told apart, by \<^verbatim>\<open>errno\<close>; in every other case the variable is returned as it is.
\<close>

definition fetch_draw_verdict :: "u32 \<Rightarrow> (server, int) cmd" where
  "fetch_draw_verdict d_socket =
     andThen (receive d_socket 2) (\<lambda>(bytes_pulled, bs) s.
       Done (if bytes_pulled \<le> 0 \<and> (errno s = EWOULDBLOCK \<or> errno s = EAGAIN) then -1
             else uint (host16 (filled 2 bs s))) s)"

definition in_new_thread :: "(server, 'a) cmd \<Rightarrow> (server, 'a) cmd" where
  "in_new_thread m s =
     (case m (s\<lparr>errno := 0\<rparr>) of
        Done a t \<Rightarrow> Done a (t\<lparr>errno := errno s\<rparr>) | Exited t \<Rightarrow> Exited (t\<lparr>errno := errno s\<rparr>)
      | Halted t \<Rightarrow> Halted t | Fault f \<Rightarrow> Fault f)"

definition execute_rematch_polling :: "u32 \<Rightarrow> (server, int) cmd" where
  "execute_rematch_polling targetSocket = in_new_thread (fetch_draw_verdict targetSocket)"

definition net_code16 :: "NetworkOpcode \<Rightarrow> byte list" where
  "net_code16 x = net16 (word_of_int (opcode_value x))"

definition invoke_rematch :: "u64 \<Rightarrow> (server, int) cmd" where
  "invoke_rematch ms =
     andThen (primary_socket ms) (\<lambda>socket_a.
     andThen (secondary_socket ms) (\<lambda>socket_b.
     andThen (execute_rematch_polling socket_a) (\<lambda>outcome_a.
     andThen (execute_rematch_polling socket_b) (\<lambda>outcome_b.
     if outcome_a \<noteq> opcode_value OP_APPROVE_REQ \<or> outcome_b \<noteq> opcode_value OP_APPROVE_REQ then
       andThen (primary_socket ms) (\<lambda>fd1.
       andThen (send_bytes fd1 (net_code16 OP_DECLINE_REQ)) (\<lambda>_.
       andThen (secondary_socket ms) (\<lambda>fd2.
       andThen (send_bytes fd2 (net_code16 OP_DECLINE_REQ)) (\<lambda>_.
       andThen (set_session ms (\<lambda>m. m\<lparr>currentState := STATE_CONCLUDED\<rparr>)) (\<lambda>_.
       andThen (dumpMatchSessionDiagnostics ms) (\<lambda>_.
       ret 0))))))
     else
       andThen (set_session ms (\<lambda>m. m\<lparr>currentState := STATE_IN_PROGRESS\<rparr>)) (\<lambda>_.
       andThen (get_session ms) (\<lambda>m.
       andThen (checked (wipe_topological_grid (gridMatrix m))) (\<lambda>g.
       andThen (set_session ms (\<lambda>m. m\<lparr>gridMatrix := g\<rparr>)) (\<lambda>_.
       andThen (primary_socket ms) (\<lambda>fd1.
       andThen (send_bytes fd1 (net_code16 OP_APPROVE_REQ)) (\<lambda>_.
       andThen (secondary_socket ms) (\<lambda>fd2.
       andThen (send_bytes fd2 (net_code16 OP_APPROVE_REQ)) (\<lambda>_.
       ret 1))))))))))))"

definition end_round :: "u64 \<Rightarrow> int \<Rightarrow> (server, int) cmd" where
  "end_round ms bytes_fetched =
     andThen (primary_socket ms) (\<lambda>fd1.
     andThen (secondary_socket ms) (\<lambda>fd2.
     andThen (set_session ms (\<lambda>m. m\<lparr>activeTurnIdx :=
         word_of_int (dispatch_turn_marker (sint fd1) (sint fd2) (sint (activeTurnIdx m))),
       currentState := STATE_CONCLUDED\<rparr>)) (\<lambda>_.
     andThen (dumpMatchSessionDiagnostics ms) (\<lambda>_.
     if 0 < bytes_fetched then invoke_rematch ms else ret 0))))"

definition one_round :: "u64 \<Rightarrow> (server, int) cmd" where
  "one_round ms =
     andThen (start_round ms) (\<lambda>acting_node.
     andThen (move_loop ms acting_node) (\<lambda>(bytes_fetched, _, _).
     end_round ms bytes_fetched))"

lemma keeps_draw [keeps_rules]: "(\<And>s x. P s \<Longrightarrow> P (s\<lparr>randoms := x\<rparr>)) \<Longrightarrow> keeps P draw_random"
  by (auto simp: keeps_def draw_random_def split: list.splits)

lemma inbox_weight_updates [simp]:
  "inbox_weight (s\<lparr>nodes := a\<rparr>) = inbox_weight s" "inbox_weight (s\<lparr>sessions := b\<rparr>) = inbox_weight s"
  "inbox_weight (s\<lparr>sent := c\<rparr>) = inbox_weight s" "inbox_weight (s\<lparr>randoms := d\<rparr>) = inbox_weight s"
  "inbox_weight (s\<lparr>errno := e\<rparr>) = inbox_weight s"
  by (simp_all add: inbox_weight_def)

lemma keeps_weight_receive [keeps_rules]: "keeps (\<lambda>t. inbox_weight t \<le> w) (receive fd n)"
proof (rule keepsI)
  fix s assume w: "inbox_weight s \<le> w"
  obtain rc bs es err where c: "consumeExactBytesFromStream n [] (channels s fd, errno s) = ((rc, bs), (es, err))"
    by (metis prod.exhaust)
  then have "inbox_weight (s\<lparr>channels := (channels s)(fd := es), errno := err\<rparr>) \<le> inbox_weight s"
    using consume_weight [OF c] unfolding inbox_weight_def by (intro sum_mono) simp
  then show "after (\<lambda>t. inbox_weight t \<le> w) (receive fd n s)" using c w by (simp add: receive_def)
qed

lemma keeps_in_new_thread [keeps_rules]:
  assumes "\<And>s e. P s \<Longrightarrow> P (s\<lparr>errno := e\<rparr>)" "keeps P m"
  shows "keeps P (in_new_thread m)"
proof (rule keepsI)
  fix s assume "P s"
  then have "after P (m (s\<lparr>errno := 0\<rparr>))" using assms(1) by (intro keepsD [OF assms(2)])
  then show "after P (in_new_thread m s)"
    using assms(1) by (cases "m (s\<lparr>errno := 0\<rparr>)") (simp_all add: in_new_thread_def)
qed

lemma keeps_weight_verdict [keeps_rules]: "keeps (\<lambda>t. inbox_weight t \<le> w) (fetch_draw_verdict d)"
  unfolding fetch_draw_verdict_def by (intro keeps_rules) (simp add: keeps_def)

lemma keeps_weight_rematch [keeps_rules]: "keeps (\<lambda>t. inbox_weight t \<le> w) (invoke_rematch ms)"
  unfolding invoke_rematch_def execute_rematch_polling_def by (intro keeps_rules; simp)

lemma keeps_weight_ends [keeps_rules]:
  "keeps (\<lambda>t. inbox_weight t \<le> w) (start_round ms)" "keeps (\<lambda>t. inbox_weight t \<le> w) (end_round ms b)"
  unfolding start_round_def end_round_def by (intro keeps_rules; simp)+

lemma one_round_weight:
  assumes "one_round ms s = Done 1 t"
  shows "inbox_weight t < inbox_weight s"
proof -
  from assms obtain p s1 bytes st q s2 where r: "start_round ms s = Done p s1"
    "move_loop ms p s1 = Done (bytes, st, q) s2" "end_round ms bytes s2 = Done 1 t"
    by (auto simp: one_round_def andThen_eq_Done split: prod.splits)
  have "0 < bytes"
    using r(3) by (auto simp: end_round_def andThen_eq_Done ret_def split: if_splits)
  from move_loop_weight [OF r(2) this] have "inbox_weight s2 < inbox_weight s1" .
  moreover have "inbox_weight s1 \<le> inbox_weight s" using keeps_Done [OF keeps_weight_ends(1) r(1)] by simp
  moreover have "inbox_weight t \<le> inbox_weight s2" using keeps_Done [OF keeps_weight_ends(2) r(3)] by simp
  ultimately show ?thesis by simp
qed

function play_rounds :: "u64 \<Rightarrow> (server, unit) cmd" where
  "play_rounds ms s =
     (case one_round ms s of
        Done rematch_accepted t \<Rightarrow> if rematch_accepted = 1 then play_rounds ms t else Done () t
      | Exited t \<Rightarrow> Exited t | Halted t \<Rightarrow> Halted t | Fault f \<Rightarrow> Fault f)"
  by pat_completeness auto
termination
  by (relation "measure (\<lambda>(ms, s). inbox_weight s)") (auto intro: one_round_weight)

declare play_rounds.simps [simp del]

section \<open>The end of a match\<close>

text \<open>
  \<^verbatim>\<open>broadcast_session_state_update\<close> only prints: what is kept of it is what it dereferences and the
  allocations it makes.
\<close>

definition broadcast_session_state_update :: "(server, unit) cmd" where
  "broadcast_session_state_update =
     andThen system_grant (\<lambda>array_root.
     if \<not> array_root then ret ()
     else for_sessions (\<lambda>idx.
       andThen (fetch_session idx) (\<lambda>(rc, sess_ptr).
       if rc = 0 \<and> sess_ptr \<noteq> NULL then
         andThen system_grant (\<lambda>item_obj.
         if item_obj then
           andThen (get_session sess_ptr) (\<lambda>m.
           if participantPrimary m \<noteq> NULL then andThen (get_node (participantPrimary m)) (\<lambda>_. ret ()) else ret ())
         else ret ())
       else ret ())))"

definition finish_match :: "u64 \<Rightarrow> (server, unit) cmd" where
  "finish_match ms =
     andThen (get_session ms) (\<lambda>m.
     let n1 = participantPrimary m; n2 = participantSecondary m in
     andThen (set_node n1 (\<lambda>n. n\<lparr>activeSessionId := -1\<rparr>)) (\<lambda>_.
     andThen (set_node n2 (\<lambda>n. n\<lparr>activeSessionId := -1\<rparr>)) (\<lambda>_.
     andThen dump_registry (\<lambda>_.
     andThen (get_session ms) (\<lambda>m.
     let local_sess_id = uint (sessionId m) in
     andThen (with_grant (\<lambda>al. on_sessions (excise_at_offset al (word_of_int local_sess_id) (Some destroyMatchSessionInstance)))) (\<lambda>rc.
     andThen (if rc = 0 then on_pool (relinquishSessionIdentifier local_sess_id) else ret ()) (\<lambda>_.
     andThen dump_registry (\<lambda>_.
     andThen broadcast_session_state_update (\<lambda>_.
     andThen (unlock_stream n1) (\<lambda>_.
     unlock_stream n2))))))))))"

definition execute_core_loop :: "u64 \<Rightarrow> bool \<Rightarrow> (server, unit) cmd" where
  "execute_core_loop ms enforce_locking =
     andThen (if enforce_locking then
                andThen (get_session ms) (\<lambda>m.
                andThen (lock_stream (participantPrimary m)) (\<lambda>_.
                andThen (get_session ms) (\<lambda>m.
                lock_stream (participantSecondary m))))
              else ret ()) (\<lambda>_.
     andThen (play_rounds ms) (\<lambda>_.
     finish_match ms))"

end
