(* ===== verification/Match_Spec.thy ===== *)
theory Match_Spec
  imports Match
begin

text \<open>
  What a match does, in terms of the game of \<^verbatim>\<open>Grid\<close>: the server plays out the moves the two sockets
  deliver, relays each to the opponent and reports the status to both after each, and stops with the
  game's outcome.
\<close>

section \<open>A match under way\<close>

definition match_at :: "u64 \<Rightarrow> u64 \<Rightarrow> u64 \<Rightarrow> u32 \<Rightarrow> u32 \<Rightarrow> grid \<Rightarrow> server \<Rightarrow> bool" where
  "match_at ms p1 p2 v1 v2 g s \<longleftrightarrow>
     ms \<noteq> NULL \<and> p1 \<noteq> NULL \<and> p2 \<noteq> NULL \<and> v1 \<noteq> v2 \<and> board_ok g \<and>
     v1 \<notin> set (reset_peers s) \<and> v2 \<notin> set (reset_peers s) \<and>
     (case sessions s ms of None \<Rightarrow> False
      | Some m \<Rightarrow> participantPrimary m = p1 \<and> participantSecondary m = p2 \<and> gridMatrix m = Some g) \<and>
     map_option socketDescriptor (nodes s p1) = Some v1 \<and>
     map_option socketDescriptor (nodes s p2) = Some v2"

text \<open>What is left to read on each socket.\<close>

definition inbox :: "server \<Rightarrow> u32 \<Rightarrow> byte list" where
  "inbox s fd = pending (channels s fd)"

lemma inbox_updates [simp]:
  "inbox (s\<lparr>nodes := a\<rparr>) = inbox s" "inbox (s\<lparr>sessions := b\<rparr>) = inbox s" "inbox (s\<lparr>sent := c\<rparr>) = inbox s"
  "inbox (s\<lparr>errno := e\<rparr>) = inbox s" "inbox (s\<lparr>randoms := d\<rparr>) = inbox s"
  by (simp_all add: inbox_def fun_eq_iff)

lemma receive_exact:
  assumes "inbox s fd = bs @ rest" "length bs = n"
  shows "\<exists>t. receive fd n s = Done (int n, bs) t \<and> inbox t = (inbox s)(fd := rest) \<and>
    (\<exists>es e. t = s\<lparr>channels := (channels s)(fd := es), errno := e\<rparr>)"
proof -
  have "n \<le> length (pending (channels s fd))" using assms by (simp add: inbox_def)
  with consume_enough [of "[]" n "channels s fd" "errno s"] obtain es' err' where
    c: "consumeExactBytesFromStream n [] (channels s fd, errno s) = ((int n, take n (pending (channels s fd))), (es', err'))"
    "pending es' = drop n (pending (channels s fd))" by auto
  have "pending (channels s fd) = bs @ rest" using assms(1) by (simp add: inbox_def)
  then have "take n (pending (channels s fd)) = bs" "drop n (pending (channels s fd)) = rest" using assms(2) by auto
  with c show ?thesis
    by (auto simp: receive_def inbox_def fun_eq_iff)
qed

lemma dump_session_ok:
  assumes "match_at ms p1 p2 v1 v2 g s"
  shows "dumpMatchSessionDiagnostics ms s = Done () s"
proof -
  have "for_each [0..<3 :: nat] (\<lambda>r. for_each [0..<3 :: nat] (\<lambda>c.
      andThen (checked (grid_read g (int r) (int c))) (\<lambda>_. ret ()))) s = Done () s"
    using assms by (auto simp: match_at_def upt3 grid_read_def cmd_defs elim!: board_cases)
  then show ?thesis using assms
    by (auto simp: match_at_def dumpMatchSessionDiagnostics_def dumpPlayerNodeDiagnostics_def get_session_def
        get_node_def cmd_defs split: option.splits)
qed

text \<open>What the moves of a match may change: the two streams, the trace, the session's board and turn.\<close>

definition match_frame :: "u64 \<Rightarrow> server \<Rightarrow> server \<Rightarrow> bool" where
  "match_frame ms s t \<longleftrightarrow>
     (\<exists>ch e out m g turn. sessions s ms = Some m \<and> t = s\<lparr>channels := ch, errno := e, sent := out,
        sessions := (sessions s)(ms \<mapsto> m\<lparr>gridMatrix := g, activeTurnIdx := turn\<rparr>)\<rparr>)"

lemma match_frame_trans:
  assumes "match_frame ms s t" "match_frame ms t u"
  shows "match_frame ms s u"
proof -
  obtain ch e out m g turn where t: "sessions s ms = Some m" "t = s\<lparr>channels := ch, errno := e, sent := out,
      sessions := (sessions s)(ms \<mapsto> m\<lparr>gridMatrix := g, activeTurnIdx := turn\<rparr>)\<rparr>"
    using assms(1) by (auto simp: match_frame_def)
  obtain ch' e' out' m' g' turn' where u: "sessions t ms = Some m'" "u = t\<lparr>channels := ch', errno := e', sent := out',
      sessions := (sessions t)(ms \<mapsto> m'\<lparr>gridMatrix := g', activeTurnIdx := turn'\<rparr>)\<rparr>"
    using assms(2) by (auto simp: match_frame_def)
  have "m' = m\<lparr>gridMatrix := g, activeTurnIdx := turn\<rparr>" using t(2) u(1) by simp
  then have "u = s\<lparr>channels := ch', errno := e', sent := out',
      sessions := (sessions s)(ms \<mapsto> m\<lparr>gridMatrix := g', activeTurnIdx := turn'\<rparr>)\<rparr>"
    using t(2) u(2) by simp
  then show ?thesis using t(1) unfolding match_frame_def by blast
qed

text \<open>The node of a socket in a match.\<close>

abbreviation node_of :: "u64 \<Rightarrow> u64 \<Rightarrow> u32 \<Rightarrow> u32 \<Rightarrow> u64" where
  "node_of p1 p2 v1 v \<equiv> (if v = v1 then p1 else p2)"

lemma one_move_game:
  assumes m: "match_at ms p1 p2 v1 v2 g s" and mover: "mover = v1 \<or> mover = v2"
    and box: "inbox s mover = net32 (word_of_int k) @ rest" and k: "- (2 ^ 31) \<le> k" "k < 2 ^ 31"
    and place: "place_mark g k mover = Inr g'" "board_ok g'" and status: "calculate_session_victor g' v1 v2 = Inr status"
  defines "other \<equiv> (if mover \<noteq> v1 then v1 else v2)"
  shows "\<exists>t. one_move ms (node_of p1 p2 v1 mover) s = Done (4, status, node_of p1 p2 v1 other) t \<and>
    match_at ms p1 p2 v1 v2 g' t \<and> match_frame ms s t \<and> inbox t = (inbox s)(mover := rest) \<and>
    sent t = sent s @ [(other, net32 (word_of_int k)), (v1, net32 (word_of_int status)), (v2, net32 (word_of_int status))]"
proof -
  obtain m n1 n2 where o: "sessions s ms = Some m" "participantPrimary m = p1" "participantSecondary m = p2"
    "gridMatrix m = Some g" "nodes s p1 = Some n1" "socketDescriptor n1 = v1" "nodes s p2 = Some n2"
    "socketDescriptor n2 = v2" "v1 \<noteq> v2" "ms \<noteq> NULL" "p1 \<noteq> NULL" "p2 \<noteq> NULL"
    "v1 \<notin> set (reset_peers s)" "v2 \<notin> set (reset_peers s)"
    using m by (auto simp: match_at_def split: option.splits)
  define acting where "acting = (if mover = v1 then n1 else n2)"
  have act: "get_node (node_of p1 p2 v1 mover) s = Done acting s" "socketDescriptor acting = mover"
    using o mover by (auto simp: get_node_def acting_def)
  obtain s1 es e where rc: "receive mover 4 s = Done (4, net32 (word_of_int k)) s1"
    "inbox s1 = (inbox s)(mover := rest)" "s1 = s\<lparr>channels := (channels s)(mover := es), errno := e\<rparr>"
    using receive_exact [OF box, of 4] by auto
  let ?m = "m\<lparr>gridMatrix := Some g', activeTurnIdx := other\<rparr>"
  let ?t = "s1\<lparr>sessions := (sessions s1)(ms \<mapsto> ?m), sent := sent s @ [(other, net32 (word_of_int k)),
    (v1, net32 (word_of_int status)), (v2, net32 (word_of_int status))]\<rparr>"
  have mt: "match_at ms p1 p2 v1 v2 g' ?t" using o place(2) by (simp add: match_at_def rc(3))
  have sess: "get_session ms s1 = Done m s1" using o by (simp add: get_session_def rc(3))
  have "sint (host32 (net32 (word_of_int k))) = k"
    using k by (simp add: signed_of_int signed_take_bit_int_eq_self)
  moreover have "apply_move ms acting k s1 = Done (status, node_of p1 p2 v1 other) ?t"
    using o mover place(1) status dump_session_ok [OF mt] act(2)
    by (auto simp: apply_move_def cmd_defs sess the_grid_def set_session_def get_session_def get_node_def
        dispatch_active_node_def primary_socket_def secondary_socket_def send_bytes_def other_def rc(3))
  ultimately have "one_move ms (node_of p1 p2 v1 mover) s = Done (4, status, node_of p1 p2 v1 other) ?t"
    using act rc(1) by (simp add: one_move_def cmd_defs)
  moreover have "?t = s\<lparr>channels := (channels s)(mover := es), errno := e, sent := sent ?t,
      sessions := (sessions s)(ms \<mapsto> m\<lparr>gridMatrix := Some g', activeTurnIdx := other\<rparr>)\<rparr>"
    using rc(3) by simp
  with o(1) have "match_frame ms s ?t" unfolding match_frame_def by blast
  ultimately show ?thesis using mt rc(2) by auto
qed

section \<open>The whole loop\<close>

text \<open>The sockets deliver the moves, each player's on its own socket in turn.\<close>

fun feeds :: "u32 \<Rightarrow> u32 \<Rightarrow> u32 \<Rightarrow> int list \<Rightarrow> (u32 \<Rightarrow> byte list) \<Rightarrow> bool" where
  "feeds v1 v2 mover [] box = True"
| "feeds v1 v2 mover (k # ks) box =
     (take 4 (box mover) = net32 (word_of_int k) \<and>
      feeds v1 v2 (if mover \<noteq> v1 then v1 else v2) ks (box(mover := drop 4 (box mover))))"

text \<open>What the players are sent: each move to the opponent, then the status to both.\<close>

fun transcript :: "u32 \<Rightarrow> u32 \<Rightarrow> u32 \<Rightarrow> grid \<Rightarrow> int list \<Rightarrow> (u32 \<times> byte list) list" where
  "transcript v1 v2 mover g [] = []"
| "transcript v1 v2 mover g (k # ks) =
     (let other = (if mover \<noteq> v1 then v1 else v2) in
      case place_mark g k mover of
        Inl _ \<Rightarrow> []
      | Inr g' \<Rightarrow>
          (case calculate_session_victor g' v1 v2 of
             Inl _ \<Rightarrow> []
           | Inr status \<Rightarrow>
               [(other, net32 (word_of_int k)), (v1, net32 (word_of_int status)), (v2, net32 (word_of_int status))] @
               (if status = -2 then transcript v1 v2 other g' ks else [])))"

lemma place_mark_board_ok:
  assumes "board_ok g" "place_mark g k v = Inr g'"
  shows "board_ok g'"
  using assms
  by (auto simp: place_mark_def grid_write_def board_ok_def list_all_iff split: if_splits
      dest!: set_update_subset_insert [THEN subsetD])

text \<open>What is left on the streams when the game is over.\<close>

fun leftover :: "u32 \<Rightarrow> u32 \<Rightarrow> u32 \<Rightarrow> grid \<Rightarrow> int list \<Rightarrow> (u32 \<Rightarrow> byte list) \<Rightarrow> u32 \<Rightarrow> byte list" where
  "leftover v1 v2 mover g [] box = box"
| "leftover v1 v2 mover g (k # ks) box =
     (let box' = box(mover := drop 4 (box mover)) in
      case place_mark g k mover of
        Inl _ \<Rightarrow> box
      | Inr g' \<Rightarrow>
          (case calculate_session_victor g' v1 v2 of
             Inl _ \<Rightarrow> box
           | Inr status \<Rightarrow> if status = -2 then leftover v1 v2 (if mover \<noteq> v1 then v1 else v2) g' ks box' else box'))"

lemma move_loop_game:
  assumes "match_at ms p1 p2 v1 v2 g s" "mover = v1 \<or> mover = v2" "feeds v1 v2 mover ks (inbox s)"
    and "\<forall>k\<in>set ks. - (2 ^ 31) \<le> k \<and> k < 2 ^ 31"
    and "game v1 v2 mover g ks = Inr (status, g', nxt)" "status \<noteq> -2"
  shows "\<exists>t. move_loop ms (node_of p1 p2 v1 mover) s = Done (4, status, node_of p1 p2 v1 nxt) t \<and>
    match_at ms p1 p2 v1 v2 g' t \<and> match_frame ms s t \<and> sent t = sent s @ transcript v1 v2 mover g ks \<and>
    inbox t = leftover v1 v2 mover g ks (inbox s)"
  using assms
proof (induction ks arbitrary: s g mover)
  case (Cons k ks)
  let ?other = "if mover \<noteq> v1 then v1 else v2"
  obtain g1 where place: "place_mark g k mover = Inr g1"
    using Cons.prems(5) by (auto split: sum.splits)
  obtain st where st: "calculate_session_victor g1 v1 v2 = Inr st"
    using Cons.prems(5) place by (auto simp: Let_def split: sum.splits)
  have ok: "board_ok g1" using Cons.prems(1) place place_mark_board_ok by (auto simp: match_at_def)
  let ?rest = "drop 4 (inbox s mover)"
  have box: "inbox s mover = net32 (word_of_int k) @ ?rest"
    using Cons.prems(3) append_take_drop_id [of 4 "inbox s mover"] by simp
  have kr: "- (2 ^ 31) \<le> k" "k < 2 ^ 31" using Cons.prems(4) by simp_all
  from one_move_game [OF Cons.prems(1,2) box kr place ok st] obtain u where
    u: "one_move ms (node_of p1 p2 v1 mover) s = Done (4, st, node_of p1 p2 v1 ?other) u"
    "match_at ms p1 p2 v1 v2 g1 u" "match_frame ms s u" "inbox u = (inbox s)(mover := ?rest)"
    "sent u = sent s @ [(?other, net32 (word_of_int k)), (v1, net32 (word_of_int st)), (v2, net32 (word_of_int st))]"
    by blast
  show ?case
  proof (cases "st = -2")
    case False
    then have "status = st" "g' = g1" "nxt = ?other" using Cons.prems(5) place st by (simp_all add: Let_def)
    then show ?thesis using u False place st by (subst move_loop.simps) (simp add: Let_def)
  next
    case True
    have "game v1 v2 ?other g1 ks = Inr (status, g', nxt)"
      using Cons.prems(5) place st True by (simp add: Let_def)
    moreover have "feeds v1 v2 ?other ks (inbox u)" using Cons.prems(3) u(4) by simp
    moreover have "?other = v1 \<or> ?other = v2" by simp
    moreover have "\<forall>k\<in>set ks. - (2 ^ 31) \<le> k \<and> k < 2 ^ 31" using Cons.prems(4) by simp
    ultimately obtain t where "move_loop ms (node_of p1 p2 v1 ?other) u = Done (4, status, node_of p1 p2 v1 nxt) t"
      "match_at ms p1 p2 v1 v2 g' t" "match_frame ms u t" "sent t = sent u @ transcript v1 v2 ?other g1 ks"
      "inbox t = leftover v1 v2 ?other g1 ks (inbox u)"
      using Cons.IH [of g1 u ?other] u(2) Cons.prems(6) by blast
    then show ?thesis using u True place st match_frame_trans [of ms s u t] by (subst move_loop.simps) (simp add: Let_def)
  qed
qed simp

text \<open>
  C9. The server's match loop plays the game: when the two sockets deliver, each player's on its own
  socket, moves that lead to the outcome \<open>status\<close> of the game, the loop returns with that status, the board of the
  game is in the session, each move was relayed to the opponent and the status reported to both after
  each move, and the bytes of the moves, and no others, were read.
\<close>

theorem match_loop_plays_game:
  assumes "match_at ms p1 p2 v1 v2 g s" "mover = v1 \<or> mover = v2" "feeds v1 v2 mover ks (inbox s)"
    and "\<forall>k\<in>set ks. - (2 ^ 31) \<le> k \<and> k < 2 ^ 31"
    and "game v1 v2 mover g ks = Inr (status, g', nxt)" "status \<noteq> -2"
  shows "\<exists>t. move_loop ms (node_of p1 p2 v1 mover) s = Done (4, status, node_of p1 p2 v1 nxt) t \<and>
    match_at ms p1 p2 v1 v2 g' t \<and> sent t = sent s @ transcript v1 v2 mover g ks \<and>
    inbox t = leftover v1 v2 mover g ks (inbox s)"
  using move_loop_game [OF assms] by blast

end
