(* ===== verification/Handlers.thy ===== *)
theory Handlers
  imports Match
begin

text \<open>
  The requests a client can make: \<^verbatim>\<open>process_instantiation_request\<close> (create a session),
  \<^verbatim>\<open>process_activation_request\<close> (join one, ask its owner, play the match) and \<^verbatim>\<open>process_queue_fetch\<close>
  (list the sessions). Every early return and every \<^verbatim>\<open>pthread_exit\<close> of the code is a branch.

  The JSON library is a parameter: what \<^verbatim>\<open>cJSON_PrintUnformatted\<close> makes of the array of items, with
  NULL for a failure. An item is described by the fields the code adds to it; its allocations are
  granted or refused by the environment.
\<close>

section \<open>Names\<close>

text \<open>The bytes of a C string up to its terminator.\<close>

definition c_string :: "byte list \<Rightarrow> byte list" where
  "c_string bs = takeWhile (\<lambda>b. b \<noteq> 0) bs"

definition ascii :: "string \<Rightarrow> byte list" where
  "ascii str = map of_char str"

text \<open>
  Setting the name of a node. The old block is freed and the new one stored; the heap keeps names
  inside their node, so freeing the old one leaves nothing behind.
\<close>

definition replace_moniker :: "u64 \<Rightarrow> byte list \<Rightarrow> (server, unit) cmd" where
  "replace_moniker p name = set_node p (\<lambda>n. n\<lparr>identityMoniker := Some name\<rparr>)"

text \<open>
  Discarding the name of a request that is refused: only a length between 1 and the limit is
  followed by a read of that many bytes.
\<close>

definition discard_name :: "u32 \<Rightarrow> (server, unit) cmd" where
  "discard_name fd =
     andThen (receive fd 4) (\<lambda>(_, bs).
     andThen (gets (\<lambda>s. sint (host32 (filled 4 bs s)))) (\<lambda>discard_name_len.
     if 0 < discard_name_len \<and> discard_name_len \<le> LIMIT_IDENTITY_CAPACITY then
       andThen (malloc_buffer (word_of_int discard_name_len + 1)) (\<lambda>discard_buf.
       if discard_buf then andThen (receive fd (nat discard_name_len)) (\<lambda>_. ret ()) else ret ())
     else ret ()))"

section \<open>Creating a session\<close>

definition fresh_session :: "u64 \<Rightarrow> int \<Rightarrow> match_session" where
  "fresh_session p_node fresh_id =
     \<lparr>currentState = STATE_FRESH_INST, activeTurnIdx = 0, participantSecondary = NULL, gridMatrix = None,
      sessionId = word_of_int fresh_id, participantPrimary = p_node\<rparr>"

text \<open>The grid's allocation, which ends the process when refused.\<close>

definition allocate_grid :: "(server, grid) cmd" where
  "allocate_grid s =
     (case allocateGridMatrixBuffer (memory_grants s) of
        Done g gs \<Rightarrow> Done g (s\<lparr>memory_grants := gs\<rparr>)
      | Exited gs \<Rightarrow> Exited (s\<lparr>memory_grants := gs\<rparr>)
      | Halted gs \<Rightarrow> Halted (s\<lparr>memory_grants := gs\<rparr>)
      | Fault f \<Rightarrow> Fault f)"

text \<open>
  Reading the name: the length, its check, the buffer, the bytes. Every failure ends the thread. A length
  of -1 passes the check, and a failed read, whose code is -1 too, then counts as complete; the
  terminator goes to the byte before the buffer.
\<close>

definition read_owner_name :: "u32 \<Rightarrow> (server, byte list) cmd" where
  "read_owner_name local_sock =
     andThen (receive local_sock 4) (\<lambda>(rc, encoded_range).
     if rc \<noteq> 4 then thread_exit
     else
       let decoded_range = sint (host32 encoded_range) in
       if decoded_range > LIMIT_IDENTITY_CAPACITY \<or> decoded_range = 0 then thread_exit
       else
         andThen (malloc_buffer (word_of_int (decoded_range + 1))) (\<lambda>identity_buffer.
         if \<not> identity_buffer then thread_exit
         else
           andThen (receive_into (word_of_int (decoded_range + 1)) local_sock (word_of_int decoded_range)) (\<lambda>(rc, name).
           if rc \<noteq> decoded_range then thread_exit
           else if decoded_range < 0 then raise Out_Of_Bounds
           else ret name)))"

text \<open>Registering the new session under its identifier, or destroying it.\<close>

definition register_session :: "u64 \<Rightarrow> int \<Rightarrow> (server, unit) cmd" where
  "register_session novel_session fresh_id =
     andThen (with_grant (\<lambda>al. on_sessions (on_fst (implant_at_offset al (word_of_int fresh_id) (Some (ptr_bytes novel_session)))))) (\<lambda>rc.
     if rc \<noteq> 0 then andThen (destroyMatchSessionInstance (ptr_bytes novel_session)) (\<lambda>_. thread_exit)
     else ret ())"

text \<open>The audit loop runs over \<^verbatim>\<open>occupied_slots\<close>, not over the slots.\<close>

definition audit_sessions :: "(server, unit) cmd" where
  "audit_sessions =
     andThen (gets (\<lambda>s. unat (occupied_slots (activeMatchSessions s)))) (\<lambda>n.
     for_each [0..<n] (\<lambda>ptr.
       andThen (fetch_session ptr) (\<lambda>(rc, surveyed).
       if rc = 0 \<and> surveyed \<noteq> NULL then dumpMatchSessionDiagnostics surveyed else ret ())))"

text \<open>The request of a player who is in no session, and the whole handler.\<close>

definition create_session :: "u64 \<Rightarrow> u32 \<Rightarrow> (server, int) cmd" where
  "create_session p_node local_sock =
     andThen (on_pool acquireNewSessionIdentifier) (\<lambda>fresh_id.
     andThen (read_owner_name local_sock) (\<lambda>name.
     andThen (replace_moniker p_node name) (\<lambda>_.
     andThen malloc_struct (\<lambda>novel_session.
     if novel_session = NULL then thread_exit
     else
       andThen (modify (\<lambda>s. s\<lparr>sessions := (sessions s)(novel_session \<mapsto> fresh_session p_node fresh_id)\<rparr>)) (\<lambda>_.
       andThen allocate_grid (\<lambda>grid.
       andThen (set_session novel_session (\<lambda>m. m\<lparr>gridMatrix := Some grid\<rparr>)) (\<lambda>_.
       andThen (register_session novel_session fresh_id) (\<lambda>_.
       andThen (set_session novel_session (\<lambda>m. m\<lparr>currentState := STATE_PENDING_PLYR\<rparr>)) (\<lambda>_.
       andThen (set_node p_node (\<lambda>n. n\<lparr>activeSessionId := fresh_id\<rparr>)) (\<lambda>_.
       andThen audit_sessions (\<lambda>_.
       andThen broadcast_session_state_update (\<lambda>_. ret 0))))))))))))"

definition process_instantiation_request :: "u64 \<Rightarrow> (server, int) cmd" where
  "process_instantiation_request p_node =
     andThen (get_node p_node) (\<lambda>n.
     let local_sock = socketDescriptor n in
     if activeSessionId n \<noteq> -1 then andThen (discard_name local_sock) (\<lambda>_. ret (-3))
     else create_session p_node local_sock)"

section \<open>Joining a session\<close>

definition challenge_text :: "byte list \<Rightarrow> byte list" where
  "challenge_text name =
     ascii ''Incoming challenge detected from '' @ c_string name @
     ascii ''. Acknowledge protocol initiation?'' @ [10]"

text \<open>The refusal of a player who is in a session already.\<close>

definition refuse_bound_player :: "u32 \<Rightarrow> (server, int) cmd" where
  "refuse_bound_player fd =
     andThen (receive fd 2) (\<lambda>_.
     andThen (discard_name fd) (\<lambda>_.
     andThen (send_bytes fd (net32 fd)) (\<lambda>_.
     andThen (send_bytes fd (net_opcode OP_DECLINE_REQ)) (\<lambda>_. ret (-3)))))"

text \<open>
  Reading the joiner's name. There is no upper limit on its length; \<^verbatim>\<open>Inl\<close> is an early return with
  that code.
\<close>

definition read_joiner_name :: "u32 \<Rightarrow> (server, int + byte list) cmd" where
  "read_joiner_name local_socket =
     andThen (receive local_socket 4) (\<lambda>(rc, net_len_block).
     if rc \<le> 0 then ret (Inl (-1))
     else
       let moniker_boundary = sint (host32 net_len_block) in
       if moniker_boundary = 2 ^ 31 - 1 then raise Signed_Overflow
       else
         andThen (malloc_buffer (word_of_int (moniker_boundary + 1))) (\<lambda>new_moniker.
         if \<not> new_moniker then thread_exit
         else
           andThen (receive_into (word_of_int (moniker_boundary + 1)) local_socket (word_of_int moniker_boundary)) (\<lambda>(bytes_fetched, name).
           if bytes_fetched \<le> 0 then ret (Inl (-2))
           else ret (Inr name))))"

text \<open>
  Asking the owner: its lock is held while the text is sent and the answer read. There is no text if
  \<^verbatim>\<open>asprintf\<close> failed, and its pointer is then indeterminate. A failed read leaves
  the refusal the variable was preset with, or what part of it was overwritten.
\<close>

definition ask_owner :: "u64 \<Rightarrow> u32 \<Rightarrow> byte list option \<Rightarrow> (server, u32) cmd" where
  "ask_owner master_node master_socket notification_payload =
     andThen (lock_stream master_node) (\<lambda>_.
     andThen (case notification_payload of None \<Rightarrow> raise Indeterminate | Some txt \<Rightarrow> send_bytes master_socket txt) (\<lambda>_.
     andThen (receive master_socket 4) (\<lambda>(_, bs).
     andThen (unlock_stream master_node) (\<lambda>_.
     ret (host32 (bs @ drop (length bs) (net_opcode OP_DECLINE_REQ)))))))"

text \<open>
  From the session that was found to the end of the request: its owner is asked; with its approval the
  match is played, in this thread.
\<close>

definition challenge_owner :: "u64 \<Rightarrow> int \<Rightarrow> u64 \<Rightarrow> u32 \<Rightarrow> byte list \<Rightarrow> (server, int) cmd" where
  "challenge_owner target target_sess_id p_node local_socket name =
     andThen (get_session target) (\<lambda>m.
     let master_node = participantPrimary m in
     andThen (get_node master_node) (\<lambda>master.
     let master_socket = socketDescriptor master in
     andThen system_grant (\<lambda>formatted.
     andThen (ask_owner master_node master_socket (if formatted then Some (challenge_text name) else None)) (\<lambda>master_verdict.
     andThen (send_bytes local_socket (net32 master_verdict)) (\<lambda>_.
     if sint master_verdict \<noteq> opcode_value OP_APPROVE_REQ then ret 0
     else
       andThen (set_session target (\<lambda>m. m\<lparr>participantSecondary := p_node, currentState := STATE_IN_PROGRESS\<rparr>)) (\<lambda>_.
       andThen (dumpMatchSessionDiagnostics target) (\<lambda>_.
       andThen (set_node p_node (\<lambda>n. n\<lparr>activeSessionId := target_sess_id\<rparr>)) (\<lambda>_.
       andThen (set_node master_node (\<lambda>n. n\<lparr>activeSessionId := target_sess_id, timeoutTicks := 1\<rparr>)) (\<lambda>_.
       andThen broadcast_session_state_update (\<lambda>_.
       andThen (execute_core_loop target True) (\<lambda>_. ret 0)))))))))))"

definition process_activation_request :: "u64 \<Rightarrow> (server, int) cmd" where
  "process_activation_request p_node =
     andThen (get_node p_node) (\<lambda>n.
     let local_socket = socketDescriptor n in
     if activeSessionId n \<noteq> -1 then refuse_bound_player local_socket
     else
       andThen (receive local_socket 2) (\<lambda>(_, bs).
       andThen (gets (\<lambda>s. uint (host16 (filled 2 bs s)))) (\<lambda>target_sess_id.
       andThen (read_joiner_name local_socket) (\<lambda>reading.
       case reading of
         Inl code \<Rightarrow> ret code
       | Inr name \<Rightarrow>
           andThen (replace_moniker p_node name) (\<lambda>_.
           andThen (send_bytes local_socket (net32 local_socket)) (\<lambda>_.
           andThen (fetch_session (nat target_sess_id)) (\<lambda>(_, target).
           if target = NULL then
             andThen (send_bytes local_socket (net_opcode OP_DECLINE_REQ)) (\<lambda>_. ret (-1))
           else challenge_owner target target_sess_id p_node local_socket name)))))))"

section \<open>Listing the sessions\<close>

record json_item =
  id_game :: "u16 option"
  status_game :: "MatchSessionState option"
  item_name :: "byte list option"
  creator :: "u32 option"

text \<open>
  The items in registry order; an item that cannot be allocated is left out. A field is added if the
  library gets the memory for it, and a missing name is not added at all; the results of the
  \<^verbatim>\<open>cJSON_Add\<close> calls are ignored.
\<close>

definition session_item :: "u64 \<Rightarrow> (server, json_item) cmd" where
  "session_item sess_ptr =
     andThen (get_session sess_ptr) (\<lambda>m.
     andThen system_grant (\<lambda>id_added.
     andThen system_grant (\<lambda>status_added.
     andThen (get_node (participantPrimary m)) (\<lambda>n.
     andThen system_grant (\<lambda>name_added.
     andThen system_grant (\<lambda>creator_added.
     ret \<lparr>id_game = (if id_added then Some (sessionId m) else None),
          status_game = (if status_added then Some (currentState m) else None),
          item_name = (if name_added then map_option c_string (identityMoniker n) else None),
          creator = (if creator_added then Some (socketDescriptor n) else None)\<rparr>))))))"

fun collect_items :: "nat list \<Rightarrow> (server, json_item list) cmd" where
  "collect_items [] = ret []"
| "collect_items (k # ks) =
     andThen (fetch_session k) (\<lambda>(rc, sess_ptr).
     if rc = 0 \<and> sess_ptr \<noteq> NULL then
       andThen system_grant (\<lambda>item_obj.
       if item_obj then
         andThen (session_item sess_ptr) (\<lambda>item.
         andThen (collect_items ks) (\<lambda>items. ret (item # items)))
       else collect_items ks)
     else collect_items ks)"

definition process_queue_fetch :: "(json_item list \<Rightarrow> byte list option) \<Rightarrow> u32 \<Rightarrow> (server, int) cmd" where
  "process_queue_fetch print_json d_socket =
     andThen system_grant (\<lambda>array_root.
     if \<not> array_root then ret (-1)
     else
       andThen (gets (\<lambda>s. unat (allocated_slots (activeMatchSessions s)))) (\<lambda>slots.
       andThen (collect_items [0..<slots]) (\<lambda>items.
       case print_json items of
         None \<Rightarrow> ret (-1)
       | Some serialized \<Rightarrow>
           andThen (send_bytes d_socket (c_string serialized)) (\<lambda>_.
           andThen (send_bytes d_socket [10]) (\<lambda>_. ret 0)))))"

end
