(* ===== verification/Lifecycle.thy ===== *)
theory Lifecycle
  imports Handlers
begin

text \<open>
  The thread of one client, \<^verbatim>\<open>executePlayerNodeLifecycle\<close>: entering the registry, the polling loop, and
  the clean-up when the link ends. What \<^verbatim>\<open>select\<close> reports in each round is a script; the loop runs as
  long as the script goes on, and the value tells whether it was left. The clock is the script of
  the state. A handler that ends the thread skips the clean-up, as it does in the program.
\<close>

definition SECONDS_UNTIL_DROP :: int where
  "SECONDS_UNTIL_DROP = 30"

section \<open>Entering\<close>

definition fresh_node :: "u32 \<Rightarrow> player_node" where
  "fresh_node d_socket =
     \<lparr>timeoutTicks = 0, socketDescriptor = d_socket, streamLock = Unlocked, identityMoniker = None,
      activeSessionId = -1\<rparr>"

fun scan_players :: "nat list \<Rightarrow> (nat \<Rightarrow> (server, bool) cmd) \<Rightarrow> (server, unit) cmd" where
  "scan_players [] body = ret ()"
| "scan_players (k # ks) body =
     andThen (gets (\<lambda>s. k < unat (allocated_slots (activePlayerNodes s)))) (\<lambda>more.
     if more then andThen (body k) (\<lambda>go_on. if go_on then scan_players ks body else ret ()) else ret ())"

text \<open>A loop over the slots of the player registry; the body says whether to go on.\<close>

definition for_players :: "(nat \<Rightarrow> (server, bool) cmd) \<Rightarrow> (server, unit) cmd" where
  "for_players body =
     andThen (gets (\<lambda>s. unat (allocated_slots (activePlayerNodes s)))) (\<lambda>n. scan_players [0..<n] body)"

definition enter_link :: "u32 \<Rightarrow> (server, u64) cmd" where
  "enter_link d_socket =
     andThen malloc_struct (\<lambda>new_node.
     if new_node = NULL then andThen (close_socket d_socket) (\<lambda>_. thread_exit)
     else
       andThen (modify (\<lambda>s. s\<lparr>nodes := (nodes s)(new_node \<mapsto> fresh_node d_socket)\<rparr>)) (\<lambda>_.
       andThen system_grant (\<lambda>mutex_ok.
       if \<not> mutex_ok then
         andThen (free_node new_node) (\<lambda>_. andThen (close_socket d_socket) (\<lambda>_. thread_exit))
       else
         andThen (send_bytes d_socket (net32 d_socket)) (\<lambda>_.
         andThen (for_players (\<lambda>idx.
           andThen (fetch_player idx) (\<lambda>(_, scan_ptr).
           andThen (dumpPlayerNodeDiagnostics scan_ptr) (\<lambda>_. ret True)))) (\<lambda>_.
         andThen (with_grant (\<lambda>al. on_players (on_fst (append_to_store al (Some (ptr_bytes new_node)))))) (\<lambda>alloc_code.
         if alloc_code \<noteq> 0 then andThen (free_node new_node) (\<lambda>_. thread_exit)
         else ret new_node))))))"

section \<open>The polling loop\<close>

datatype poll = Poll_Failed | Readable | Quiet

text \<open>The locals that live across rounds.\<close>

record link =
  marker_start :: int
  incoming_opcode :: "byte list"
  active_flag :: bool

text \<open>One \<^verbatim>\<open>recv\<close> of an opcode, which may deliver fewer than its four bytes.\<close>

definition receive_opcode :: "u32 \<Rightarrow> byte list \<Rightarrow> (server, int \<times> byte list) cmd" where
  "receive_opcode fd old s =
     (case recv 4 (channels s fd) of
        (Got bs, es) \<Rightarrow> Done (int (length bs), bs @ drop (length bs) old) (s\<lparr>channels := (channels s)(fd := es)\<rparr>)
      | (End_Of_Stream, es) \<Rightarrow> Done (0, old) (s\<lparr>channels := (channels s)(fd := es)\<rparr>)
      | (Error e, es) \<Rightarrow> Done (-1, old) (s\<lparr>channels := (channels s)(fd := es), errno := e\<rparr>))"

text \<open>Which handler a request runs; the value is the new \<^verbatim>\<open>active_flag\<close>.\<close>

definition dispatch_opcode ::
  "(json_item list \<Rightarrow> byte list option) \<Rightarrow> u64 \<Rightarrow> u32 \<Rightarrow> int \<Rightarrow> (server, bool) cmd" where
  "dispatch_opcode print_json new_node d_socket decoded_opcode =
     (if decoded_opcode = opcode_value OP_INIT_MATCH_SESSION then
        andThen (process_activation_request new_node) (\<lambda>_. ret True)
      else if decoded_opcode = opcode_value OP_FETCH_WAITING_LIST then
        andThen (process_queue_fetch print_json d_socket) (\<lambda>_. ret True)
      else if decoded_opcode = opcode_value OP_BUILD_MATCH_SESSION then
        andThen (process_instantiation_request new_node) (\<lambda>_. ret True)
      else if decoded_opcode = opcode_value OP_TERMINATE_LINK then ret False
      else ret True)"

text \<open>The end of a round: the tick left by a match, and the deadline. \<open>None\<close> leaves the loop.\<close>

definition check_deadline :: "u64 \<Rightarrow> link \<Rightarrow> (server, link option) cmd" where
  "check_deadline new_node lk =
     andThen (get_node new_node) (\<lambda>n.
     andThen (if timeoutTicks n = 1 then
                andThen (set_node new_node (\<lambda>n. n\<lparr>timeoutTicks := 0\<rparr>)) (\<lambda>_.
                andThen read_clock (\<lambda>now. ret (lk\<lparr>marker_start := now\<rparr>)))
              else ret lk) (\<lambda>lk.
     andThen read_clock (\<lambda>marker_current.
     if marker_current - marker_start lk \<ge> SECONDS_UNTIL_DROP * 10 ^ 9 then ret None else ret (Some lk))))"

definition poll_round ::
  "(json_item list \<Rightarrow> byte list option) \<Rightarrow> u64 \<Rightarrow> u32 \<Rightarrow> poll \<Rightarrow> link \<Rightarrow> (server, link option) cmd" where
  "poll_round print_json new_node d_socket mux_eval lk =
     andThen (lock_stream new_node) (\<lambda>_.
     case mux_eval of
       Poll_Failed \<Rightarrow> ret None
     | Readable \<Rightarrow>
         andThen (receive_opcode d_socket (incoming_opcode lk)) (\<lambda>(pull_size, bs).
         andThen (unlock_stream new_node) (\<lambda>_.
         if pull_size \<le> 0 then ret None
         else
           andThen (dispatch_opcode print_json new_node d_socket (sint (host32 bs))) (\<lambda>active.
           andThen read_clock (\<lambda>now.
           check_deadline new_node (lk\<lparr>incoming_opcode := bs, active_flag := active, marker_start := now\<rparr>)))))
     | Quiet \<Rightarrow> andThen (unlock_stream new_node) (\<lambda>_. check_deadline new_node lk))"

text \<open>The loop over a script of polls; the value says whether it was left.\<close>

fun poll_loop ::
  "(json_item list \<Rightarrow> byte list option) \<Rightarrow> u64 \<Rightarrow> u32 \<Rightarrow> poll list \<Rightarrow> link \<Rightarrow> (server, bool) cmd" where
  "poll_loop print_json new_node d_socket [] lk = ret (\<not> active_flag lk)"
| "poll_loop print_json new_node d_socket (p # ps) lk =
     (if \<not> active_flag lk then ret True
      else andThen (poll_round print_json new_node d_socket p lk) (\<lambda>r.
           case r of None \<Rightarrow> ret True | Some lk' \<Rightarrow> poll_loop print_json new_node d_socket ps lk'))"

section \<open>Leaving\<close>

text \<open>The first registered node with this socket is destroyed; the scan stops there.\<close>

definition expel_player :: "u32 \<Rightarrow> (server, unit) cmd" where
  "expel_player d_socket =
     for_players (\<lambda>idx.
       andThen (fetch_player idx) (\<lambda>(_, disposal_ptr).
       if disposal_ptr \<noteq> NULL then
         andThen (get_node disposal_ptr) (\<lambda>n.
         if socketDescriptor n = d_socket then
           andThen (with_grant (\<lambda>al. on_players (excise_at_offset al (word_of_nat idx) (Some destroyPlayerNodeInstance)))) (\<lambda>_.
           ret False)
         else ret True)
       else ret True))"

text \<open>
  Every session the node owns is destroyed, its identifier returned first: the body of the loop, and
  the loop.
\<close>

definition purge_orphan :: "u64 \<Rightarrow> nat \<Rightarrow> (server, unit) cmd" where
  "purge_orphan new_node idx =
     andThen (fetch_session idx) (\<lambda>(_, orphaned_session).
     if orphaned_session \<noteq> NULL then
       andThen (get_session orphaned_session) (\<lambda>m.
       if participantPrimary m = new_node then
         andThen (on_pool (relinquishSessionIdentifier (uint (sessionId m)))) (\<lambda>_.
         andThen (with_grant (\<lambda>al. on_sessions (excise_at_offset al (word_of_nat idx) (Some destroyMatchSessionInstance)))) (\<lambda>_.
         ret ()))
       else ret ())
     else ret ())"

definition purge_orphans :: "u64 \<Rightarrow> (server, unit) cmd" where
  "purge_orphans new_node = for_sessions (purge_orphan new_node)"

definition leave_link :: "u64 \<Rightarrow> u32 \<Rightarrow> (server, unit) cmd" where
  "leave_link new_node d_socket =
     andThen (expel_player d_socket) (\<lambda>_.
     andThen (close_socket d_socket) (\<lambda>_.
     purge_orphans new_node))"

definition executePlayerNodeLifecycle ::
  "(json_item list \<Rightarrow> byte list option) \<Rightarrow> poll list \<Rightarrow> u32 \<Rightarrow> (server, unit) cmd" where
  "executePlayerNodeLifecycle print_json polls d_socket =
     andThen (enter_link d_socket) (\<lambda>new_node.
     andThen read_clock (\<lambda>start.
     andThen (gets (\<lambda>s. filled 4 [] s)) (\<lambda>junk.
     andThen (poll_loop print_json new_node d_socket polls
                \<lparr>marker_start = start, incoming_opcode = junk, active_flag = True\<rparr>) (\<lambda>left.
     if left then leave_link new_node d_socket else ret ()))))"

end
