(* ===== verification/Session_Table.thy ===== *)
theory Session_Table
  imports Lifecycle
begin

text \<open>
  The table of sessions across its three carriers: the registry of pointers, the heap of structs and
  the identifier pool. The invariant \<open>table_ok\<close> says that the registry holds exactly the live
  sessions, each under its own identifier, and that no identifier of a registered session waits in
  the pool; every request handler and the clean-up of a connection keep it.
\<close>

section \<open>Registry calls on the server\<close>

abbreviation registered :: "server \<Rightarrow> nat \<Rightarrow> u64" where
  "registered s \<equiv> entry (activeMatchSessions s)"

lemma fetch_session_run:
  assumes "pointer_store (activeMatchSessions s)" "k \<le> unat SIZE_MAX"
  shows "fetch_session k s =
    Done (if k < unat (allocated_slots (activeMatchSessions s)) then 0 else -1, registered s k) s"
proof -
  have "unat (word_of_nat k :: u64) = k" using assms(2) by (simp add: unat_of_nat)
  then show ?thesis
    using assms fetch_spec [of "activeMatchSessions s" "word_of_nat k"]
    by (auto simp: fetch_session_def on_sessions_def t_fetch_def entry_def pointers_def cmd_defs outcome_simps
        pointer_store_def)
qed

lemma destroy_session_run:
  assumes "bytes_ptr slot = p" "p \<noteq> NULL" "sessions s p = Some m"
  shows "destroyMatchSessionInstance slot s = Done (ptr_bytes NULL) (s\<lparr>sessions := (sessions s)(p := None)\<rparr>)"
  using assms
  by (simp add: destroyMatchSessionInstance_def deallocateGridMatrixBuffer_def set_session_def get_session_def
      free_session_def cmd_defs)

text \<open>Removing a session from a registry whose count need not be right.\<close>

lemma remove_entry_run:
  assumes ok: "pointer_store (activeMatchSessions s)" "occupied_slots (activeMatchSessions s) \<noteq> 0" and k: "unat k = i" "registered s i = p" "p \<noteq> NULL"
    and m: "sessions s p = Some m"
  shows "\<exists>st. with_grant (\<lambda>al. on_sessions (excise_at_offset al k (Some destroyMatchSessionInstance))) s =
      Done 0 (s\<lparr>sessions := (sessions s)(p := None), activeMatchSessions := st,
        memory_grants := snd (take_grant (memory_grants s))\<rparr>) \<and>
    pointer_store st \<and> entry st = (registered s)(i := NULL) \<and>
    Suc (non_null (pointers st)) = non_null (pointers (activeMatchSessions s)) \<and>
    unat (occupied_slots st) = unat (occupied_slots (activeMatchSessions s)) - 1"
proof -
  let ?R = "activeMatchSessions s"
  obtain b gs where g: "take_grant (memory_grants s) = (b, gs)" by (metis prod.exhaust)
  let ?w = "s\<lparr>memory_grants := gs\<rparr>" and ?w' = "s\<lparr>sessions := (sessions s)(p := None), memory_grants := gs\<rparr>"
  have i: "unat k < unat (allocated_slots ?R)" using k entry_in_range [of ?R i] by auto
  have slot: "bytes_ptr (cells (table_of ?R) ! unat k) = p"
    using k i by (auto simp: entry_simps)
  have len: "length (cells (table_of ?R) ! unat k) = 8"
    using cell_width [of ?R "unat k"] i ok(1) by (simp add: pointer_store_def da_ok_def)
  have "destroyMatchSessionInstance (cells (table_of ?R) ! unat k) ?w = Done (ptr_bytes NULL) ?w'"
    using destroy_session_run [OF slot k(3), of ?w m] m by simp
  then have hook: "hook_yields (Some destroyMatchSessionInstance) (cells (table_of ?R) ! unat k) ?w ?w'"
    using len by (simp add: hook_yields_def)
  have some: "entry ?R (unat k) \<noteq> NULL" using k by simp
  from excise_entry [OF ok some hook, of "one_grant b"] obtain st where
    "excise_at_offset (one_grant b) k (Some destroyMatchSessionInstance) (Some ?R, ?w) = Done 0 (Some st, ?w')"
    "pointer_store st" "entry st = (entry ?R)(unat k := NULL)" "Suc (non_null (pointers st)) = non_null (pointers ?R)"
    "unat (occupied_slots st) = unat (occupied_slots ?R) - 1" by blast
  then show ?thesis using g k(1)
    by (intro exI [of _ st]) (simp add: with_grant_def on_sessions_def)
qed

lemma remove_session_run:
  assumes ok: "reg_ok (activeMatchSessions s)" and k: "unat k = i" "registered s i = p" "p \<noteq> NULL"
    and m: "sessions s p = Some m"
  shows "\<exists>st. with_grant (\<lambda>al. on_sessions (excise_at_offset al k (Some destroyMatchSessionInstance))) s =
      Done 0 (s\<lparr>sessions := (sessions s)(p := None), activeMatchSessions := st,
        memory_grants := snd (take_grant (memory_grants s))\<rparr>) \<and>
    reg_ok st \<and> entry st = (registered s)(i := NULL)"
proof -
  have st: "pointer_store (activeMatchSessions s)" "occupied_slots (activeMatchSessions s) \<noteq> 0"
    using non_null_pos [of "activeMatchSessions s" i] k ok by (auto simp: reg_ok_def)
  from remove_entry_run [OF st k m] ok show ?thesis by (auto simp: reg_ok_def)
qed

section \<open>The invariant\<close>

definition ids_cover :: "server \<Rightarrow> bool" where
  "ids_cover s \<longleftrightarrow> (\<exists>used. ids_ok (identifiers s) used \<and> (\<forall>k. registered s k \<noteq> NULL \<longrightarrow> int k \<in> used))"

text \<open>
  The table proper. A session's identifier has sixteen bits, so it is true of servers that have drawn
  at most \<open>2 ^ 16\<close> identifiers from the counter; \<open>table_ok\<close> is the invariant with that bound.
\<close>

definition table_core :: "server \<Rightarrow> bool" where
  "table_core s \<longleftrightarrow>
     reg_ok (activeMatchSessions s) \<and> ids_cover s \<and>
     (\<forall>k. registered s k \<noteq> NULL \<longrightarrow> (\<exists>m. sessions s (registered s k) = Some m \<and> unat (sessionId m) = k)) \<and>
     (\<forall>p m. sessions s p = Some m \<longrightarrow> p \<noteq> NULL \<and> registered s (unat (sessionId m)) = p)"

definition ids_bounded :: "server \<Rightarrow> bool" where
  "ids_bounded s \<longleftrightarrow> current_highest_id (identifiers s) \<le> 65536"

definition table_ok :: "server \<Rightarrow> bool" where
  "table_ok s \<longleftrightarrow> (ids_bounded s \<longrightarrow> table_core s)"

lemma table_core_registered:
  assumes "table_core s" "registered s k \<noteq> NULL"
  obtains m where "sessions s (registered s k) = Some m" "unat (sessionId m) = k"
  using assms unfolding table_core_def by blast

lemma table_core_live:
  "table_core s \<Longrightarrow> sessions s p = Some m \<Longrightarrow> p \<noteq> NULL \<and> registered s (unat (sessionId m)) = p"
  unfolding table_core_def by blast

lemma table_coreI:
  assumes "reg_ok (activeMatchSessions s)" "ids_cover s"
    and "\<And>k. registered s k \<noteq> NULL \<Longrightarrow> \<exists>m. sessions s (registered s k) = Some m \<and> unat (sessionId m) = k"
    and "\<And>p m. sessions s p = Some m \<Longrightarrow> p \<noteq> NULL \<and> registered s (unat (sessionId m)) = p"
  shows "table_core s"
  using assms unfolding table_core_def by blast

lemma table_core_ids: "table_core s \<Longrightarrow> ids_cover s"
  unfolding table_core_def by blast

lemma table_core_reg: "table_core s \<Longrightarrow> reg_ok (activeMatchSessions s)"
  unfolding table_core_def by blast

lemma table_core_store: "table_core s \<Longrightarrow> pointer_store (activeMatchSessions s)"
  by (auto dest: table_core_reg simp: reg_ok_def)

text \<open>What the table depends on.\<close>

lemma table_updates [simp]:
  "table_ok (s\<lparr>nodes := a\<rparr>) = table_ok s" "table_ok (s\<lparr>channels := b\<rparr>) = table_ok s"
  "table_ok (s\<lparr>errno := c\<rparr>) = table_ok s" "table_ok (s\<lparr>sent := d\<rparr>) = table_ok s"
  "table_ok (s\<lparr>closed := e\<rparr>) = table_ok s" "table_ok (s\<lparr>struct_addresses := f\<rparr>) = table_ok s"
  "table_ok (s\<lparr>memory_grants := g\<rparr>) = table_ok s" "table_ok (s\<lparr>randoms := h\<rparr>) = table_ok s"
  "table_ok (s\<lparr>clock := i\<rparr>) = table_ok s" "table_ok (s\<lparr>activePlayerNodes := j\<rparr>) = table_ok s"
  "table_ok (s\<lparr>reset_peers := k\<rparr>) = table_ok s" "table_ok (s\<lparr>stack_junk := l\<rparr>) = table_ok s"
  by (simp_all add: table_ok_def table_core_def ids_cover_def ids_bounded_def)

lemma table_core_session_update:
  assumes core: "table_core s" and "sessions s p = Some m" "sessionId m' = sessionId m"
  shows "table_core (s\<lparr>sessions := (sessions s)(p \<mapsto> m')\<rparr>)"
proof -
  let ?t = "s\<lparr>sessions := (sessions s)(p \<mapsto> m')\<rparr>"
  show ?thesis
  proof (rule table_coreI)
    show "\<exists>m. sessions ?t (registered ?t k) = Some m \<and> unat (sessionId m) = k" if "registered ?t k \<noteq> NULL" for k
    proof -
      from that have "registered s k \<noteq> NULL" by simp
      with core obtain n where "sessions s (registered s k) = Some n" "unat (sessionId n) = k"
        by (rule table_core_registered)
      then show ?thesis using assms(2,3) by auto
    qed
    show "q \<noteq> NULL \<and> registered ?t (unat (sessionId n)) = q" if "sessions ?t q = Some n" for q n
    proof (cases "q = p")
      case True
      then have "n = m'" using that by simp
      then show ?thesis using True assms(3) table_core_live [OF core assms(2)] by simp
    next
      case False
      then have "sessions s q = Some n" using that by simp
      from table_core_live [OF core this] show ?thesis by simp
    qed
    show "reg_ok (activeMatchSessions ?t)" using table_core_reg [OF core] by simp
    show "ids_cover ?t" using table_core_ids [OF core] by (simp add: ids_cover_def)
  qed
qed

lemma table_session_update:
  assumes "table_ok s" "sessions s p = Some m" "sessionId m' = sessionId m"
  shows "table_ok (s\<lparr>sessions := (sessions s)(p \<mapsto> m')\<rparr>)"
  using assms table_core_session_update [OF _ assms(2,3)] by (simp add: table_ok_def ids_bounded_def)

lemma keeps_table_set_session [keeps_rules]:
  "(\<And>m. sessionId (f m) = sessionId m) \<Longrightarrow> keeps table_ok (set_session p f)"
  by (intro keeps_set_session table_session_update) auto

lemma keeps_table_set_node [keeps_rules]: "keeps table_ok (set_node p f)"
  by (intro keeps_set_node) simp

lemma keeps_table_receive [keeps_rules]: "keeps table_ok (receive fd n)"
  by (intro keeps_receive) simp

lemma keeps_table_send [keeps_rules]: "keeps table_ok (send_bytes fd bs)"
  by (intro keeps_send) simp

section \<open>Closing a session\<close>

text \<open>
  A session and its identifier go together, in whichever order the code returns the identifier and
  removes the session.
\<close>

definition retired :: "server \<Rightarrow> u64 \<Rightarrow> u16 \<Rightarrow> server \<Rightarrow> bool" where
  "retired s p sid t \<longleftrightarrow>
     (\<exists>st ids. t = s\<lparr>sessions := (sessions s)(p := None), activeMatchSessions := st,
        memory_grants := snd (take_grant (memory_grants s)), identifiers := ids\<rparr> \<and> reg_ok st \<and> entry st = (registered s)(unat sid := NULL) \<and>
        relinquishSessionIdentifier (uint sid) (identifiers s) = Done () ids)"

lemma unat_word_of_id: "unat (word_of_int (uint (sid :: u16)) :: u64) = unat sid"
proof -
  have "uint (ucast sid :: u64) = uint sid" by (rule uint_up_ucast) (simp add: is_up)
  from arg_cong [OF this, of nat] have "unat (ucast sid :: u64) = unat sid" by simp
  then show ?thesis by simp
qed

lemma int_eq_uint: "int k = uint (sid :: u16) \<longleftrightarrow> k = unat sid"
proof
  assume "int k = uint sid"
  from arg_cong [OF this, of nat] show "k = unat sid" by simp
qed simp

lemma highest_relinquish:
  "relinquishSessionIdentifier x s = Done () t \<Longrightarrow> current_highest_id t = current_highest_id s"
  by (auto simp: relinquishSessionIdentifier_def Let_def split: if_splits)

lemma ids_without:
  assumes "ids_ok ids used" "int (unat (sid :: u16)) \<in> used"
  obtains ids' where "relinquishSessionIdentifier (uint sid) ids = Done () ids'" "ids_ok ids' (used - {int (unat sid)})"
  using relinquish_ok [OF assms] by auto

lemma retired_table:
  assumes core: "table_core s" and m: "sessions s p = Some m" and t: "retired s p (sessionId m) t"
  shows "table_core t \<and> (ids_bounded s = ids_bounded t)"
proof -
  let ?k = "unat (sessionId m)"
  have live: "p \<noteq> NULL" "registered s ?k = p" using table_core_live [OF core m] by simp_all
  obtain used where used: "ids_ok (identifiers s) used" "\<forall>k. registered s k \<noteq> NULL \<longrightarrow> int k \<in> used"
    using table_core_ids [OF core] by (auto simp: ids_cover_def)
  have "int ?k \<in> used" using used(2) live by blast
  with used(1) obtain ids where ids: "relinquishSessionIdentifier (uint (sessionId m)) (identifiers s) = Done () ids"
    "ids_ok ids (used - {int ?k})" by (rule ids_without)
  from t ids(1) obtain st where teq: "t = s\<lparr>sessions := (sessions s)(p := None), activeMatchSessions := st,
      memory_grants := snd (take_grant (memory_grants s)), identifiers := ids\<rparr>" and st: "reg_ok st" "entry st = (registered s)(?k := NULL)"
    by (auto simp: retired_def)
  have "table_core t"
  proof (rule table_coreI)
    show "reg_ok (activeMatchSessions t)" using st(1) teq by simp
    have "\<forall>k. registered t k \<noteq> NULL \<longrightarrow> int k \<in> used - {int ?k}" using used(2) st(2) teq by (simp add: int_eq_uint)
    then show "ids_cover t" using ids(2) teq unfolding ids_cover_def by auto
  next
    fix k assume k: "registered t k \<noteq> NULL"
    then have ne: "k \<noteq> ?k" "registered t k = registered s k" using st(2) teq by (auto split: if_splits)
    with k have "registered s k \<noteq> NULL" by simp
    with core obtain n where n: "sessions s (registered s k) = Some n" "unat (sessionId n) = k"
      by (rule table_core_registered)
    then have "registered s k \<noteq> p" using m ne(1) by auto
    then show "\<exists>n. sessions t (registered t k) = Some n \<and> unat (sessionId n) = k" using n ne(2) teq by simp
  next
    fix q n assume q: "sessions t q = Some n"
    then have "q \<noteq> p" "sessions s q = Some n" using teq by (auto split: if_splits)
    moreover from this have "q \<noteq> NULL \<and> registered s (unat (sessionId n)) = q" using table_core_live [OF core] by blast
    ultimately show "q \<noteq> NULL \<and> registered t (unat (sessionId n)) = q" using live(2) st(2) teq by auto
  qed
  then show ?thesis using highest_relinquish [OF ids(1)] teq by (simp add: ids_bounded_def)
qed

lemma retire_runs:
  assumes core: "table_core s" and m: "sessions s p = Some m" and k: "unat k = unat (sessionId m)"
  defines "remove \<equiv> with_grant (\<lambda>al. on_sessions (excise_at_offset al k (Some destroyMatchSessionInstance)))"
    and "give \<equiv> on_pool (relinquishSessionIdentifier (uint (sessionId m)))"
  shows "\<exists>u t. remove s = Done 0 u \<and> give u = Done () t \<and> retired s p (sessionId m) t"
    "\<exists>u t. give s = Done () u \<and> remove u = Done 0 t \<and> retired s p (sessionId m) t"
proof -
  have live: "p \<noteq> NULL" "registered s (unat (sessionId m)) = p" using table_core_live [OF core m] by simp_all
  have reg: "reg_ok (activeMatchSessions s)" using core by (rule table_core_reg)
  obtain used where used: "ids_ok (identifiers s) used" "\<forall>k. registered s k \<noteq> NULL \<longrightarrow> int k \<in> used"
    using table_core_ids [OF core] by (auto simp: ids_cover_def)
  have "int (unat (sessionId m)) \<in> used" using used(2) live by blast
  with used(1) obtain ids where ids: "relinquishSessionIdentifier (uint (sessionId m)) (identifiers s) = Done () ids"
    by (rule ids_without)
  let ?gs = "snd (take_grant (memory_grants s))"
  obtain st where r: "remove s = Done 0 (s\<lparr>sessions := (sessions s)(p := None), activeMatchSessions := st, memory_grants := ?gs\<rparr>)"
    "reg_ok st" "entry st = (registered s)(unat (sessionId m) := NULL)"
    using remove_session_run [OF reg k live(2,1) m] by (auto simp: remove_def)
  then show "\<exists>u t. remove s = Done 0 u \<and> give u = Done () t \<and> retired s p (sessionId m) t"
    using ids by (auto simp: give_def on_pool_def retired_def)
  let ?u = "s\<lparr>identifiers := ids\<rparr>"
  have "reg_ok (activeMatchSessions ?u)" "registered ?u (unat (sessionId m)) = p" "sessions ?u p = Some m"
    using reg live m by simp_all
  from remove_session_run [OF this(1) k this(2) live(1) this(3)] obtain st where r:
    "remove ?u = Done 0 (?u\<lparr>sessions := (sessions ?u)(p := None), activeMatchSessions := st, memory_grants := ?gs\<rparr>)"
    "reg_ok st" "entry st = (registered ?u)(unat (sessionId m) := NULL)"
    by (auto simp: remove_def)
  let ?t = "s\<lparr>sessions := (sessions s)(p := None), activeMatchSessions := st, memory_grants := ?gs, identifiers := ids\<rparr>"
  have "give s = Done () ?u" using ids by (simp add: give_def on_pool_def)
  moreover have "remove ?u = Done 0 ?t" using r(1) by simp
  moreover have "retired s p (sessionId m) ?t" using r(2,3) ids by (auto simp: retired_def)
  ultimately show "\<exists>u t. give s = Done () u \<and> remove u = Done 0 t \<and> retired s p (sessionId m) t" by blast
qed

end
