(* ===== verification/Table_Invariant.thy ===== *)
theory Table_Invariant
  imports Session_Table
begin

text \<open>
  Every operation of the server keeps the invariant of the session table, whatever the clients send,
  whatever is refused and wherever a thread ends. Most operations do not touch the table at all;
  creating a session, finishing a match and the clean-up of a connection take it from one state of
  the invariant to another.
\<close>

section \<open>Registry calls and assertions on the server\<close>

lemma keeps_on_fst [keeps_rules]: "keeps (\<lambda>x. P (snd x)) (on_fst m)"
  by (auto simp: keeps_def on_fst_def split: outcome.splits)

lemma keeps_on_snd [keeps_rules]: "keeps P m \<Longrightarrow> keeps (\<lambda>x. P (snd x)) (on_snd m)"
  by (fastforce simp: keeps_def on_snd_def split: outcome.splits)

lemma keeps_run_hook: "(\<And>slot. keeps P (h slot)) \<Longrightarrow> keeps (\<lambda>x. P (snd x)) (run_hook h k)"
  unfolding run_hook_def by (intro keeps_rules) auto

lemma keeps_lift_store_with: "keeps (\<lambda>x. P (snd x)) m \<Longrightarrow> P w \<Longrightarrow> after (\<lambda>x. P (snd x)) (lift_store_with m (st, w))"
  using keepsD [of "\<lambda>x. P (snd x)" m "(st, w)"] by (auto simp: lift_store_with_def split: outcome.splits)

lemma keeps_excise [keeps_rules]:
  assumes "\<And>slot. keeps P (h slot)"
  shows "keeps (\<lambda>x. P (snd x)) (excise_at_offset al k (Some h))"
proof (rule keepsI)
  fix s :: "dyn_array option \<times> 'a" assume s: "P (snd s)"
  obtain r w where rw: "s = (r, w)" by (cases s)
  show "after (\<lambda>x. P (snd x)) (excise_at_offset al k (Some h) s)"
  proof (cases r)
    case None
    then show ?thesis using s rw by (simp add: excise_at_offset_def)
  next
    case (Some st)
    show ?thesis
      unfolding rw Some excise_at_offset_def prod.case option.case
      using s rw by (intro keeps_lift_store_with keeps_rules keeps_run_hook assms) simp_all
  qed
qed

lemma keeps_on_sessions:
  assumes "\<And>s st. P s \<Longrightarrow> P (s\<lparr>activeMatchSessions := st\<rparr>)" "keeps (\<lambda>x. P (snd x)) m"
  shows "keeps P (on_sessions m)"
proof (rule keepsI)
  fix s assume "P s"
  then have "after (\<lambda>x. P (snd x)) (m (Some (activeMatchSessions s), s))" using keepsD [OF assms(2)] by simp
  then show "after P (on_sessions m s)" using assms(1) by (auto simp: on_sessions_def split: outcome.splits)
qed

lemma keeps_on_players:
  assumes "\<And>s st. P s \<Longrightarrow> P (s\<lparr>activePlayerNodes := st\<rparr>)" "keeps (\<lambda>x. P (snd x)) m"
  shows "keeps P (on_players m)"
proof (rule keepsI)
  fix s assume "P s"
  then have "after (\<lambda>x. P (snd x)) (m (Some (activePlayerNodes s), s))" using keepsD [OF assms(2)] by simp
  then show "after P (on_players m s)" using assms(1) by (auto simp: on_players_def split: outcome.splits)
qed

lemma keeps_with_grant:
  assumes "\<And>s gs. P s \<Longrightarrow> P (s\<lparr>memory_grants := gs\<rparr>)" "\<And>al. keeps P (f al)"
  shows "keeps P (with_grant f)"
proof (rule keepsI)
  fix s assume "P s"
  then show "after P (with_grant f s)"
    using assms(1) keepsD [OF assms(2)] by (simp add: with_grant_def split: prod.splits)
qed

lemma keeps_environment [keeps_rules]:
  "(\<And>s x. P s \<Longrightarrow> P (s\<lparr>memory_grants := x\<rparr>)) \<Longrightarrow> keeps P system_grant"
  "(\<And>s x. P s \<Longrightarrow> P (s\<lparr>memory_grants := x\<rparr>)) \<Longrightarrow> keeps P (malloc_buffer n)"
  "(\<And>s x. P s \<Longrightarrow> P (s\<lparr>struct_addresses := x\<rparr>)) \<Longrightarrow> keeps P malloc_struct"
  "(\<And>s x. P s \<Longrightarrow> P (s\<lparr>clock := x\<rparr>)) \<Longrightarrow> keeps P read_clock"
  "(\<And>s x. P s \<Longrightarrow> P (s\<lparr>closed := x\<rparr>)) \<Longrightarrow> keeps P (close_socket fd)"
  by (auto simp: keeps_def system_grant_def malloc_buffer_def malloc_struct_def read_clock_def close_socket_def
      modify_def Let_def split: prod.splits list.splits)

lemma keeps_scan_sessions [keeps_rules]: "(\<And>k. keeps P (body k)) \<Longrightarrow> keeps P (scan_sessions ks body)"
  by (induction ks) (auto intro!: keeps_rules)

lemma keeps_for_sessions [keeps_rules]: "(\<And>k. keeps P (body k)) \<Longrightarrow> keeps P (for_sessions body)"
  unfolding for_sessions_def by (intro keeps_rules)

lemma keeps_scan_players [keeps_rules]: "(\<And>k. keeps P (body k)) \<Longrightarrow> keeps P (scan_players ks body)"
  by (induction ks) (auto intro!: keeps_rules)

lemma keeps_for_players [keeps_rules]: "(\<And>k. keeps P (body k)) \<Longrightarrow> keeps P (for_players body)"
  unfolding for_players_def by (intro keeps_rules)

lemma keeps_case_mutex [keeps_rules]:
  "keeps P a \<Longrightarrow> keeps P b \<Longrightarrow> keeps P c \<Longrightarrow> keeps P (case x of Unlocked \<Rightarrow> a | Locked \<Rightarrow> b | Dead \<Rightarrow> c)"
  by (cases x) simp_all

lemma keeps_case_sum [keeps_rules]:
  "(\<And>a. x = Inl a \<Longrightarrow> keeps P (m a)) \<Longrightarrow> (\<And>b. x = Inr b \<Longrightarrow> keeps P (n b)) \<Longrightarrow>
   keeps P (case x of Inl a \<Rightarrow> m a | Inr b \<Rightarrow> n b)"
  by (cases x) simp_all

lemma keeps_move_loop:
  assumes "\<And>p. keeps P (one_move ms p)"
  shows "keeps P (move_loop ms p)"
proof (rule keepsI)
  fix s show "P s \<Longrightarrow> after P (move_loop ms p s)"
    using assms
  proof (induction ms p s rule: move_loop.induct)
    case (1 ms p s)
    note m = 1(3) [of p]
    show ?case
    proof (cases "one_move ms p s")
      case (Done r t)
      obtain b st q where r: "r = (b, st, q)" by (cases r)
      have "P t" using keeps_Done [OF m Done 1(2)] .
      then show ?thesis using 1(1) [OF Done r [symmetric] refl] 1(3) Done r by (subst move_loop.simps) simp
    qed (use keepsD [OF m 1(2)] in \<open>simp_all add: move_loop.simps\<close>)
  qed
qed

lemma keeps_play_rounds:
  assumes "keeps P (one_round ms)"
  shows "keeps P (play_rounds ms)"
proof (rule keepsI)
  fix s show "P s \<Longrightarrow> after P (play_rounds ms s)"
    using assms
  proof (induction ms s rule: play_rounds.induct)
    case (1 ms s)
    show ?case
    proof (cases "one_round ms s")
      case (Done r t)
      have "P t" using keeps_Done [OF 1(3) Done 1(2)] .
      then show ?thesis using 1(1) [OF Done] 1(3) Done by (subst play_rounds.simps) simp
    qed (use keepsD [OF 1(3,2)] in \<open>simp_all add: play_rounds.simps\<close>)
  qed
qed

section \<open>Operations that do not touch the table\<close>

lemma fetch_session_same:
  assumes "reg_ok (activeMatchSessions s)"
  shows "\<exists>r. fetch_session k s = Done r s"
  using fetch_spec [of "activeMatchSessions s" "word_of_nat k"] reg_ok_da [OF assms]
  by (auto simp: fetch_session_def on_sessions_def cmd_defs outcome_simps split: option.splits)

text \<open>Once too many identifiers have been drawn, they stay drawn.\<close>

abbreviation overdrawn :: "server \<Rightarrow> bool" where
  "overdrawn s \<equiv> \<not> ids_bounded s"

lemma table_by_cases:
  assumes "keeps overdrawn m" "\<And>s. ids_bounded s \<Longrightarrow> table_core s \<Longrightarrow> after table_ok (m s)"
  shows "keeps table_ok m"
proof (rule keepsI)
  fix s assume s: "table_ok s"
  show "after table_ok (m s)"
  proof (cases "ids_bounded s")
    case True
    then show ?thesis using assms(2) s by (simp add: table_ok_def)
  next
    case False
    from keepsD [OF assms(1) this] show ?thesis by (rule after_mono) (simp add: table_ok_def)
  qed
qed

lemma keeps_table_fetch [keeps_rules]: "keeps table_ok (fetch_session k)"
proof (rule table_by_cases)
  show "keeps overdrawn (fetch_session k)"
    unfolding fetch_session_def by (intro keeps_rules keeps_on_sessions) (simp_all add: ids_bounded_def)
next
  fix s assume "ids_bounded s" "table_core s"
  then show "after table_ok (fetch_session k s)"
    using fetch_session_same [of s k] by (auto simp: table_core_reg table_ok_def)
qed

lemma keeps_table_fetch_player [keeps_rules]: "keeps table_ok (fetch_player k)"
  unfolding fetch_player_def by (intro keeps_rules keeps_on_players) simp

lemma keeps_table_locks [keeps_rules]: "keeps table_ok (lock_stream p)" "keeps table_ok (unlock_stream p)"
  unfolding lock_stream_def unlock_stream_def by (intro keeps_rules)+

lemma keeps_table_diagnostics [keeps_rules]:
  "keeps table_ok dump_registry" "keeps table_ok broadcast_session_state_update" "keeps table_ok audit_sessions"
  unfolding dump_registry_def broadcast_session_state_update_def audit_sessions_def
  by (intro keeps_rules; simp)+

lemma keeps_table_one_move [keeps_rules]: "keeps table_ok (one_move ms p)"
  unfolding one_move_def apply_move_def by (intro keeps_rules; simp)

lemma keeps_table_rematch [keeps_rules]: "keeps table_ok (invoke_rematch ms)"
  unfolding invoke_rematch_def execute_rematch_polling_def fetch_draw_verdict_def
  by (intro keeps_rules; simp add: keeps_def)

lemma keeps_table_play_rounds [keeps_rules]: "keeps table_ok (play_rounds ms)"
  by (intro keeps_play_rounds) (unfold one_round_def start_round_def end_round_def, intro keeps_rules keeps_move_loop; simp)

section \<open>Finishing a match\<close>

lemma overdrawn_updates [simp]:
  "ids_bounded (s\<lparr>sessions := a\<rparr>) = ids_bounded s" "ids_bounded (s\<lparr>activeMatchSessions := b\<rparr>) = ids_bounded s"
  "ids_bounded (s\<lparr>memory_grants := c\<rparr>) = ids_bounded s"
  by (simp_all add: ids_bounded_def)

lemma keeps_overdrawn_close [keeps_rules]:
  "keeps overdrawn (on_pool (relinquishSessionIdentifier x))"
  "keeps overdrawn (with_grant (\<lambda>al. on_sessions (excise_at_offset al k (Some destroyMatchSessionInstance))))"
proof -
  have "keeps overdrawn (destroyMatchSessionInstance slot)" for slot
    unfolding destroyMatchSessionInstance_def deallocateGridMatrixBuffer_def
    by (intro keeps_rules; simp)
  then show "keeps overdrawn (with_grant (\<lambda>al. on_sessions (excise_at_offset al k (Some destroyMatchSessionInstance))))"
    by (intro keeps_with_grant keeps_on_sessions keeps_rules) simp_all
  show "keeps overdrawn (on_pool (relinquishSessionIdentifier x))"
    by (auto simp: keeps_def on_pool_def ids_bounded_def relinquishSessionIdentifier_def Let_def)
qed

text \<open>Removing the session a thread holds and returning its identifier.\<close>

lemma keeps_table_close:
  "keeps table_ok (andThen (get_session ms) (\<lambda>m.
     andThen (with_grant (\<lambda>al. on_sessions (excise_at_offset al (word_of_int (uint (sessionId m))) (Some destroyMatchSessionInstance)))) (\<lambda>rc.
     if rc = 0 then on_pool (relinquishSessionIdentifier (uint (sessionId m))) else ret ())))"
  (is "keeps _ ?c")
proof (rule table_by_cases)
  show "keeps overdrawn ?c" by (intro keeps_rules)
next
  fix s assume s: "ids_bounded s" "table_core s"
  show "after table_ok (?c s)"
  proof (cases "ms = NULL \<or> sessions s ms = None")
    case True
    then show ?thesis by (auto simp: andThen_def get_session_def)
  next
    case False
    then obtain m where m: "sessions s ms = Some m" and g: "get_session ms s = Done m s" by (auto simp: get_session_def)
    from retire_runs(1) [OF s(2) m unat_word_of_id] obtain u t where
      r: "with_grant (\<lambda>al. on_sessions (excise_at_offset al (word_of_int (uint (sessionId m))) (Some destroyMatchSessionInstance))) s = Done 0 u"
        "on_pool (relinquishSessionIdentifier (uint (sessionId m))) u = Done () t" "retired s ms (sessionId m) t" by blast
    have "table_ok t" using retired_table [OF s(2) m r(3)] s(1) by (simp add: table_ok_def)
    then show ?thesis using g r by (simp add: andThen_def)
  qed
qed

lemma keeps_table_close_then:
  assumes "keeps table_ok (k ())"
  shows "keeps table_ok (andThen (get_session ms) (\<lambda>m.
     andThen (with_grant (\<lambda>al. on_sessions (excise_at_offset al (word_of_int (uint (sessionId m))) (Some destroyMatchSessionInstance)))) (\<lambda>rc.
     andThen (if rc = 0 then on_pool (relinquishSessionIdentifier (uint (sessionId m))) else ret ()) k)))"
  using keeps_andThen [OF keeps_table_close, of k ms] assms by (simp add: andThen_assoc)

lemma keeps_table_finish [keeps_rules]: "keeps table_ok (finish_match ms)"
  unfolding finish_match_def Let_def
  by (rule keeps_andThen [OF keeps_get(2)], rule keeps_andThen [OF keeps_table_set_node],
      rule keeps_andThen [OF keeps_table_set_node], rule keeps_andThen [OF keeps_table_diagnostics(1)],
      rule keeps_table_close_then) (intro keeps_rules)

lemma keeps_table_core_loop [keeps_rules]: "keeps table_ok (execute_core_loop ms b)"
  unfolding execute_core_loop_def by (intro keeps_rules)

section \<open>The clean-up of a connection\<close>

lemma keeps_overdrawn_fetch [keeps_rules]: "keeps overdrawn (fetch_session k)"
  unfolding fetch_session_def by (intro keeps_rules keeps_on_sessions) simp

text \<open>One slot of the clean-up, in the terms of the table.\<close>

lemma purge_orphan_run:
  assumes core: "table_core s" and k: "k \<le> unat SIZE_MAX"
  shows "if registered s k = NULL then purge_orphan p k s = Done () s
    else (\<exists>m. sessions s (registered s k) = Some m \<and> unat (sessionId m) = k \<and>
      (if participantPrimary m = p then \<exists>t. purge_orphan p k s = Done () t \<and> retired s (registered s k) (sessionId m) t
       else purge_orphan p k s = Done () s))"
proof (cases "registered s k = NULL")
  case True
  then show ?thesis using fetch_session_run [OF table_core_store [OF core] k]
    by (simp add: purge_orphan_def cmd_defs)
next
  case False
  with core obtain m where m: "sessions s (registered s k) = Some m" "unat (sessionId m) = k"
    by (rule table_core_registered)
  have g: "fetch_session k s = Done (0, registered s k) s" "get_session (registered s k) s = Done m s"
    using fetch_session_run [OF table_core_store [OF core] k] entry_in_range [OF False] m(1) False
    by (simp_all add: get_session_def)
  have "unat (word_of_nat k :: u64) = unat (sessionId m)" using k m(2) by (simp add: unat_of_nat)
  from retire_runs(2) [OF core m(1) this] obtain u t where
    "on_pool (relinquishSessionIdentifier (uint (sessionId m))) s = Done () u"
    "with_grant (\<lambda>al. on_sessions (excise_at_offset al (word_of_nat k) (Some destroyMatchSessionInstance))) u = Done 0 t"
    "retired s (registered s k) (sessionId m) t" by blast
  then show ?thesis using False m g by (simp add: purge_orphan_def cmd_defs)
qed

text \<open>An index counts as a \<^verbatim>\<open>size_t\<close>.\<close>

lemma purge_orphan_wrap: "purge_orphan p k = purge_orphan p (unat (word_of_nat k :: u64))"
proof -
  have "word_of_nat (unat (word_of_nat k :: u64)) = (word_of_nat k :: u64)" by simp
  then show ?thesis by (simp only: purge_orphan_def fetch_session_def)
qed

lemma keeps_table_expel [keeps_rules]: "keeps table_ok (expel_player fd)"
proof -
  have hook: "keeps table_ok (destroyPlayerNodeInstance slot)" for slot
    unfolding destroyPlayerNodeInstance_def by (intro keeps_rules keeps_destroy_lock; simp)
  show ?thesis
    unfolding expel_player_def by (intro keeps_rules keeps_with_grant keeps_on_players hook) simp_all
qed

lemma keeps_table_leave [keeps_rules]: "keeps table_ok (leave_link p fd)"
proof -
  have "keeps table_ok (purge_orphans p)"
    unfolding purge_orphans_def
  proof (rule keeps_for_sessions, rule table_by_cases)
    fix k
    show "keeps overdrawn (purge_orphan p k)" unfolding purge_orphan_def by (intro keeps_rules)
    fix s assume s: "ids_bounded s" "table_core s"
    let ?k = "unat (word_of_nat k :: u64)"
    have "?k \<le> unat SIZE_MAX" using unat_le_size_max [of "word_of_nat k"] by simp
    from purge_orphan_run [OF s(2) this, of p] have "after table_ok (purge_orphan p ?k s)"
      using s retired_table [OF s(2)] by (auto simp: table_ok_def split: if_splits)
    then show "after table_ok (purge_orphan p k s)" using purge_orphan_wrap [of p k] by simp
  qed
  then show ?thesis unfolding leave_link_def by (intro keeps_rules) simp_all
qed

lemma keeps_table_enter [keeps_rules]: "keeps table_ok (enter_link fd)"
  unfolding enter_link_def by (intro keeps_rules keeps_with_grant keeps_on_players keeps_modify; simp)

section \<open>Creating a session\<close>

text \<open>
  Commands that go from one assertion to another: \<open>Q\<close> of the value and the state if it returns, \<open>E\<close>
  where it ends the thread.
\<close>

definition leads ::
  "('s \<Rightarrow> bool) \<Rightarrow> ('s, 'a) cmd \<Rightarrow> ('a \<Rightarrow> 's \<Rightarrow> bool) \<Rightarrow> ('s \<Rightarrow> bool) \<Rightarrow> bool" where
  "leads P m Q E \<longleftrightarrow> (\<forall>s. P s \<longrightarrow> (case m s of Done a t \<Rightarrow> Q a t | Exited t \<Rightarrow> E t | Halted t \<Rightarrow> True | Fault f \<Rightarrow> True))"

lemma leads_andThen:
  assumes "leads P m Q E" "\<And>a. leads (Q a) (k a) R E"
  shows "leads P (andThen m k) R E"
  using assms by (fastforce simp: leads_def andThen_def split: outcome.splits)

lemma leads_keeps: "keeps P m \<Longrightarrow> (\<And>s. P s \<Longrightarrow> E s) \<Longrightarrow> leads P m (\<lambda>_. P) E"
  by (fastforce simp: leads_def keeps_def split: outcome.splits)

lemma keeps_leads: "keeps P m \<longleftrightarrow> leads P m (\<lambda>_. P) P"
proof -
  have "after P r \<longleftrightarrow> (case r of Done _ t \<Rightarrow> P t | Exited t \<Rightarrow> P t | Halted t \<Rightarrow> True | Fault f \<Rightarrow> True)" for r :: "('b, 'a) outcome"
    by (cases r) simp_all
  then show ?thesis by (simp add: keeps_def leads_def)
qed

lemma leads_exit: "(\<And>s. P s \<Longrightarrow> E s) \<Longrightarrow> leads P thread_exit Q E"
  by (simp add: leads_def thread_exit_def)

lemma leads_if: "(b \<Longrightarrow> leads P m Q E) \<Longrightarrow> (\<not> b \<Longrightarrow> leads P n Q E) \<Longrightarrow> leads P (if b then m else n) Q E"
  by simp

text \<open>An identifier drawn for a session that is not registered yet.\<close>

definition id_drawn :: "int \<Rightarrow> server \<Rightarrow> bool" where
  "id_drawn x s \<longleftrightarrow> (ids_bounded s \<longrightarrow> table_core s \<and> 0 \<le> x \<and> x < 65536 \<and>
     (\<exists>used. ids_ok (identifiers s) used \<and> x \<in> used \<and> (\<forall>k. registered s k \<noteq> NULL \<longrightarrow> int k \<in> used - {x})))"

lemma id_drawn_table: "id_drawn x s \<Longrightarrow> table_ok s"
  by (simp add: id_drawn_def table_ok_def)

lemma table_core_updates [simp]:
  "table_core (s\<lparr>nodes := a\<rparr>) = table_core s" "table_core (s\<lparr>channels := b\<rparr>) = table_core s"
  "table_core (s\<lparr>errno := c\<rparr>) = table_core s" "table_core (s\<lparr>sent := d\<rparr>) = table_core s"
  "table_core (s\<lparr>struct_addresses := f\<rparr>) = table_core s" "table_core (s\<lparr>memory_grants := g\<rparr>) = table_core s"
  "table_core (s\<lparr>randoms := h\<rparr>) = table_core s" "table_core (s\<lparr>clock := i\<rparr>) = table_core s"
  "table_core (s\<lparr>closed := j\<rparr>) = table_core s" "table_core (s\<lparr>activePlayerNodes := k\<rparr>) = table_core s"
  by (simp_all add: table_core_def ids_cover_def)

lemma id_drawn_updates [simp]:
  "id_drawn x (s\<lparr>nodes := a\<rparr>) = id_drawn x s" "id_drawn x (s\<lparr>channels := b\<rparr>) = id_drawn x s"
  "id_drawn x (s\<lparr>errno := c\<rparr>) = id_drawn x s" "id_drawn x (s\<lparr>struct_addresses := d\<rparr>) = id_drawn x s"
  "id_drawn x (s\<lparr>memory_grants := e\<rparr>) = id_drawn x s"
  by (simp_all add: id_drawn_def ids_bounded_def)

text \<open>A session struct in the heap that waits to be registered under the identifier.\<close>

definition pending_session :: "int \<Rightarrow> u64 \<Rightarrow> server \<Rightarrow> bool" where
  "pending_session x p s \<longleftrightarrow> p \<noteq> NULL \<and> (\<exists>m. sessions s p = Some m \<and> sessionId m = word_of_int x) \<and>
     id_drawn x (s\<lparr>sessions := (sessions s)(p := None)\<rparr>)"

lemma acquire_leads: "leads table_ok (on_pool acquireNewSessionIdentifier) id_drawn table_ok"
  unfolding leads_def
proof (intro allI impI)
  fix s assume s: "table_ok s"
  show "case on_pool acquireNewSessionIdentifier s of Done x t \<Rightarrow> id_drawn x t | Exited t \<Rightarrow> table_ok t
    | Halted t \<Rightarrow> True | Fault f \<Rightarrow> True"
  proof (cases "acquireNewSessionIdentifier (identifiers s)")
    case (Done x ids)
    let ?t = "s\<lparr>identifiers := ids\<rparr>"
    have "id_drawn x ?t" unfolding id_drawn_def
    proof
      assume b: "ids_bounded ?t"
      have "current_highest_id (identifiers s) \<le> current_highest_id ids"
        using Done by (auto simp: acquireNewSessionIdentifier_def Let_def split: if_splits)
      with b s have core: "table_core s" by (simp add: table_ok_def ids_bounded_def)
      obtain used where u: "ids_ok (identifiers s) used" "\<forall>k. registered s k \<noteq> NULL \<longrightarrow> int k \<in> used"
        using table_core_ids [OF core] by (auto simp: ids_cover_def)
      then have x: "x \<notin> used" "0 \<le> x" "ids_ok ids (insert x used)"
        using acquire_fresh [OF u(1)] Done by (auto split: if_splits)
      then have "x < 65536" using b by (auto simp: ids_bounded_def ids_ok_def)
      moreover have cover: "\<forall>k. registered ?t k \<noteq> NULL \<longrightarrow> int k \<in> insert x used - {x}" using u(2) x(1) by simp
      moreover have "table_core ?t"
      proof (rule table_coreI)
        show "reg_ok (activeMatchSessions ?t)" using table_core_reg [OF core] by simp
        show "ids_cover ?t" unfolding ids_cover_def using x(3) cover by auto
        show "\<exists>m. sessions ?t (registered ?t k) = Some m \<and> unat (sessionId m) = k" if "registered ?t k \<noteq> NULL" for k
          using table_core_registered [OF core, of k] that by simp blast
        show "p \<noteq> NULL \<and> registered ?t (unat (sessionId m)) = p" if "sessions ?t p = Some m" for p m
          using table_core_live [OF core, of p m] that by simp
      qed
      ultimately show "table_core ?t \<and> 0 \<le> x \<and> x < 65536 \<and> (\<exists>used. ids_ok (identifiers ?t) used \<and> x \<in> used \<and>
          (\<forall>k. registered ?t k \<noteq> NULL \<longrightarrow> int k \<in> used - {x}))" using x(2,3) by auto
    qed
    then show ?thesis using Done by (simp add: on_pool_def)
  qed (auto simp: on_pool_def acquireNewSessionIdentifier_def Let_def split: if_splits)
qed

lemma malloc_leads:
  "leads (id_drawn x) malloc_struct (\<lambda>p s. id_drawn x s \<and> (p \<noteq> NULL \<longrightarrow> sessions s p = None)) table_ok"
  by (auto simp: leads_def malloc_struct_def id_drawn_table split: list.splits)

lemma place_session_leads:
  assumes "p \<noteq> NULL"
  shows "leads (\<lambda>s. id_drawn x s \<and> (p \<noteq> NULL \<longrightarrow> sessions s p = None))
    (modify (\<lambda>s. s\<lparr>sessions := (sessions s)(p \<mapsto> fresh_session node x)\<rparr>)) (\<lambda>_. pending_session x p) table_ok"
proof -
  have "s\<lparr>sessions := (sessions s)(p := None)\<rparr> = s" if "sessions s p = None" for s :: server
    using that by (cases s) (auto simp: fun_upd_idem)
  then show ?thesis using assms by (auto simp: leads_def modify_def pending_session_def fresh_session_def)
qed

lemma keeps_id_drawn [keeps_rules]:
  "keeps (id_drawn x) (read_owner_name fd)" "keeps (id_drawn x) (replace_moniker p name)"
  unfolding read_owner_name_def receive_into_def replace_moniker_def
  by (intro keeps_rules keeps_set_node keeps_receive; simp)+

lemma pending_updates [simp]:
  "pending_session x p (s\<lparr>memory_grants := gs\<rparr>) = pending_session x p s"
  by (simp add: pending_session_def id_drawn_def ids_bounded_def table_core_def ids_cover_def)

lemma pending_grid_leads:
  "leads (pending_session x p) allocate_grid (\<lambda>_. pending_session x p) E"
  by (auto simp: leads_def allocate_grid_def allocateGridMatrixBuffer_def Let_def
      split: outcome.splits prod.splits sum.splits if_splits)

lemma pending_set_leads:
  "leads (pending_session x p) (set_session p (\<lambda>m. m\<lparr>gridMatrix := g\<rparr>)) (\<lambda>_. pending_session x p) E"
  by (auto simp: leads_def set_session_def get_session_def andThen_def pending_session_def split: option.splits)

text \<open>Registering it: on success it is in the table, otherwise it is destroyed.\<close>

lemma implant_fits:
  assumes core: "table_core (s\<lparr>sessions := (sessions s)(p := None)\<rparr>)" and x: "0 \<le> x" "x < 65536"
    and used: "ids_ok (identifiers s) used" "x \<in> used" "\<forall>k. registered s k \<noteq> NULL \<longrightarrow> int k \<in> used - {x}"
    and m: "p \<noteq> NULL" "sessions s p = Some m" "sessionId m = word_of_int x"
    and st: "reg_ok st" "entry st = (registered s)(nat x := p)"
  shows "table_core (s\<lparr>activeMatchSessions := st, memory_grants := gs\<rparr>)" (is "table_core ?t")
proof (rule table_coreI)
  let ?s = "s\<lparr>sessions := (sessions s)(p := None)\<rparr>"
  have sid: "unat (sessionId m) = nat x" using x m(3) by (simp add: unat_eq_nat_uint uint_word_of_int)
  show "reg_ok (activeMatchSessions ?t)" using st(1) by simp
  have "\<forall>k. registered ?t k \<noteq> NULL \<longrightarrow> int k \<in> used" using used(2,3) x(1) st(2) by auto
  then show "ids_cover ?t" using used(1) unfolding ids_cover_def by auto
  fix k assume "registered ?t k \<noteq> NULL"
  show "\<exists>m. sessions ?t (registered ?t k) = Some m \<and> unat (sessionId m) = k"
  proof (cases "k = nat x")
    case True
    then show ?thesis using m sid st(2) by simp
  next
    case False
    then have "registered ?s k \<noteq> NULL" using \<open>registered ?t k \<noteq> NULL\<close> st(2) by simp
    with core obtain n where n: "sessions ?s (registered ?s k) = Some n" "unat (sessionId n) = k"
      by (rule table_core_registered)
    then have "sessions s (registered s k) = Some n" by (simp split: if_splits)
    then show ?thesis using n(2) False st(2) by simp
  qed
next
  let ?s = "s\<lparr>sessions := (sessions s)(p := None)\<rparr>"
  have sid: "unat (sessionId m) = nat x" using x m(3) by (simp add: unat_eq_nat_uint uint_word_of_int)
  fix q n assume q: "sessions ?t q = Some n"
  show "q \<noteq> NULL \<and> registered ?t (unat (sessionId n)) = q"
  proof (cases "q = p")
    case True
    then show ?thesis using q m sid st(2) by simp
  next
    case False
    then have "sessions ?s q = Some n" using q by simp
    from table_core_live [OF core this] have live: "q \<noteq> NULL" "registered s (unat (sessionId n)) = q" by simp_all
    then have "unat (sessionId n) \<noteq> nat x" using used(3) x(1) by auto
    then show ?thesis using live st(2) by simp
  qed
qed

lemma unat_word_of_small: "0 \<le> x \<Longrightarrow> x < 65536 \<Longrightarrow> unat (word_of_int x :: u64) = nat x"
  by (simp add: unat_eq_nat_uint uint_word_of_int)

text \<open>The three things that can happen when the session is put under its identifier.\<close>

lemma register_run:
  assumes reg: "reg_ok (activeMatchSessions s)" and x: "0 \<le> x" "x < 65536" "registered s (nat x) = NULL"
    and p: "p \<noteq> NULL" "sessions s p = Some m" and g: "take_grant (memory_grants s) = (b, gs)"
  shows "if allocated_slots (activeMatchSessions s) < word_of_int x \<or> \<not> can_grow (one_grant b) (table_of (activeMatchSessions s))
      then register_session p x s = Exited (s\<lparr>memory_grants := gs, sessions := (sessions s)(p := None)\<rparr>)
    else if word_of_int x = allocated_slots (activeMatchSessions s) \<and>
        occupied_slots (activeMatchSessions s) < allocated_slots (activeMatchSessions s)
      then register_session p x s = Fault Out_Of_Bounds
    else \<exists>st. register_session p x s = Done () (s\<lparr>memory_grants := gs, activeMatchSessions := st\<rparr>) \<and>
      reg_ok st \<and> entry st = (registered s)(nat x := p)"
proof -
  let ?R = "activeMatchSessions s" and ?al = "one_grant b" and ?w = "s\<lparr>memory_grants := gs\<rparr>"
  let ?call = "implant_at_offset ?al (word_of_int x) (Some (ptr_bytes p)) (Some ?R)"
  have da: "da_ok ?R" "within ?R" "length (ptr_bytes p) = unat (element_byte_footprint ?R)"
    using reg_ok_da [OF reg] reg_ok_within [OF reg] by simp_all
  have ux: "unat (word_of_int x :: u64) = nat x" using x(1,2) by (rule unat_word_of_small)
  have run: "with_grant (\<lambda>al. on_sessions (on_fst (implant_at_offset al (word_of_int x) (Some (ptr_bytes p))))) s =
      (case ?call of Done rc r \<Rightarrow> Done rc (?w\<lparr>activeMatchSessions := the r\<rparr>) | Exited r \<Rightarrow> Exited (?w\<lparr>activeMatchSessions := the r\<rparr>)
       | Halted r \<Rightarrow> Halted (?w\<lparr>activeMatchSessions := the r\<rparr>) | Fault f \<Rightarrow> Fault f)"
    by (simp add: g with_grant_def on_sessions_def outcome_simps split: outcome.splits)
  have same: "?w\<lparr>activeMatchSessions := ?R\<rparr> = ?w" by simp
  have kill: "destroyMatchSessionInstance (ptr_bytes p) ?w = Done (ptr_bytes NULL) (?w\<lparr>sessions := (sessions ?w)(p := None)\<rparr>)"
    using p by (intro destroy_session_run) simp_all
  show ?thesis
  proof (cases "allocated_slots ?R < word_of_int x \<or> \<not> can_grow ?al (table_of ?R)")
    case True
    then have "?call = Done (-1) (Some ?R)" using implant_spec [OF da, of "word_of_int x" ?al] by simp
    then show ?thesis using True run kill same
      by (simp add: register_session_def andThen_def thread_exit_def)
  next
    case can: False
    show ?thesis
    proof (cases "word_of_int x = allocated_slots ?R \<and> occupied_slots ?R < allocated_slots ?R")
      case True
      then have "?call = Fault Out_Of_Bounds" using can implant_spec [OF da, of "word_of_int x" ?al] by simp
      then have "register_session p x s = Fault Out_Of_Bounds"
        using run by (simp add: register_session_def andThen_def)
      then show ?thesis using True can by simp
    next
      case False
      then obtain st where st: "?call = Done 0 (Some st)" using can implant_spec [OF da, of "word_of_int x" ?al] by auto
      have "reg_ok st \<and> entry st = (registered s)(unat (word_of_int x :: u64) := p)"
        using x(3) ux p(1) by (intro implant_pointer [OF reg _ _ st]) simp_all
      moreover have "register_session p x s = Done () (?w\<lparr>activeMatchSessions := st\<rparr>)"
        using run st by (simp add: register_session_def cmd_defs)
      ultimately show ?thesis using can False ux by auto
    qed
  qed
qed

lemma pending_registered:
  assumes "pending_session x p s" "ids_bounded s" "reg_ok st" "entry st = (registered s)(nat x := p)"
  shows "table_core (s\<lparr>activeMatchSessions := st, memory_grants := gs\<rparr>)"
proof -
  obtain m where m: "p \<noteq> NULL" "sessions s p = Some m" "sessionId m = word_of_int x"
    and drawn: "id_drawn x (s\<lparr>sessions := (sessions s)(p := None)\<rparr>)" using assms(1) by (auto simp: pending_session_def)
  with assms(2) obtain used where d: "table_core (s\<lparr>sessions := (sessions s)(p := None)\<rparr>)" "0 \<le> x" "x < 65536"
    "ids_ok (identifiers s) used" "x \<in> used" "\<forall>k. registered s k \<noteq> NULL \<longrightarrow> int k \<in> used - {x}"
    by (auto simp: id_drawn_def)
  show ?thesis using d m assms(3,4) by (rule implant_fits)
qed

lemma register_leads: "leads (pending_session x p) (register_session p x) (\<lambda>_. table_ok) table_ok"
  unfolding leads_def
proof (intro allI impI)
  fix s assume s: "pending_session x p s"
  then obtain m where p: "p \<noteq> NULL" "sessions s p = Some m" "sessionId m = word_of_int x"
    and drawn: "id_drawn x (s\<lparr>sessions := (sessions s)(p := None)\<rparr>)" by (auto simp: pending_session_def)
  show "case register_session p x s of Done _ t \<Rightarrow> table_ok t | Exited t \<Rightarrow> table_ok t | Halted t \<Rightarrow> True | Fault f \<Rightarrow> True"
  proof (cases "ids_bounded s")
    case True
    with drawn obtain used where d: "table_core (s\<lparr>sessions := (sessions s)(p := None)\<rparr>)" "0 \<le> x" "x < 65536"
      "ids_ok (identifiers s) used" "x \<in> used" "\<forall>k. registered s k \<noteq> NULL \<longrightarrow> int k \<in> used - {x}"
      by (auto simp: id_drawn_def)
    have reg: "reg_ok (activeMatchSessions s)" using table_core_reg [OF d(1)] by simp
    have free: "registered s (nat x) = NULL" using d(2,6) by auto
    obtain b gs where g: "take_grant (memory_grants s) = (b, gs)" by (metis prod.exhaust)
    have swap: "s\<lparr>memory_grants := gs, sessions := (sessions s)(p := None)\<rparr> =
        s\<lparr>sessions := (sessions s)(p := None), memory_grants := gs\<rparr>"
      "s\<lparr>memory_grants := gs, activeMatchSessions := st\<rparr> = s\<lparr>activeMatchSessions := st, memory_grants := gs\<rparr>" for st
      by simp_all
    from d(1) have "table_ok (s\<lparr>memory_grants := gs, sessions := (sessions s)(p := None)\<rparr>)"
      unfolding swap by (simp add: table_ok_def)
    moreover have "reg_ok st \<Longrightarrow> entry st = (registered s)(nat x := p) \<Longrightarrow>
        table_ok (s\<lparr>memory_grants := gs, activeMatchSessions := st\<rparr>)" for st
      unfolding swap using implant_fits [OF d p, of st gs] by (simp add: table_ok_def)
    ultimately show ?thesis using register_run [OF reg d(2,3) free p(1,2) g] by (auto split: if_splits)
  next
    case False
    have "keeps overdrawn (register_session p x)"
      unfolding register_session_def destroyMatchSessionInstance_def deallocateGridMatrixBuffer_def
      by (intro keeps_rules keeps_with_grant keeps_on_sessions; simp)
    from keepsD [OF this False] show ?thesis by (auto simp: table_ok_def split: outcome.splits)
  qed
qed

lemma keeps_table_discard [keeps_rules]: "keeps table_ok (discard_name fd)"
  unfolding discard_name_def by (intro keeps_rules; simp)

lemma create_leads: "leads table_ok (create_session p fd) (\<lambda>_. table_ok) table_ok"
proof -
  have tail: "leads (pending_session x q) (andThen allocate_grid (\<lambda>grid.
       andThen (set_session q (\<lambda>m. m\<lparr>gridMatrix := Some grid\<rparr>)) (\<lambda>_.
       andThen (register_session q x) (\<lambda>_.
       andThen (set_session q (\<lambda>m. m\<lparr>currentState := STATE_PENDING_PLYR\<rparr>)) (\<lambda>_.
       andThen (set_node p (\<lambda>n. n\<lparr>activeSessionId := x\<rparr>)) (\<lambda>_.
       andThen audit_sessions (\<lambda>_.
       andThen broadcast_session_state_update (\<lambda>_. ret 0))))))))  (\<lambda>_. table_ok) table_ok" for x q
  proof (rule leads_andThen [OF pending_grid_leads], rule leads_andThen [OF pending_set_leads],
      rule leads_andThen [OF register_leads], rule iffD1 [OF keeps_leads])
    show "keeps table_ok (andThen (set_session q (\<lambda>m. m\<lparr>currentState := STATE_PENDING_PLYR\<rparr>)) (\<lambda>_.
       andThen (set_node p (\<lambda>n. n\<lparr>activeSessionId := x\<rparr>)) (\<lambda>_.
       andThen audit_sessions (\<lambda>_.
       andThen broadcast_session_state_update (\<lambda>_. ret 0)))))"
      by (intro keeps_rules) simp
  qed
  show ?thesis
    unfolding create_session_def
    by (intro leads_andThen [OF acquire_leads] leads_andThen [OF leads_keeps [OF keeps_id_drawn(1)]]
        leads_andThen [OF leads_keeps [OF keeps_id_drawn(2)]] leads_andThen [OF malloc_leads] leads_if leads_exit
        leads_andThen [OF place_session_leads tail])
      (auto intro: id_drawn_table)
qed

lemma keeps_table_instantiation [keeps_rules]: "keeps table_ok (process_instantiation_request p)"
  unfolding process_instantiation_request_def Let_def
  by (intro keeps_rules) (simp add: keeps_leads create_leads)

lemma keeps_table_joining [keeps_rules]:
  "keeps table_ok (refuse_bound_player fd)" "keeps table_ok (replace_moniker p name)" "keeps table_ok (ask_owner p fd txt)"
  unfolding refuse_bound_player_def replace_moniker_def ask_owner_def by (intro keeps_rules)+

lemma keeps_table_joiner_name [keeps_rules]: "keeps table_ok (read_joiner_name fd)"
  unfolding read_joiner_name_def Let_def receive_into_def by (intro keeps_rules; simp)

lemma keeps_table_activation [keeps_rules]: "keeps table_ok (process_activation_request p)"
  unfolding process_activation_request_def challenge_owner_def Let_def by (intro keeps_rules) simp_all

lemma keeps_table_queue [keeps_rules]: "keeps table_ok (process_queue_fetch print_json fd)"
proof -
  have "keeps table_ok (collect_items ks)" for ks
    by (induction ks) (auto simp: session_item_def intro!: keeps_rules)
  then show ?thesis unfolding process_queue_fetch_def by (intro keeps_rules; simp)
qed

section \<open>A whole connection\<close>

lemma keeps_table_opcode [keeps_rules]: "keeps table_ok (receive_opcode fd old)"
  by (auto simp: keeps_def receive_opcode_def split: recv_result.splits prod.splits)

lemma keeps_table_dispatch [keeps_rules]: "keeps table_ok (dispatch_opcode print_json p fd k)"
  unfolding dispatch_opcode_def by (intro keeps_rules)

lemma keeps_table_deadline [keeps_rules]: "keeps table_ok (check_deadline p lk)"
  unfolding check_deadline_def by (intro keeps_rules; simp)

lemma keeps_case_poll [keeps_rules]:
  "keeps P a \<Longrightarrow> keeps P b \<Longrightarrow> keeps P c \<Longrightarrow> keeps P (case x of Poll_Failed \<Rightarrow> a | Readable \<Rightarrow> b | Quiet \<Rightarrow> c)"
  by (cases x) simp_all

lemma keeps_table_poll_round [keeps_rules]: "keeps table_ok (poll_round print_json p fd mux lk)"
  unfolding poll_round_def by (intro keeps_rules) simp

lemma keeps_table_poll_loop [keeps_rules]: "keeps table_ok (poll_loop print_json p fd polls lk)"
proof (induction polls arbitrary: lk)
  case (Cons x xs)
  show ?case unfolding poll_loop.simps by (intro keeps_rules Cons)
qed (simp add: keeps_ret)

end
