(* ===== verification/Requests_Spec.thy ===== *)
theory Requests_Spec
  imports Match_Spec Table_Invariant
begin

text \<open>
  What the requests do, on every branch that matters to a client: a player who is in a session is
  refused, a session is created and registered, the listing shows exactly the registry, a session
  that is not there is declined.
\<close>

section \<open>Reading the whole table\<close>

text \<open>The sessions whose nodes are alive: what every dump and listing follows.\<close>

definition readable :: "server \<Rightarrow> match_session \<Rightarrow> bool" where
  "readable s m \<longleftrightarrow>
     participantPrimary m \<noteq> NULL \<and> nodes s (participantPrimary m) \<noteq> None \<and>
     (participantSecondary m \<noteq> NULL \<longrightarrow> nodes s (participantSecondary m) \<noteq> None) \<and>
     (case gridMatrix m of None \<Rightarrow> False | Some g \<Rightarrow> board_ok g)"

definition table_readable :: "server \<Rightarrow> bool" where
  "table_readable s \<longleftrightarrow> (\<forall>p m. sessions s p = Some m \<longrightarrow> readable s m)"

lemma get_node_live: "p \<noteq> NULL \<Longrightarrow> nodes s p = Some n \<Longrightarrow> get_node p s = Done n s"
  by (simp add: get_node_def)

lemma get_session_live: "p \<noteq> NULL \<Longrightarrow> sessions s p = Some m \<Longrightarrow> get_session p s = Done m s"
  by (simp add: get_session_def)

lemma dump_player_live: "p = NULL \<or> nodes s p \<noteq> None \<Longrightarrow> dumpPlayerNodeDiagnostics p s = Done () s"
  by (auto simp: dumpPlayerNodeDiagnostics_def get_node_def cmd_defs)

lemma dump_readable:
  assumes "p \<noteq> NULL" "sessions s p = Some m" "readable s m"
  shows "dumpMatchSessionDiagnostics p s = Done () s"
proof -
  obtain g where g: "gridMatrix m = Some g" "board_ok g" using assms(3) by (auto simp: readable_def split: option.splits)
  have "for_each [0..<3 :: nat] (\<lambda>r. for_each [0..<3 :: nat] (\<lambda>c.
      andThen (checked (grid_read g (int r) (int c))) (\<lambda>_. ret ()))) s = Done () s"
    using g(2) by (auto simp: upt3 grid_read_def cmd_defs elim!: board_cases)
  moreover have "dumpPlayerNodeDiagnostics (participantPrimary m) s = Done () s"
    "dumpPlayerNodeDiagnostics (participantSecondary m) s = Done () s"
    using assms(3) by (auto intro!: dump_player_live simp: readable_def)
  ultimately show ?thesis using assms(1,2) g(1)
    by (simp add: dumpMatchSessionDiagnostics_def get_session_live cmd_defs)
qed

lemma gets_run: "andThen (gets f) k s = k (f s) s"
  by (simp add: cmd_defs)

lemma for_each_skip:
  assumes "\<And>i. i \<in> set is \<Longrightarrow> body i s = Done () s"
  shows "for_each is body s = Done () s"
  using assms by (induction "is") (auto simp: cmd_defs)

lemma scan_sessions_skip:
  assumes "\<And>i. i \<in> set is \<Longrightarrow> body i s = Done () s"
  shows "scan_sessions is body s = Done () s"
  using assms by (induction "is") (auto simp: cmd_defs)

text \<open>
  What every loop over the registry needs of it: its entries are NULL or live sessions that can be
  read. A consistent table has that, and so has one whose count is wrong or that has lost a session.
\<close>

definition registry_readable :: "server \<Rightarrow> bool" where
  "registry_readable s \<longleftrightarrow> pointer_store (activeMatchSessions s) \<and>
     (\<forall>k. registered s k \<noteq> NULL \<longrightarrow> (\<exists>m. sessions s (registered s k) = Some m \<and> readable s m))"

lemma table_registry_readable: "table_core s \<Longrightarrow> table_readable s \<Longrightarrow> registry_readable s"
  unfolding registry_readable_def table_readable_def by (metis table_core_registered table_core_store)

lemma fetch_cases:
  assumes ok: "registry_readable s" and k: "k \<le> unat SIZE_MAX"
  obtains rc where "fetch_session k s = Done (rc, NULL) s" "registered s k = NULL"
    | p m where "fetch_session k s = Done (0, p) s" "registered s k = p" "p \<noteq> NULL" "sessions s p = Some m" "readable s m"
proof (cases "registered s k = NULL")
  case True
  then show thesis using fetch_session_run [OF _ k] ok that(1) by (simp add: registry_readable_def)
next
  case False
  with ok obtain m where "sessions s (registered s k) = Some m" "readable s m" by (auto simp: registry_readable_def)
  moreover have "k < unat (allocated_slots (activeMatchSessions s))" using False by (rule entry_in_range)
  ultimately show thesis using fetch_session_run [OF _ k] ok False that(2) by (simp add: registry_readable_def)
qed

lemma index_le: "k \<in> set [0..<unat (n :: u64)] \<Longrightarrow> k \<le> unat SIZE_MAX"
  using unat_le_size_max [of n] by simp

lemma audit_skip:
  assumes "registry_readable s"
  shows "audit_sessions s = Done () s"
proof -
  have "andThen (fetch_session k) (\<lambda>(rc, surveyed).
      if rc = 0 \<and> surveyed \<noteq> NULL then dumpMatchSessionDiagnostics surveyed else ret ()) s = Done () s"
    if "k \<in> set [0..<unat (occupied_slots (activeMatchSessions s))]" for k
    using assms index_le [OF that]
  proof (rule fetch_cases)
    fix p m assume "fetch_session k s = Done (0, p) s" "p \<noteq> NULL" "sessions s p = Some m" "readable s m"
    then show ?thesis using dump_readable by (simp add: cmd_defs)
  qed (simp add: cmd_defs)
  then show ?thesis unfolding audit_sessions_def gets_run by (rule for_each_skip)
qed

lemma dump_registry_skip:
  assumes "registry_readable s"
  shows "dump_registry s = Done () s"
proof -
  have "andThen (fetch_session k) (\<lambda>(_, p). if p \<noteq> NULL then dumpMatchSessionDiagnostics p else ret ()) s = Done () s"
    if "k \<in> set [0..<unat (allocated_slots (activeMatchSessions s))]" for k
    using assms index_le [OF that]
  proof (rule fetch_cases)
    fix p m assume "fetch_session k s = Done (0, p) s" "p \<noteq> NULL" "sessions s p = Some m" "readable s m"
    then show ?thesis using dump_readable by (simp add: cmd_defs)
  qed (simp add: cmd_defs)
  then show ?thesis unfolding dump_registry_def for_sessions_def gets_run by (rule scan_sessions_skip)
qed

text \<open>With every request granted, the broadcast leaves the server as it is.\<close>

lemma system_granted: "memory_grants s = [] \<Longrightarrow> system_grant s = Done True s"
  by (simp add: system_grant_def)

lemma broadcast_skip:
  assumes "registry_readable s" "memory_grants s = []"
  shows "broadcast_session_state_update s = Done () s"
proof -
  have "andThen (fetch_session k) (\<lambda>(rc, sess_ptr).
       if rc = 0 \<and> sess_ptr \<noteq> NULL then
         andThen system_grant (\<lambda>item_obj.
         if item_obj then
           andThen (get_session sess_ptr) (\<lambda>m.
           if participantPrimary m \<noteq> NULL then andThen (get_node (participantPrimary m)) (\<lambda>_. ret ()) else ret ())
         else ret ())
       else ret ()) s = Done () s" (is "?body k s = _")
    if "k \<in> set [0..<unat (allocated_slots (activeMatchSessions s))]" for k
    using assms(1) index_le [OF that]
  proof (rule fetch_cases)
    fix p m assume "fetch_session k s = Done (0, p) s" "p \<noteq> NULL" "sessions s p = Some m" "readable s m"
    then show ?thesis using assms(2)
      by (auto simp: cmd_defs readable_def system_granted get_session_live get_node_def
        split: option.splits)
  qed (simp add: cmd_defs)
  then have "for_sessions ?body s = Done () s" unfolding for_sessions_def gets_run by (rule scan_sessions_skip)
  then show ?thesis using assms(2) by (simp add: broadcast_session_state_update_def andThen_def [of system_grant] system_granted)
qed

section \<open>Listing\<close>

definition item_of :: "server \<Rightarrow> match_session \<Rightarrow> json_item" where
  "item_of s m =
     (case nodes s (participantPrimary m) of
        None \<Rightarrow> undefined
      | Some n \<Rightarrow> \<lparr>id_game = Some (sessionId m), status_game = Some (currentState m),
          item_name = map_option c_string (identityMoniker n), creator = Some (socketDescriptor n)\<rparr>)"

text \<open>The registered sessions in index order.\<close>

definition listed :: "server \<Rightarrow> nat list \<Rightarrow> match_session list" where
  "listed s ks = map (\<lambda>k. the (sessions s (registered s k))) (filter (\<lambda>k. registered s k \<noteq> NULL) ks)"

lemma collect_listed:
  assumes "table_core s" "table_readable s" "memory_grants s = []" "\<forall>k\<in>set ks. k \<le> unat SIZE_MAX"
  shows "collect_items ks s = Done (map (item_of s) (listed s ks)) s"
  using assms(4)
proof (induction ks)
  case Nil
  then show ?case by (simp add: listed_def cmd_defs)
next
  case (Cons k ks)
  then have IH: "collect_items ks s = Done (map (item_of s) (listed s ks)) s" by simp
  have "k \<le> unat SIZE_MAX" using Cons.prems by simp
  with table_registry_readable [OF assms(1,2)] show ?case
  proof (rule fetch_cases)
    fix rc assume "fetch_session k s = Done (rc, NULL) s" "registered s k = NULL"
    then show ?thesis using IH by (simp add: andThen_def [of "fetch_session k"] listed_def)
  next
    fix p m assume f: "fetch_session k s = Done (0, p) s" "registered s k = p" "p \<noteq> NULL" "sessions s p = Some m"
    obtain n where n: "participantPrimary m \<noteq> NULL" "nodes s (participantPrimary m) = Some n"
      using assms(2) f(4) by (auto simp: table_readable_def readable_def)
    have "session_item p s = Done (item_of s m) s"
      using f(3,4) n assms(3)
      by (simp add: session_item_def get_session_live get_node_live system_granted cmd_defs item_of_def)
    then show ?thesis using f IH assms(3)
      by (simp add: andThen_def [of "fetch_session k"] system_granted cmd_defs listed_def)
  qed
qed

text \<open>
  C18. The listing a client gets is the registry: one item per registered session in index order, with
  its identifier, its state and the owner's name and socket, serialised by the JSON library and
  followed by a line feed; the server is otherwise unchanged. A serialisation that fails sends nothing.
\<close>

theorem listing_shows_registry:
  assumes "table_core s" "table_readable s" "memory_grants s = []" "fd \<notin> set (reset_peers s)"
  shows "process_queue_fetch print_json fd s =
    (case print_json (map (item_of s) (listed s [0..<unat (allocated_slots (activeMatchSessions s))])) of
       None \<Rightarrow> Done (-1) s
     | Some text \<Rightarrow> Done 0 (s\<lparr>sent := sent s @ [(fd, c_string text), (fd, [10])]\<rparr>))"
proof -
  let ?n = "unat (allocated_slots (activeMatchSessions s))"
  have "collect_items [0..<?n] s = Done (map (item_of s) (listed s [0..<?n])) s"
    using assms(1-3) index_le by (intro collect_listed) auto
  then show ?thesis using assms(3,4)
    by (simp add: process_queue_fetch_def cmd_defs system_granted send_bytes_def split: option.splits)
qed

section \<open>Creating\<close>

text \<open>A name as a client sends it.\<close>

definition name_message :: "byte list \<Rightarrow> byte list" where
  "name_message name = net32 (word_of_nat (length name)) @ name"

definition proper_name :: "byte list \<Rightarrow> bool" where
  "proper_name name \<longleftrightarrow> 1 \<le> length name \<and> length name \<le> nat LIMIT_IDENTITY_CAPACITY"

lemma name_length_read: "proper_name name \<Longrightarrow> sint (host32 (net32 (word_of_nat (length name)))) = int (length name)"
  by (simp add: proper_name_def LIMIT_IDENTITY_CAPACITY_def signed_of_nat signed_take_bit_int_eq_self)

lemma filled_full [simp]: "length bs = n \<Longrightarrow> filled n bs s = bs"
  by (simp add: filled_def)

lemma malloc_granted:
  "memory_grants s = [] \<Longrightarrow> malloc_buffer n s = Done (n \<le> 9223372036854775807) s"
  by (simp add: malloc_buffer_def)

lemma small_request: "0 \<le> k \<Longrightarrow> k \<le> 65 \<Longrightarrow> (word_of_int k :: u64) \<le> 9223372036854775807"
  by (simp add: word_le_def uint_word_of_int)

text \<open>Reading a name message with the two reads every handler makes.\<close>

lemma receive_name:
  assumes "inbox s fd = name_message name @ rest"
  obtains u t es e where "receive fd 4 s = Done (4, net32 (word_of_nat (length name))) u"
    "receive fd (length name) u = Done (int (length name), name) t" "memory_grants u = memory_grants s"
    "t = s\<lparr>channels := (channels s)(fd := es), errno := e\<rparr>" "pending es = rest"
proof -
  have "inbox s fd = net32 (word_of_nat (length name)) @ (name @ rest)" using assms by (simp add: name_message_def)
  from receive_exact [OF this length_net(1)] obtain u es1 e1 where
    u: "receive fd 4 s = Done (4, net32 (word_of_nat (length name))) u" "inbox u = (inbox s)(fd := name @ rest)"
      "u = s\<lparr>channels := (channels s)(fd := es1), errno := e1\<rparr>" by auto
  then have "inbox u fd = name @ rest" by simp
  from receive_exact [OF this refl] obtain t es2 e2 where
    t: "receive fd (length name) u = Done (int (length name), name) t" "inbox t = (inbox u)(fd := rest)"
      "t = u\<lparr>channels := (channels u)(fd := es2), errno := e2\<rparr>" by auto
  have "pending es2 = rest" using fun_cong [OF t(2), of fd] t(3) by (simp add: inbox_def)
  moreover have "t = s\<lparr>channels := (channels s)(fd := es2), errno := e2\<rparr>" using t(3) u(3) by simp
  ultimately show thesis using that u(1,3) t(1) by simp
qed

lemma discard_name_run:
  assumes "inbox s fd = name_message name @ rest" "proper_name name" "memory_grants s = []"
  shows "\<exists>es e. discard_name fd s = Done () (s\<lparr>channels := (channels s)(fd := es), errno := e\<rparr>) \<and> pending es = rest"
proof -
  obtain u t es e where r: "receive fd 4 s = Done (4, net32 (word_of_nat (length name))) u"
    "receive fd (length name) u = Done (int (length name), name) t" "memory_grants u = memory_grants s"
    "t = s\<lparr>channels := (channels s)(fd := es), errno := e\<rparr>" "pending es = rest"
    using assms(1) by (rule receive_name)
  have len: "0 < length name" "length name \<le> 64"
    using assms(2) by (auto simp: proper_name_def LIMIT_IDENTITY_CAPACITY_def)
  have "(word_of_nat (length name) + 1 :: u64) = word_of_int (int (length name) + 1)" by simp
  moreover have "word_of_int (int (length name) + 1) \<le> (9223372036854775807 :: u64)"
    using len by (intro small_request) simp_all
  ultimately have "malloc_buffer (word_of_nat (length name) + 1) u = Done True u"
    using r(3) assms(3) by (simp add: malloc_granted)
  then have "discard_name fd s = Done () t"
    using r(1,2) len name_length_read [OF assms(2)]
    by (simp add: discard_name_def cmd_defs LIMIT_IDENTITY_CAPACITY_def)
  then show ?thesis using r(4,5) by auto
qed

text \<open>
  A player who is in a session already cannot create one: the name that follows the request is
  read off the stream and thrown away, the code is -3, nothing is sent and nothing else changes.
\<close>

theorem create_refused:
  assumes "p \<noteq> NULL" "nodes s p = Some n" "activeSessionId n \<noteq> -1"
    and "inbox s (socketDescriptor n) = name_message name @ rest" "proper_name name" "memory_grants s = []"
  shows "\<exists>es e. process_instantiation_request p s =
      Done (-3) (s\<lparr>channels := (channels s)(socketDescriptor n := es), errno := e\<rparr>) \<and> pending es = rest"
proof -
  obtain es e where "discard_name (socketDescriptor n) s = Done () (s\<lparr>channels := (channels s)(socketDescriptor n := es), errno := e\<rparr>)"
    "pending es = rest" using discard_name_run [OF assms(4-6)] by blast
  then show ?thesis using assms(1-3)
    by (intro exI [of _ es] exI [of _ e]) (simp add: process_instantiation_request_def get_node_live cmd_defs)
qed

lemma read_owner_name_run:
  assumes "inbox s fd = name_message name @ rest" "proper_name name" "memory_grants s = []"
  shows "\<exists>es e. read_owner_name fd s = Done name (s\<lparr>channels := (channels s)(fd := es), errno := e\<rparr>) \<and> pending es = rest"
proof -
  obtain u t es e where r: "receive fd 4 s = Done (4, net32 (word_of_nat (length name))) u"
    "receive fd (length name) u = Done (int (length name), name) t" "memory_grants u = memory_grants s"
    "t = s\<lparr>channels := (channels s)(fd := es), errno := e\<rparr>" "pending es = rest"
    using assms(1) by (rule receive_name)
  have len: "0 < length name" "length name \<le> 64"
    using assms(2) by (auto simp: proper_name_def LIMIT_IDENTITY_CAPACITY_def)
  have cap: "unat (word_of_int (int (length name) + 1) :: u64) = length name + 1"
    using len unat_word_of_small [of "int (length name) + 1"] by simp
  have n: "unat (word_of_int (int (length name)) :: u64) = length name"
    using len unat_word_of_small [of "int (length name)"] by simp
  have "malloc_buffer (word_of_int (int (length name) + 1)) u = Done True u"
    using r(3) assms(3) len small_request [of "int (length name) + 1"] by (simp add: malloc_granted del: of_int_add)
  moreover have "receive_into (word_of_int (int (length name) + 1)) fd (word_of_int (int (length name))) u = Done (int (length name), name) t"
    unfolding receive_into_def n cap using r(2) by (simp add: cmd_defs)
  ultimately have "read_owner_name fd s = Done name t"
    using r(1) len name_length_read [OF assms(2)]
    by (simp add: read_owner_name_def cmd_defs LIMIT_IDENTITY_CAPACITY_def Let_def del: of_int_add of_int_of_nat_eq)
  then show ?thesis using r(4,5) by auto
qed

lemma allocate_granted: "memory_grants s = [] \<Longrightarrow> allocate_grid s = Done blank_board s"
  by (simp add: allocate_grid_def allocateGridMatrixBuffer_def upt3 blank_board_def)

text \<open>The registry takes a session under the identifier.\<close>

definition has_room :: "server \<Rightarrow> int \<Rightarrow> bool" where
  "has_room s x \<longleftrightarrow>
     can_grow (one_grant True) (table_of (activeMatchSessions s)) \<and>
     (if x = uint (allocated_slots (activeMatchSessions s))
      then occupied_slots (activeMatchSessions s) = allocated_slots (activeMatchSessions s)
      else x < uint (allocated_slots (activeMatchSessions s)))"

definition waiting_session :: "u64 \<Rightarrow> int \<Rightarrow> match_session" where
  "waiting_session p x = (fresh_session p x)\<lparr>gridMatrix := Some blank_board, currentState := STATE_PENDING_PLYR\<rparr>"

lemma register_granted:
  assumes "reg_ok (activeMatchSessions s)" "0 \<le> x" "x < 65536" "registered s (nat x) = NULL"
    and "q \<noteq> NULL" "sessions s q = Some m" "memory_grants s = []" "has_room s x"
  shows "\<exists>st. register_session q x s = Done () (s\<lparr>activeMatchSessions := st\<rparr>) \<and> reg_ok st \<and> entry st = (registered s)(nat x := q)"
proof -
  have x: "uint (word_of_int x :: u64) = x" using assms(2,3) by (simp add: uint_word_of_int)
  have c: "\<not> allocated_slots (activeMatchSessions s) < word_of_int x"
    "\<not> (word_of_int x = allocated_slots (activeMatchSessions s) \<and>
      occupied_slots (activeMatchSessions s) < allocated_slots (activeMatchSessions s))"
    using assms(8) x by (auto simp: has_room_def word_less_def split: if_splits)
  have g: "take_grant (memory_grants s) = (True, [])" "can_grow (one_grant True) (table_of (activeMatchSessions s))"
    using assms(7,8) by (simp_all add: has_room_def)
  have "s\<lparr>memory_grants := []\<rparr> = s" using assms(7) by simp
  with register_run [OF assms(1-6) g(1)] c g(2) show ?thesis by (simp only: simp_thms if_False not_not)
qed

lemma id_drawn_bounded:
  assumes "table_core s" "acquireNewSessionIdentifier (identifiers s) = Done x ids" "current_highest_id ids \<le> 65536"
  shows "id_drawn x (s\<lparr>identifiers := ids\<rparr>)" "0 \<le> x" "x < 65536" "registered s (nat x) = NULL"
proof -
  have "table_ok s" using assms(1) by (simp add: table_ok_def)
  moreover have "on_pool acquireNewSessionIdentifier s = Done x (s\<lparr>identifiers := ids\<rparr>)"
    using assms(2) by (simp add: on_pool_def)
  ultimately show d: "id_drawn x (s\<lparr>identifiers := ids\<rparr>)" using acquire_leads unfolding leads_def by fastforce
  have "ids_bounded (s\<lparr>identifiers := ids\<rparr>)" using assms(3) by (simp add: ids_bounded_def)
  then obtain used where u: "0 \<le> x" "x < 65536" "\<forall>k. registered s k \<noteq> NULL \<longrightarrow> int k \<in> used - {x}"
    using d unfolding id_drawn_def by auto
  then show "0 \<le> x" "x < 65536" by simp_all
  show "registered s (nat x) = NULL" using u by (metis Diff_iff insertI1 int_nat_eq)
qed

text \<open>Up to the registration: the identifier drawn, the name read and set, the session in the heap.\<close>

lemma create_until_register:
  assumes node: "p \<noteq> NULL" "nodes s p = Some n" "activeSessionId n = -1"
    and ids: "acquireNewSessionIdentifier (identifiers s) = Done x ids"
    and name: "inbox s (socketDescriptor n) = name_message name @ rest" "proper_name name"
    and memory: "memory_grants s = []" "struct_addresses s = q # qs" "q \<noteq> NULL" "nodes s q = None" "sessions s q = None"
  shows "\<exists>es e. pending es = rest \<and> process_instantiation_request p s =
    andThen (register_session q x) (\<lambda>_.
    andThen (set_session q (\<lambda>m. m\<lparr>currentState := STATE_PENDING_PLYR\<rparr>)) (\<lambda>_.
    andThen (set_node p (\<lambda>n. n\<lparr>activeSessionId := x\<rparr>)) (\<lambda>_.
    andThen audit_sessions (\<lambda>_.
    andThen broadcast_session_state_update (\<lambda>_. ret 0)))))
    (s\<lparr>identifiers := ids, channels := (channels s)(socketDescriptor n := es), errno := e,
      nodes := (nodes s)(p \<mapsto> n\<lparr>identityMoniker := Some name\<rparr>), struct_addresses := qs,
      sessions := (sessions s)(q \<mapsto> (fresh_session p x)\<lparr>gridMatrix := Some blank_board\<rparr>)\<rparr>)"
proof -
  let ?fd = "socketDescriptor n" and ?s1 = "s\<lparr>identifiers := ids\<rparr>"
  have "inbox ?s1 ?fd = name_message name @ rest" using name(1) by (simp add: inbox_def)
  from read_owner_name_run [OF this name(2)] memory(1) obtain es e where
    r: "read_owner_name ?fd ?s1 = Done name (?s1\<lparr>channels := (channels s)(?fd := es), errno := e\<rparr>)" "pending es = rest"
    by auto
  define s4 where "s4 = ?s1\<lparr>channels := (channels s)(?fd := es), errno := e,
      nodes := (nodes s)(p \<mapsto> n\<lparr>identityMoniker := Some name\<rparr>), struct_addresses := qs\<rparr>"
  define s7 where "s7 = s4\<lparr>sessions := (sessions s)(q \<mapsto> (fresh_session p x)\<lparr>gridMatrix := Some blank_board\<rparr>)\<rparr>"
  have "replace_moniker p name (?s1\<lparr>channels := (channels s)(?fd := es), errno := e\<rparr>) =
      Done () (?s1\<lparr>channels := (channels s)(?fd := es), errno := e, nodes := (nodes s)(p \<mapsto> n\<lparr>identityMoniker := Some name\<rparr>)\<rparr>)"
    using node(1,2) by (simp add: replace_moniker_def set_node_def get_node_def andThen_def)
  moreover have "malloc_struct (?s1\<lparr>channels := (channels s)(?fd := es), errno := e,
      nodes := (nodes s)(p \<mapsto> n\<lparr>identityMoniker := Some name\<rparr>)\<rparr>) = Done q s4"
    using memory(2,4,5) node(2) by (auto simp: malloc_struct_def s4_def)
  moreover have "allocate_grid (s4\<lparr>sessions := (sessions s)(q \<mapsto> fresh_session p x)\<rparr>) =
      Done blank_board (s4\<lparr>sessions := (sessions s)(q \<mapsto> fresh_session p x)\<rparr>)"
    using memory(1) by (simp add: allocate_granted s4_def)
  moreover have "set_session q (\<lambda>m. m\<lparr>gridMatrix := Some blank_board\<rparr>) (s4\<lparr>sessions := (sessions s)(q \<mapsto> fresh_session p x)\<rparr>) = Done () s7"
    using memory(3) by (simp add: set_session_def get_session_def andThen_def s7_def)
  moreover have "sessions s4 = sessions s" by (simp add: s4_def)
  moreover have "on_pool acquireNewSessionIdentifier s = Done x ?s1" using ids by (simp add: on_pool_def)
  moreover have "process_instantiation_request p s = create_session p ?fd s"
    using node by (simp add: process_instantiation_request_def get_node_live andThen_def)
  ultimately have "process_instantiation_request p s = andThen (register_session q x) (\<lambda>_.
    andThen (set_session q (\<lambda>m. m\<lparr>currentState := STATE_PENDING_PLYR\<rparr>)) (\<lambda>_.
    andThen (set_node p (\<lambda>n. n\<lparr>activeSessionId := x\<rparr>)) (\<lambda>_.
    andThen audit_sessions (\<lambda>_.
    andThen broadcast_session_state_update (\<lambda>_. ret 0))))) s7"
    using r(1) memory(3) by (simp add: create_session_def andThen_def modify_def)
  then show ?thesis using r(2) by (intro exI [of _ es] exI [of _ e]) (simp add: s7_def s4_def)
qed

text \<open>
  C8. A free player's request to create a session, with everything granted and room for the identifier:
  the code is 0, the drawn identifier's slot holds the new session, which waits for a player with a blank board
  and the requester as its owner, the requester has the sent name and is bound to it; the name is all that was
  read, nothing is sent, no other session, node or slot changes, and the table stays consistent.
\<close>

theorem create_succeeds:
  assumes core: "table_core s" and readable: "table_readable s"
    and node: "p \<noteq> NULL" "nodes s p = Some n" "activeSessionId n = -1"
    and ids: "acquireNewSessionIdentifier (identifiers s) = Done x ids" "current_highest_id ids \<le> 65536"
    and name: "inbox s (socketDescriptor n) = name_message name @ rest" "proper_name name"
    and memory: "memory_grants s = []" "struct_addresses s = q # qs" "q \<noteq> NULL" "nodes s q = None" "sessions s q = None"
    and room: "has_room s x"
  shows "\<exists>es e st. process_instantiation_request p s = Done 0 (s\<lparr>identifiers := ids,
      channels := (channels s)(socketDescriptor n := es), errno := e,
      nodes := (nodes s)(p \<mapsto> n\<lparr>identityMoniker := Some name, activeSessionId := x\<rparr>), struct_addresses := qs,
      sessions := (sessions s)(q \<mapsto> waiting_session p x), activeMatchSessions := st\<rparr>) \<and>
    pending es = rest \<and> entry st = (registered s)(nat x := q) \<and> reg_ok st"
proof -
  let ?fd = "socketDescriptor n"
  have x: "id_drawn x (s\<lparr>identifiers := ids\<rparr>)" "0 \<le> x" "x < 65536" "registered s (nat x) = NULL"
    using id_drawn_bounded [OF core ids] by simp_all
  let ?grid = "(fresh_session p x)\<lparr>gridMatrix := Some blank_board\<rparr>"
  obtain es e where rest: "pending es = rest" and run: "process_instantiation_request p s =
      andThen (register_session q x) (\<lambda>_.
      andThen (set_session q (\<lambda>m. m\<lparr>currentState := STATE_PENDING_PLYR\<rparr>)) (\<lambda>_.
      andThen (set_node p (\<lambda>n. n\<lparr>activeSessionId := x\<rparr>)) (\<lambda>_.
      andThen audit_sessions (\<lambda>_.
      andThen broadcast_session_state_update (\<lambda>_. ret 0)))))
      (s\<lparr>identifiers := ids, channels := (channels s)(?fd := es), errno := e,
        nodes := (nodes s)(p \<mapsto> n\<lparr>identityMoniker := Some name\<rparr>), struct_addresses := qs, sessions := (sessions s)(q \<mapsto> ?grid)\<rparr>)"
    using create_until_register [OF node ids(1) name memory] by (elim exE conjE) (rule that)
  define s4 where "s4 = s\<lparr>identifiers := ids, channels := (channels s)(?fd := es), errno := e,
      nodes := (nodes s)(p \<mapsto> n\<lparr>identityMoniker := Some name\<rparr>), struct_addresses := qs\<rparr>"
  define s7 where "s7 = s4\<lparr>sessions := (sessions s)(q \<mapsto> ?grid)\<rparr>"
  have reg: "reg_ok (activeMatchSessions s7)" "registered s7 (nat x) = NULL" "sessions s7 q = Some ?grid"
    "memory_grants s7 = []" "has_room s7 x"
    using table_core_reg [OF core] x(4) memory(1) room by (simp_all add: s7_def s4_def has_room_def)
  obtain st where st: "register_session q x s7 = Done () (s7\<lparr>activeMatchSessions := st\<rparr>)" "reg_ok st"
    "entry st = (registered s)(nat x := q)"
    using register_granted [OF reg(1) x(2,3) reg(2) memory(3) reg(3,4,5)] by (auto simp: s7_def s4_def)
  let ?t = "s\<lparr>identifiers := ids, channels := (channels s)(?fd := es), errno := e,
      nodes := (nodes s)(p \<mapsto> n\<lparr>identityMoniker := Some name, activeSessionId := x\<rparr>), struct_addresses := qs,
      sessions := (sessions s)(q \<mapsto> waiting_session p x), activeMatchSessions := st\<rparr>"
  let ?S = "?t\<lparr>activeMatchSessions := activeMatchSessions s\<rparr>"
  have same: "?S\<lparr>sessions := (sessions ?S)(q := None)\<rparr> = s4\<lparr>nodes := nodes ?t\<rparr>"
    using memory(5) by (simp add: s4_def fun_upd_idem)
  have "id_drawn x (?S\<lparr>sessions := (sessions ?S)(q := None)\<rparr>)" unfolding same using x(1) by (simp add: s4_def)
  then have "pending_session x q ?S" using memory(3)
    by (simp add: pending_session_def waiting_session_def fresh_session_def)
  then have core_t: "table_core ?t" using pending_registered [of x q ?S st] ids(2) st(2,3) memory(1)
    by (simp add: ids_bounded_def)
  have read_t: "table_readable ?t"
    using readable node(1) by (auto simp: table_readable_def readable_def waiting_session_def fresh_session_def)
  have "set_session q (\<lambda>m. m\<lparr>currentState := STATE_PENDING_PLYR\<rparr>) (s7\<lparr>activeMatchSessions := st\<rparr>) =
      Done () (s7\<lparr>activeMatchSessions := st, sessions := (sessions s)(q \<mapsto> waiting_session p x)\<rparr>)"
    using memory(3) by (simp add: set_session_def get_session_def andThen_def s7_def waiting_session_def)
  moreover have "set_node p (\<lambda>n. n\<lparr>activeSessionId := x\<rparr>)
      (s7\<lparr>activeMatchSessions := st, sessions := (sessions s)(q \<mapsto> waiting_session p x)\<rparr>) = Done () ?t"
    using node(1) by (simp add: set_node_def get_node_def andThen_def s7_def s4_def)
  moreover have "audit_sessions ?t = Done () ?t" using table_registry_readable [OF core_t read_t] by (rule audit_skip)
  moreover have "broadcast_session_state_update ?t = Done () ?t"
    using table_registry_readable [OF core_t read_t] memory(1) by (intro broadcast_skip) simp_all
  ultimately have "process_instantiation_request p s = Done 0 ?t"
    using run st(1) by (simp add: andThen_def ret_def flip: s4_def s7_def)
  then show ?thesis using rest st(2,3) by blast
qed

section \<open>Joining\<close>

text \<open>A request to join: the identifier in two bytes, then the name.\<close>

definition join_message :: "u16 \<Rightarrow> byte list \<Rightarrow> byte list" where
  "join_message sid name = net16 sid @ name_message name"

lemma read_joiner_name_run:
  assumes "inbox s fd = name_message name @ rest" "proper_name name" "memory_grants s = []"
  shows "\<exists>es e. read_joiner_name fd s = Done (Inr name) (s\<lparr>channels := (channels s)(fd := es), errno := e\<rparr>) \<and> pending es = rest"
proof -
  obtain u t es e where r: "receive fd 4 s = Done (4, net32 (word_of_nat (length name))) u"
    "receive fd (length name) u = Done (int (length name), name) t" "memory_grants u = memory_grants s"
    "t = s\<lparr>channels := (channels s)(fd := es), errno := e\<rparr>" "pending es = rest"
    using assms(1) by (rule receive_name)
  have len: "0 < length name" "length name \<le> 64"
    using assms(2) by (auto simp: proper_name_def LIMIT_IDENTITY_CAPACITY_def)
  have cap: "unat (word_of_int (int (length name) + 1) :: u64) = length name + 1"
    using len unat_word_of_small [of "int (length name) + 1"] by simp
  have n: "unat (word_of_int (int (length name)) :: u64) = length name"
    using len unat_word_of_small [of "int (length name)"] by simp
  have "malloc_buffer (word_of_int (int (length name) + 1)) u = Done True u"
    using r(3) assms(3) len small_request [of "int (length name) + 1"] by (simp add: malloc_granted del: of_int_add)
  moreover have "receive_into (word_of_int (int (length name) + 1)) fd (word_of_int (int (length name))) u = Done (int (length name), name) t"
    unfolding receive_into_def n cap using r(2) by (simp add: cmd_defs)
  ultimately have "read_joiner_name fd s = Done (Inr name) t"
    using r(1) len name_length_read [OF assms(2)]
    by (simp add: read_joiner_name_def cmd_defs Let_def del: of_int_add of_int_of_nat_eq)
  then show ?thesis using r(4,5) by auto
qed

lemma receive_id:
  assumes "inbox s fd = join_message sid name @ rest"
  obtains u es e where "receive fd 2 s = Done (2, net16 sid) u"
    "u = s\<lparr>channels := (channels s)(fd := es), errno := e\<rparr>" "inbox u fd = name_message name @ rest"
proof -
  have "inbox s fd = net16 sid @ (name_message name @ rest)" using assms by (simp add: join_message_def)
  from receive_exact [OF this length_net(2)] show thesis using that by auto
qed

text \<open>
  C32. A player who is in a session already cannot join one: identifier and name are read and thrown
  away, the player gets its own descriptor and a refusal, the code is -3, and nothing else changes.
\<close>

theorem join_refused:
  assumes "p \<noteq> NULL" "nodes s p = Some n" "activeSessionId n \<noteq> -1" "fd = socketDescriptor n"
    and "inbox s fd = join_message sid name @ rest" "proper_name name" "memory_grants s = []"
    and "fd \<notin> set (reset_peers s)"
  shows "\<exists>es e. process_activation_request p s =
      Done (-3) (s\<lparr>channels := (channels s)(fd := es), errno := e,
        sent := sent s @ [(fd, net32 fd), (fd, net_opcode OP_DECLINE_REQ)]\<rparr>) \<and> pending es = rest"
proof -
  obtain u es1 e1 where u: "receive fd 2 s = Done (2, net16 sid) u"
    "u = s\<lparr>channels := (channels s)(fd := es1), errno := e1\<rparr>" "inbox u fd = name_message name @ rest"
    using assms(5) by (rule receive_id)
  have "memory_grants u = []" using u(2) assms(7) by simp
  from discard_name_run [OF u(3) assms(6) this] obtain es e where
    "discard_name fd u = Done () (u\<lparr>channels := (channels u)(fd := es), errno := e\<rparr>)" "pending es = rest" by blast
  then show ?thesis using u(1,2) assms(1-4,8)
    by (intro exI [of _ es] exI [of _ e])
      (simp add: process_activation_request_def get_node_live refuse_bound_player_def andThen_def send_bytes_def ret_def Let_def)
qed

text \<open>What every free player's request does up to the lookup.\<close>

lemma join_prefix:
  assumes "table_core s" "p \<noteq> NULL" "nodes s p = Some n" "activeSessionId n = -1" "fd = socketDescriptor n"
    and "inbox s fd = join_message sid name @ rest" "proper_name name" "memory_grants s = []"
    and "fd \<notin> set (reset_peers s)"
  shows "\<exists>es e. pending es = rest \<and> process_activation_request p s =
    (let u = s\<lparr>channels := (channels s)(fd := es), errno := e, nodes := (nodes s)(p \<mapsto> n\<lparr>identityMoniker := Some name\<rparr>),
        sent := sent s @ [(fd, net32 fd)]\<rparr>; target = registered s (unat sid) in
     if target = NULL then Done (-1) (u\<lparr>sent := sent u @ [(fd, net_opcode OP_DECLINE_REQ)]\<rparr>)
     else challenge_owner target (uint sid) p fd name u)"
proof -
  obtain v es1 e1 where v: "receive fd 2 s = Done (2, net16 sid) v"
    "v = s\<lparr>channels := (channels s)(fd := es1), errno := e1\<rparr>" "inbox v fd = name_message name @ rest"
    using assms(6) by (rule receive_id)
  have "memory_grants v = []" using v(2) assms(8) by simp
  from read_joiner_name_run [OF v(3) assms(7) this] obtain es e where
    j: "read_joiner_name fd v = Done (Inr name) (v\<lparr>channels := (channels v)(fd := es), errno := e\<rparr>)" "pending es = rest" by blast
  define w where "w = s\<lparr>channels := (channels s)(fd := es), errno := e, nodes := (nodes s)(p \<mapsto> n\<lparr>identityMoniker := Some name\<rparr>)\<rparr>"
  define u where "u = w\<lparr>sent := sent s @ [(fd, net32 fd)]\<rparr>"
  have "replace_moniker p name (v\<lparr>channels := (channels v)(fd := es), errno := e\<rparr>) = Done () w"
    using assms(2,3) v(2) by (simp add: replace_moniker_def set_node_def get_node_def andThen_def w_def)
  moreover have "send_bytes fd (net32 fd) w = Done () u" using assms(9) by (simp add: send_bytes_def u_def w_def)
  moreover have reg: "activeMatchSessions u = activeMatchSessions s" by (simp add: u_def w_def)
  then have "pointer_store (activeMatchSessions u)" using table_core_store [OF assms(1)] by simp
  moreover have "unat sid \<le> unat SIZE_MAX" using unat_word_of_id [of sid] unat_le_size_max [of "word_of_int (uint sid)"] by simp
  ultimately have "process_activation_request p s = (if registered s (unat sid) = NULL
      then andThen (send_bytes fd (net_opcode OP_DECLINE_REQ)) (\<lambda>_. ret (-1)) u
      else challenge_owner (registered s (unat sid)) (uint sid) p fd name u)"
    using v(1) j(1) assms(2-5) reg fetch_session_run [of u "unat sid"]
    by (simp add: process_activation_request_def get_node_live andThen_def gets_def Let_def)
  then show ?thesis using j(2) assms(9)
    by (intro exI [of _ es] exI [of _ e]) (simp add: u_def w_def andThen_def send_bytes_def ret_def Let_def)
qed

text \<open>
  C33. A free player asks for a session that does not exist: the player takes the name it sent, gets its
  own descriptor and a refusal, the code is -1; no session changes and it stays free.
\<close>

theorem join_missing:
  assumes "table_core s" "p \<noteq> NULL" "nodes s p = Some n" "activeSessionId n = -1" "fd = socketDescriptor n"
    and "inbox s fd = join_message sid name @ rest" "proper_name name" "memory_grants s = []"
    and "fd \<notin> set (reset_peers s)" "registered s (unat sid) = NULL"
  shows "\<exists>es e. process_activation_request p s =
      Done (-1) (s\<lparr>channels := (channels s)(fd := es), errno := e,
        nodes := (nodes s)(p \<mapsto> n\<lparr>identityMoniker := Some name\<rparr>),
        sent := sent s @ [(fd, net32 fd), (fd, net_opcode OP_DECLINE_REQ)]\<rparr>) \<and> pending es = rest"
  using join_prefix [OF assms(1-9)] assms(10) by (auto simp: Let_def)

lemma node_relock:
  "nodes s a = Some na \<Longrightarrow> streamLock na = Unlocked \<Longrightarrow> (nodes s)(a \<mapsto> na\<lparr>streamLock := Unlocked\<rparr>) = nodes s"
  by (rule ext) (cases na, simp)

text \<open>The exchange with the owner, its lock free before and after.\<close>

lemma ask_owner_run:
  assumes "a \<noteq> NULL" "nodes s a = Some na" "streamLock na = Unlocked" "socketDescriptor na = g"
    and "g \<notin> set (reset_peers s)" "inbox s g = net32 v @ rest"
  shows "\<exists>es e. ask_owner a g (Some txt) s = Done v (s\<lparr>channels := (channels s)(g := es), errno := e, sent := sent s @ [(g, txt)]\<rparr>) \<and>
    pending es = rest"
proof -
  let ?l = "s\<lparr>nodes := (nodes s)(a \<mapsto> na\<lparr>streamLock := Locked\<rparr>)\<rparr>"
  let ?u = "?l\<lparr>sent := sent s @ [(g, txt)]\<rparr>"
  have "lock_stream a s = Done () ?l"
    using assms(1-3) by (simp add: lock_stream_def set_node_def get_node_def andThen_def)
  moreover have "send_bytes g txt ?l = Done () ?u" using assms(5) by (simp add: send_bytes_def)
  moreover have "inbox ?u g = net32 v @ rest" using assms(6) by (simp add: inbox_def)
  from receive_exact [OF this length_net(1)] obtain t es e where t: "receive g 4 ?u = Done (4, net32 v) t"
    "inbox t = (inbox ?u)(g := rest)" "t = ?u\<lparr>channels := (channels ?u)(g := es), errno := e\<rparr>" by auto
  moreover have "pending es = rest" using fun_cong [OF t(2), of g] t(3) by (simp add: inbox_def)
  moreover have "unlock_stream a t = Done () (s\<lparr>channels := (channels s)(g := es), errno := e, sent := sent s @ [(g, txt)]\<rparr>)"
    using assms(1-3) node_relock [OF assms(2,3)] t(3)
    by (simp add: unlock_stream_def set_node_def get_node_def andThen_def)
  ultimately show ?thesis
    by (intro exI [of _ es] exI [of _ e]) (simp add: ask_owner_def andThen_def ret_def net_opcode_def)
qed

text \<open>
  C17. The owner does not approve: it is sent the challenge with the joiner's name, its answer is passed
  on to the joiner as it came, the code is 0, both stay as they were (the joiner with its new name)
  and the session goes on waiting.
\<close>

theorem join_declined:
  assumes "table_core s" "p \<noteq> NULL" "nodes s p = Some n" "activeSessionId n = -1" "fd = socketDescriptor n"
    and "inbox s fd = join_message sid name @ rest" "proper_name name" "memory_grants s = []"
    and "fd \<notin> set (reset_peers s)"
    and session: "registered s (unat sid) \<noteq> NULL" "sessions s (registered s (unat sid)) = Some m"
    and owner: "participantPrimary m = a" "a \<noteq> NULL" "a \<noteq> p" "nodes s a = Some na" "streamLock na = Unlocked"
    and answer: "g = socketDescriptor na" "g \<noteq> fd" "g \<notin> set (reset_peers s)" "inbox s g = net32 v @ rest'"
      "sint v \<noteq> opcode_value OP_APPROVE_REQ"
  shows "\<exists>es es' e. process_activation_request p s =
      Done 0 (s\<lparr>channels := (channels s)(fd := es, g := es'), errno := e,
        nodes := (nodes s)(p \<mapsto> n\<lparr>identityMoniker := Some name\<rparr>),
        sent := sent s @ [(fd, net32 fd), (g, challenge_text name), (fd, net32 v)]\<rparr>) \<and>
    pending es = rest \<and> pending es' = rest'"
proof -
  let ?q = "registered s (unat sid)"
  obtain es e where j: "pending es = rest" "process_activation_request p s =
    challenge_owner ?q (uint sid) p fd name (s\<lparr>channels := (channels s)(fd := es), errno := e,
        nodes := (nodes s)(p \<mapsto> n\<lparr>identityMoniker := Some name\<rparr>), sent := sent s @ [(fd, net32 fd)]\<rparr>)"
    using join_prefix [OF assms(1-9)] session(1) by (auto simp: Let_def)
  define u where "u = s\<lparr>channels := (channels s)(fd := es), errno := e,
        nodes := (nodes s)(p \<mapsto> n\<lparr>identityMoniker := Some name\<rparr>), sent := sent s @ [(fd, net32 fd)]\<rparr>"
  have u: "nodes u a = Some na" "sessions u ?q = Some m" "memory_grants u = []" "g \<notin> set (reset_peers u)" "fd \<notin> set (reset_peers u)"
    "inbox u g = net32 v @ rest'"
    using assms(8,9) session(2) owner(3,4) answer(2-4) by (simp_all add: u_def inbox_def)
  obtain es' e' where "ask_owner a g (Some (challenge_text name)) u =
      Done v (u\<lparr>channels := (channels u)(g := es'), errno := e', sent := sent u @ [(g, challenge_text name)]\<rparr>)" "pending es' = rest'"
    using ask_owner_run [OF owner(2) u(1) owner(5) answer(1) [symmetric] u(4,6)] by blast
  then show ?thesis using j session(1) owner(1,2) answer(1,5) u
    by (intro exI [of _ es] exI [of _ es'] exI [of _ e'])
      (simp add: challenge_owner_def get_session_live get_node_live system_granted andThen_def ret_def send_bytes_def
        flip: u_def, simp add: u_def)
qed

end
