(* ===== verification/Lounge.thy ===== *)
theory Lounge
  imports Requests_Spec
begin

text \<open>
  A concrete server to apply the properties to: Ann on socket 7 owns session 0 and waits, Bob on socket 8 is
  free. The structs of the two nodes are at the addresses 1 and 2, the session at 3; the next struct
  goes to 4. What the sockets deliver is a parameter.
\<close>

definition ann :: player_node where
  "ann = \<lparr>timeoutTicks = 0, socketDescriptor = 7, streamLock = Unlocked, identityMoniker = Some (ascii ''Ann''), activeSessionId = 0\<rparr>"

definition bob :: player_node where
  "bob = \<lparr>timeoutTicks = 0, socketDescriptor = 8, streamLock = Unlocked, identityMoniker = None, activeSessionId = -1\<rparr>"

definition one_session :: dyn_array where
  "one_session = \<lparr>floor_threshold = 3, element_byte_footprint = 8, synchronizer = Unlocked, allocated_slots = 3,
     occupied_slots = 1, heap_region = Some (concat (map ptr_bytes [3, 0, 0]))\<rparr>"

definition lounge :: "(u32 \<Rightarrow> byte list) \<Rightarrow> server" where
  "lounge input =
     \<lparr>activePlayerNodes = roster [1, 2, 0, 0, 0, 0], activeMatchSessions = one_session,
      identifiers = \<lparr>current_highest_id = 1, recycled_id_pool = replicate 20 0, recycled_id_count = 0\<rparr>,
      nodes = [1 \<mapsto> ann, 2 \<mapsto> bob], sessions = [3 \<mapsto> waiting_session 1 0],
      channels = (\<lambda>fd. case input fd of [] \<Rightarrow> [] | b # bs \<Rightarrow> [Chunk b bs]), errno = 0, sent = [], closed = [],
      struct_addresses = [4], memory_grants = [], randoms = [], stack_junk = (\<lambda>_. 0), reset_peers = [], clock = [],
      global_listen_descriptor = 5\<rparr>"

lemma one_session_ok: "reg_ok one_session \<and> entry one_session = (\<lambda>_. NULL)(0 := 3)"
proof -
  have p: "pointers one_session = [3, 0, 0]" by code_simp
  have "da_ok one_session" by (simp add: da_ok_def da_shape_def one_session_def)
  moreover have "entry one_session k = ((\<lambda>_. NULL)(0 := 3)) k" for k
    unfolding entry_def p by (auto simp: less_Suc_eq numeral_3_eq_3)
  ultimately show ?thesis
    using p by (auto simp: reg_ok_def pointer_store_def non_null_def one_session_def fun_eq_iff)
qed

lemma lounge_simps [simp]:
  "activeMatchSessions (lounge input) = one_session" "memory_grants (lounge input) = []" "reset_peers (lounge input) = []"
  "struct_addresses (lounge input) = [4]" "nodes (lounge input) = [1 \<mapsto> ann, 2 \<mapsto> bob]"
  "sessions (lounge input) = [3 \<mapsto> waiting_session 1 0]" "sent (lounge input) = []" "inbox (lounge input) fd = input fd"
  by (simp_all add: lounge_def inbox_def split: list.splits)

lemma lounge_core: "table_core (lounge input)"
proof (rule table_coreI)
  show "reg_ok (activeMatchSessions (lounge input))" using one_session_ok by simp
  have "ids_ok (identifiers (lounge input)) {0}" by (simp add: ids_ok_def lounge_def pooled_def INT_MAX_def)
  then show "ids_cover (lounge input)" using one_session_ok unfolding ids_cover_def by (intro exI [of _ "{0}"]) simp
qed (use one_session_ok in \<open>auto simp: waiting_session_def fresh_session_def split: if_splits\<close>)

lemma lounge_readable: "table_readable (lounge input)"
  by (auto simp: table_readable_def readable_def waiting_session_def fresh_session_def split: if_splits)

section \<open>The properties of the requests at work\<close>

theorem create_refused_witness:
  "\<exists>es e. process_instantiation_request 1 (lounge (\<lambda>_. name_message (ascii ''Ann'') @ [9])) =
      Done (-3) ((lounge (\<lambda>_. name_message (ascii ''Ann'') @ [9]))\<lparr>
        channels := (channels (lounge (\<lambda>_. name_message (ascii ''Ann'') @ [9])))(7 := es), errno := e\<rparr>) \<and> pending es = [9]"
  using create_refused [of 1 "lounge (\<lambda>_. name_message (ascii ''Ann'') @ [9])" ann "ascii ''Ann''" "[9]"]
  by (simp add: ann_def proper_name_def LIMIT_IDENTITY_CAPACITY_def ascii_def)

theorem create_succeeds_witness:
  "\<exists>t. process_instantiation_request 2 (lounge (\<lambda>_. name_message (ascii ''Bob''))) = Done 0 t \<and>
     registered t 1 = 4 \<and> registered t 0 = 3 \<and> sessions t 4 = Some (waiting_session 2 1)"
proof -
  let ?s = "lounge (\<lambda>_. name_message (ascii ''Bob''))"
  have "acquireNewSessionIdentifier (identifiers ?s) = Done 1 (identifiers ?s\<lparr>current_highest_id := 2\<rparr>)"
    by (simp add: acquireNewSessionIdentifier_def lounge_def INT_MAX_def)
  moreover have "has_room ?s 1" by (simp add: has_room_def one_session_def can_grow_def)
  ultimately obtain es e st where "process_instantiation_request 2 ?s = Done 0 (?s\<lparr>identifiers := identifiers ?s\<lparr>current_highest_id := 2\<rparr>,
      channels := (channels ?s)(socketDescriptor bob := es), errno := e,
      nodes := (nodes ?s)(2 \<mapsto> bob\<lparr>identityMoniker := Some (ascii ''Bob''), activeSessionId := 1\<rparr>), struct_addresses := [],
      sessions := (sessions ?s)(4 \<mapsto> waiting_session 2 1), activeMatchSessions := st\<rparr>)"
    "entry st = (registered ?s)(nat 1 := 4)"
    using create_succeeds [OF lounge_core lounge_readable, of 2 "\<lambda>_. name_message (ascii ''Bob'')" bob 1
        "identifiers ?s\<lparr>current_highest_id := 2\<rparr>" "ascii ''Bob''" "[]" 4 "[]"]
    by (auto simp: bob_def proper_name_def LIMIT_IDENTITY_CAPACITY_def ascii_def)
  then show ?thesis using one_session_ok by simp
qed

text \<open>A stand-in for the JSON printer: the items' identifiers as decimal digits.\<close>

definition print_ids :: "json_item list \<Rightarrow> byte list option" where
  "print_ids items = Some (map (\<lambda>i. case id_game i of Some x \<Rightarrow> 48 + ucast x | None \<Rightarrow> 45) items)"

theorem listing_shows_registry_witness:
  "process_queue_fetch print_ids 8 (lounge (\<lambda>_. [])) = Done 0 ((lounge (\<lambda>_. []))\<lparr>sent := [(8, [48]), (8, [10])]\<rparr>)"
proof -
  let ?s = "lounge (\<lambda>_. [])"
  have "listed ?s [0..<unat (allocated_slots (activeMatchSessions ?s))] = [waiting_session 1 0]"
    using one_session_ok by (simp add: listed_def one_session_def upt_rec)
  moreover have "print_ids (map (item_of ?s) [waiting_session 1 0]) = Some [48]"
    by (simp add: print_ids_def item_of_def waiting_session_def fresh_session_def)
  moreover have "c_string [48] = [48]" by (simp add: c_string_def)
  ultimately show ?thesis
    using listing_shows_registry [OF lounge_core lounge_readable, of "\<lambda>_. []" 8 print_ids] by simp
qed

definition asks :: "u16 \<Rightarrow> u32 \<Rightarrow> byte list" where
  "asks sid fd = (if fd = 7 then net_opcode OP_DECLINE_REQ else join_message sid (ascii ''Bob''))"

lemma names_proper: "proper_name (ascii ''Ann'')" "proper_name (ascii ''Bob'')"
  by (simp_all add: proper_name_def LIMIT_IDENTITY_CAPACITY_def ascii_def)

theorem join_refused_witness:
  "\<exists>t. process_activation_request 1 (lounge (\<lambda>_. join_message 0 (ascii ''Ann''))) = Done (-3) t \<and>
     sent t = [(7, net32 7), (7, net_opcode OP_DECLINE_REQ)]"
proof -
  let ?s = "lounge (\<lambda>_. join_message 0 (ascii ''Ann''))"
  have "inbox ?s 7 = join_message 0 (ascii ''Ann'') @ []" "nodes ?s 1 = Some ann" "activeSessionId ann \<noteq> -1"
    "7 = socketDescriptor ann" "7 \<notin> set (reset_peers ?s)"
    by (simp_all add: ann_def)
  from join_refused [OF _ this(2-4,1) names_proper(1) _ this(5)] obtain es e where
    "process_activation_request 1 ?s = Done (-3) (?s\<lparr>channels := (channels ?s)(7 := es), errno := e,
        sent := sent ?s @ [(7, net32 7), (7, net_opcode OP_DECLINE_REQ)]\<rparr>)" by auto
  then show ?thesis by simp
qed

theorem join_missing_witness:
  "\<exists>t. process_activation_request 2 (lounge (asks 1)) = Done (-1) t \<and>
     sent t = [(8, net32 8), (8, net_opcode OP_DECLINE_REQ)]"
proof -
  let ?s = "lounge (asks 1)"
  have "inbox ?s 8 = join_message 1 (ascii ''Bob'') @ []" "nodes ?s 2 = Some bob" "activeSessionId bob = -1"
    "8 = socketDescriptor bob" "8 \<notin> set (reset_peers ?s)" "registered ?s (unat (1 :: u16)) = NULL"
    using one_session_ok by (simp_all add: bob_def asks_def)
  from join_missing [OF lounge_core _ this(2-4,1) names_proper(2) _ this(5,6)] obtain es e where
    "process_activation_request 2 ?s = Done (-1) (?s\<lparr>channels := (channels ?s)(8 := es), errno := e,
        nodes := (nodes ?s)(2 \<mapsto> bob\<lparr>identityMoniker := Some (ascii ''Bob'')\<rparr>),
        sent := sent ?s @ [(8, net32 8), (8, net_opcode OP_DECLINE_REQ)]\<rparr>)" by auto
  then show ?thesis by simp
qed

theorem join_declined_witness:
  "\<exists>t. process_activation_request 2 (lounge (asks 0)) = Done 0 t \<and>
     sent t = [(8, net32 8), (7, challenge_text (ascii ''Bob'')), (8, net_opcode OP_DECLINE_REQ)]"
proof -
  let ?s = "lounge (asks 0)" and ?v = "word_of_int (opcode_value OP_DECLINE_REQ) :: u32"
  have s: "inbox ?s 8 = join_message 0 (ascii ''Bob'') @ []" "nodes ?s 2 = Some bob" "activeSessionId bob = -1"
    "8 = socketDescriptor bob" "8 \<notin> set (reset_peers ?s)" "registered ?s (unat (0 :: u16)) \<noteq> NULL"
    "sessions ?s (registered ?s (unat (0 :: u16))) = Some (waiting_session 1 0)"
    using one_session_ok by (simp_all add: bob_def asks_def)
  have a: "participantPrimary (waiting_session 1 0) = 1" "nodes ?s 1 = Some ann" "streamLock ann = Unlocked"
    "7 = socketDescriptor ann" "(7 :: u32) \<noteq> 8" "7 \<notin> set (reset_peers ?s)" "inbox ?s 7 = net32 ?v @ []"
    "sint ?v \<noteq> opcode_value OP_APPROVE_REQ"
    by (simp_all add: ann_def asks_def waiting_session_def fresh_session_def net_opcode_def)
  from join_declined [OF lounge_core _ s(2-4,1) names_proper(2) _ s(5-7) a(1) _ _ a(2-8)] obtain es es' e where
    "process_activation_request 2 ?s = Done 0 (?s\<lparr>channels := (channels ?s)(8 := es, 7 := es'), errno := e,
        nodes := (nodes ?s)(2 \<mapsto> bob\<lparr>identityMoniker := Some (ascii ''Bob'')\<rparr>),
        sent := sent ?s @ [(8, net32 8), (7, challenge_text (ascii ''Bob'')), (8, net32 ?v)]\<rparr>)" by auto
  then show ?thesis by (simp add: net_opcode_def)
qed

end
