(* ===== verification/Server_Main.thy ===== *)
theory Server_Main
  imports Lifecycle
begin

text \<open>
  The process: \<^verbatim>\<open>main\<close> and the handler of \<^verbatim>\<open>SIGINT\<close>. The results of \<^verbatim>\<open>socket\<close>, \<^verbatim>\<open>bind\<close>, \<^verbatim>\<open>listen\<close> and of
  the mutex initialisations are arguments; \<^verbatim>\<open>accept\<close> is a script, each result with what the other
  threads did while the call waited. Output, buffering, the seed of \<^verbatim>\<open>rand\<close> and the socket options,
  whose failures are only reported, leave no trace.
\<close>

section \<open>The port\<close>

definition BIND_PORT :: int where
  "BIND_PORT = 5200"

definition is_blank :: "char \<Rightarrow> bool" where
  "is_blank c = (of_char c = (32 :: int) \<or> (9 :: int) \<le> of_char c \<and> of_char c \<le> (13 :: int))"

definition is_digit :: "char \<Rightarrow> bool" where
  "is_digit c = ((48 :: int) \<le> of_char c \<and> of_char c \<le> (57 :: int))"

definition digits_value :: "string \<Rightarrow> int" where
  "digits_value ds = foldl (\<lambda>n c. n * 10 + (of_char c - 48)) 0 ds"

text \<open>
  \<^verbatim>\<open>atoi\<close>: blanks, a sign, digits; what follows is ignored. C leaves a value outside \<^verbatim>\<open>int\<close> undefined.
\<close>

definition atoi :: "string \<Rightarrow> fault + int" where
  "atoi str =
     (let body = dropWhile is_blank str;
          (negative, rest) = (case body of [] \<Rightarrow> (False, [])
             | c # cs \<Rightarrow> if c = CHR ''-'' then (True, cs) else if c = CHR ''+'' then (False, cs) else (False, body));
          magnitude = digits_value (takeWhile is_digit rest);
          n = (if negative then - magnitude else magnitude)
      in if n < - (2 ^ 31) \<or> 2 ^ 31 \<le> n then Inl Signed_Overflow else Inr n)"

definition exit_process :: "(server, 'a) cmd" where
  "exit_process s = Halted s"

text \<open>The port to bind: the default, or the first argument, which must be a port number.\<close>

definition choose_port :: "string option \<Rightarrow> (server, int) cmd" where
  "choose_port argument =
     (case argument of
        None \<Rightarrow> ret BIND_PORT
      | Some str \<Rightarrow>
          andThen (checked (atoi str)) (\<lambda>target_port.
          if target_port \<le> 0 \<or> target_port > 65535 then exit_process else ret target_port))"

section \<open>Start-up\<close>

text \<open>
  The globals before \<^verbatim>\<open>main\<close>: zeroed, which for a mutex of glibc is its initialised state.
\<close>

definition static_store :: dyn_array where
  "static_store =
     \<lparr>floor_threshold = 0, element_byte_footprint = 0, synchronizer = Unlocked, allocated_slots = 0,
      occupied_slots = 0, heap_region = None\<rparr>"

definition process_start :: "server \<Rightarrow> server" where
  "process_start s =
     s\<lparr>activePlayerNodes := static_store, activeMatchSessions := static_store, identifiers := initial_ids,
       nodes := Map.empty, sessions := Map.empty, global_listen_descriptor := 0, sent := [], closed := []\<rparr>"

definition open_listener :: "int \<Rightarrow> bool \<Rightarrow> bool \<Rightarrow> (server, unit) cmd" where
  "open_listener descriptor bind_ok listen_ok =
     andThen (modify (\<lambda>s. s\<lparr>global_listen_descriptor := descriptor\<rparr>)) (\<lambda>_.
     if descriptor = -1 then exit_process
     else if \<not> bind_ok then exit_process
     else if \<not> listen_ok then exit_process
     else ret ())"

text \<open>Both stores, their return codes ignored, and the assertion on the footprint.\<close>

definition configure_stores :: "bool \<Rightarrow> bool \<Rightarrow> (server, unit) cmd" where
  "configure_stores mutex1_ok mutex2_ok =
     andThen (with_grant (\<lambda>al. on_sessions (on_fst (configure_memory_store al mutex1_ok 3 8)))) (\<lambda>_.
     andThen (with_grant (\<lambda>al. on_players (on_fst (configure_memory_store al mutex2_ok 6 8)))) (\<lambda>_.
     andThen (gets (\<lambda>s. element_byte_footprint (activeMatchSessions s))) (\<lambda>footprint.
     if footprint = 8 then ret () else exit_process)))"

section \<open>Accepting connections\<close>

text \<open>
  One accepted connection: its payload and its thread. The value says whether a thread was started
  for it; otherwise the connection is closed again.
\<close>

definition accept_connection :: "u32 \<Rightarrow> (server, bool) cmd" where
  "accept_connection connection_descriptor =
     andThen (malloc_buffer 4) (\<lambda>descriptor_payload.
     if \<not> descriptor_payload then andThen (close_socket connection_descriptor) (\<lambda>_. ret False)
     else
       andThen system_grant (\<lambda>created.
       if \<not> created then andThen (close_socket connection_descriptor) (\<lambda>_. ret False)
       else ret True))"

text \<open>What other threads do: the end of a thread is not the end of \<^verbatim>\<open>main\<close>, the end of the process is.\<close>

definition elsewhere :: "(server, 'a) cmd \<Rightarrow> (server, unit) cmd" where
  "elsewhere m s = (case m s of Done _ t \<Rightarrow> Done () t | Exited t \<Rightarrow> Done () t | Halted t \<Rightarrow> Halted t | Fault f \<Rightarrow> Fault f)"

text \<open>The loop; the value lists the connections handed to threads, in order.\<close>

fun accept_loop :: "((server, unit) cmd \<times> int) list \<Rightarrow> (server, u32 list) cmd" where
  "accept_loop [] = ret []"
| "accept_loop ((meanwhile, connection_descriptor) # arrivals) =
     andThen (elsewhere meanwhile) (\<lambda>_.
     if connection_descriptor > -1 then
       andThen (accept_connection (word_of_int connection_descriptor)) (\<lambda>started.
       andThen (accept_loop arrivals) (\<lambda>rest.
       ret (if started then word_of_int connection_descriptor # rest else rest)))
     else ret [])"

section \<open>Shutting down\<close>

text \<open>
  The end of \<^verbatim>\<open>main\<close>. The players are demolished with \<^verbatim>\<open>free\<close> as the hook, which gets the address of each
  slot and not the pointer in it.
\<close>

definition close_listener :: "(server, unit) cmd" where
  "close_listener = andThen (gets global_listen_descriptor) (\<lambda>fd. close_socket (word_of_int fd))"

definition tear_down :: "(server, unit) cmd" where
  "tear_down =
     andThen (on_sessions (demolish_memory_store (Some destroyMatchSessionInstance))) (\<lambda>_.
     andThen (on_players (on_fst demolish_by_free)) (\<lambda>_.
     close_listener))"

definition main ::
  "string option \<Rightarrow> int \<Rightarrow> bool \<Rightarrow> bool \<Rightarrow> bool \<Rightarrow> bool \<Rightarrow> ((server, unit) cmd \<times> int) list \<Rightarrow> (server, u32 list) cmd" where
  "main argument descriptor bind_ok listen_ok mutex1_ok mutex2_ok arrivals =
     andThen (choose_port argument) (\<lambda>_.
     andThen (open_listener descriptor bind_ok listen_ok) (\<lambda>_.
     andThen (configure_stores mutex1_ok mutex2_ok) (\<lambda>_.
     andThen (accept_loop arrivals) (\<lambda>handled.
     andThen tear_down (\<lambda>_. ret handled)))))"

definition interrupt_signal_routine :: "(server, unit) cmd" where
  "interrupt_signal_routine =
     andThen (gets global_listen_descriptor) (\<lambda>fd.
     andThen (if fd \<ge> 0 then close_socket (word_of_int fd) else ret ()) (\<lambda>_.
     andThen (for_players (\<lambda>k.
       andThen (fetch_player k) (\<lambda>(rc, p).
       andThen (if rc = 0 \<and> p \<noteq> NULL then dumpPlayerNodeDiagnostics p else ret ()) (\<lambda>_. ret True)))) (\<lambda>_.
     andThen (for_sessions (\<lambda>k.
       andThen (fetch_session k) (\<lambda>(rc, p).
       if rc = 0 \<and> p \<noteq> NULL then dumpMatchSessionDiagnostics p else ret ()))) (\<lambda>_.
     andThen (on_sessions (demolish_memory_store (Some destroyMatchSessionInstance))) (\<lambda>_.
     andThen (on_players (demolish_memory_store (Some destroyPlayerNodeInstance))) (\<lambda>_.
     exit_process))))))"

end
