(* ===== verification/Failures.thy ===== *)
theory Failures
  imports Lounge Server_Main
begin

text \<open>
  The ways the server fails that its clients or its operator can bring about: an abandoned request
  that costs an identifier and leaves its player behind, a registration beyond the block of the registry, and the
  end of \<^verbatim>\<open>main\<close>.
\<close>

section \<open>An abandoned request\<close>

text \<open>
  C29. A free player who asks for a session and then sends no proper name length (zero, or more than
  the limit) loses an identifier for ever: the thread ends, without the clean-up of the connection, with the
  drawn identifier neither in the pool nor in the registry, and the player's struct and registration stay.
\<close>

theorem create_abandoned:
  assumes core: "table_core s" and node: "p \<noteq> NULL" "nodes s p = Some n" "activeSessionId n = -1"
    and ids: "acquireNewSessionIdentifier (identifiers s) = Done x ids" "current_highest_id ids \<le> 65536"
    and name: "inbox s (socketDescriptor n) = net32 w @ rest" "sint w = 0 \<or> sint w > LIMIT_IDENTITY_CAPACITY"
  shows "\<exists>es e. process_instantiation_request p s = Exited (s\<lparr>identifiers := ids,
      channels := (channels s)(socketDescriptor n := es), errno := e\<rparr>) \<and>
    pending es = rest \<and> x \<notin> set (pooled ids) \<and> (\<forall>k. registered s k \<noteq> NULL \<longrightarrow> int k \<noteq> x)"
proof -
  let ?s1 = "s\<lparr>identifiers := ids\<rparr>" and ?fd = "socketDescriptor n"
  have "inbox ?s1 ?fd = net32 w @ rest" using name(1) by (simp add: inbox_def)
  from receive_exact [OF this length_net(1)] obtain t es e where
    t: "receive ?fd 4 ?s1 = Done (4, net32 w) t" "inbox t = (inbox ?s1)(?fd := rest)"
      "t = ?s1\<lparr>channels := (channels s)(?fd := es), errno := e\<rparr>" by auto
  have "pending es = rest" using fun_cong [OF t(2), of ?fd] t(3) by (simp add: inbox_def)
  moreover have "read_owner_name ?fd ?s1 = Exited t"
    using t(1) name(2) by (auto simp: read_owner_name_def andThen_def thread_exit_def Let_def)
  then have "create_session p ?fd s = Exited t"
    using ids(1) by (simp add: create_session_def on_pool_def andThen_def)
  then have "process_instantiation_request p s = Exited t"
    using node by (simp add: process_instantiation_request_def get_node_live andThen_def)
  moreover have "id_drawn x ?s1" "ids_bounded ?s1"
    using id_drawn_bounded(1) [OF core ids] ids(2) by (simp_all add: ids_bounded_def)
  then obtain used where "ids_ok ids used" "x \<in> used" "\<forall>k. registered s k \<noteq> NULL \<longrightarrow> int k \<in> used - {x}"
    by (auto simp: id_drawn_def)
  then have "x \<notin> set (pooled ids)" "\<forall>k. registered s k \<noteq> NULL \<longrightarrow> int k \<noteq> x" by (auto simp: ids_ok_def)
  ultimately show ?thesis using t(3) by blast
qed

section \<open>Beyond the block\<close>

text \<open>
  C22. A drawn identifier equal to the number of slots, while a slot is free, is not refused: with
  everything granted, the request of a free player with a proper name writes the session's pointer behind
  the registry's block.
\<close>

theorem create_beyond_block:
  assumes core: "table_core s" and node: "p \<noteq> NULL" "nodes s p = Some n" "activeSessionId n = -1"
    and ids: "acquireNewSessionIdentifier (identifiers s) = Done x ids" "current_highest_id ids \<le> 65536"
    and name: "inbox s (socketDescriptor n) = name_message name @ rest" "proper_name name"
    and memory: "memory_grants s = []" "struct_addresses s = q # qs" "q \<noteq> NULL" "nodes s q = None" "sessions s q = None"
    and slots: "x = uint (allocated_slots (activeMatchSessions s))"
      "occupied_slots (activeMatchSessions s) < allocated_slots (activeMatchSessions s)"
  shows "process_instantiation_request p s = Fault Out_Of_Bounds"
proof -
  let ?grid = "(fresh_session p x)\<lparr>gridMatrix := Some blank_board\<rparr>"
  have x: "0 \<le> x" "x < 65536" "registered s (nat x) = NULL" using id_drawn_bounded [OF core ids] by simp_all
  obtain es e where run: "process_instantiation_request p s =
      andThen (register_session q x) (\<lambda>_.
      andThen (set_session q (\<lambda>m. m\<lparr>currentState := STATE_PENDING_PLYR\<rparr>)) (\<lambda>_.
      andThen (set_node p (\<lambda>n. n\<lparr>activeSessionId := x\<rparr>)) (\<lambda>_.
      andThen audit_sessions (\<lambda>_.
      andThen broadcast_session_state_update (\<lambda>_. ret 0)))))
      (s\<lparr>identifiers := ids, channels := (channels s)(socketDescriptor n := es), errno := e,
        nodes := (nodes s)(p \<mapsto> n\<lparr>identityMoniker := Some name\<rparr>), struct_addresses := qs, sessions := (sessions s)(q \<mapsto> ?grid)\<rparr>)"
    using create_until_register [OF node ids(1) name memory] by (elim exE conjE) (rule that)
  define u where "u = s\<lparr>identifiers := ids, channels := (channels s)(socketDescriptor n := es), errno := e,
      nodes := (nodes s)(p \<mapsto> n\<lparr>identityMoniker := Some name\<rparr>), struct_addresses := qs, sessions := (sessions s)(q \<mapsto> ?grid)\<rparr>"
  have u: "reg_ok (activeMatchSessions u)" "registered u (nat x) = NULL" "sessions u q = Some ?grid" "take_grant (memory_grants u) = (True, [])"
    "activeMatchSessions u = activeMatchSessions s"
    using table_core_reg [OF core] x(3) memory(1) by (simp_all add: u_def)
  have "word_of_int x = allocated_slots (activeMatchSessions s)" using slots(1) by simp
  moreover have "can_grow (one_grant True) (table_of (activeMatchSessions s))"
    using slots(2) by (simp add: can_grow_def word_less_nat_alt)
  ultimately have "register_session q x u = Fault Out_Of_Bounds"
    using register_run [OF u(1) x(1,2) u(2) memory(3) u(3,4)] u(5) slots(2) by simp
  then show ?thesis using run by (simp add: andThen_def flip: u_def)
qed

section \<open>The end of main\<close>

text \<open>The sessions go one after the other: when slot \<open>k\<close> is reached, those of the lower slots are gone.\<close>

definition without_below :: "server \<Rightarrow> nat \<Rightarrow> server" where
  "without_below s k = s\<lparr>sessions := (\<lambda>p. if \<exists>j<k. registered s j = p then None else sessions s p)\<rparr>"

lemma without_below_Suc:
  assumes "registered s k = p"
  shows "(without_below s k)\<lparr>sessions := (sessions (without_below s k))(p := None)\<rparr> = without_below s (Suc k)"
proof -
  have "(sessions (without_below s k))(p := None) = sessions (without_below s (Suc k))"
    using assms by (auto simp: fun_eq_iff without_below_def less_Suc_eq)
  then show ?thesis by (simp add: without_below_def)
qed

lemma destroy_all_sessions:
  assumes core: "table_core s" and k: "k + n = unat (allocated_slots (activeMatchSessions s))"
  shows "hook_fold destroyMatchSessionInstance (drop k (cells (table_of (activeMatchSessions s)))) (without_below s k) =
    Some (without_below s (k + n))"
  using k
proof (induction n arbitrary: k)
  case (Suc n)
  let ?cs = "cells (table_of (activeMatchSessions s))"
  have reg: "reg_ok (activeMatchSessions s)" using core by (rule table_core_reg)
  have kl: "k < unat (allocated_slots (activeMatchSessions s))" using Suc.prems by simp
  have slot: "bytes_ptr (?cs ! k) = registered s k" using kl by (simp add: entry_simps)
  have len: "length (?cs ! k) = 8" using cell_width [of "activeMatchSessions s" k] kl reg_ok_da [OF reg] by (simp add: da_ok_def)
  have split: "drop k ?cs = ?cs ! k # drop (Suc k) ?cs" using kl by (intro Cons_nth_drop_Suc [symmetric]) simp
  have "\<exists>bs. destroyMatchSessionInstance (?cs ! k) (without_below s k) = Done bs (without_below s (Suc k)) \<and> length bs = 8"
  proof (cases "registered s k = NULL")
    case True
    have "sessions s NULL = None" using table_core_live [OF core, of NULL] by (cases "sessions s NULL") auto
    then have "(sessions (without_below s k))(NULL := None) = sessions (without_below s k)"
      by (intro fun_upd_idem) (simp add: without_below_def)
    then have "without_below s (Suc k) = without_below s k" using without_below_Suc [OF True] by simp
    then show ?thesis using True slot len by (simp add: destroyMatchSessionInstance_def ret_def)
  next
    case False
    with core obtain m where m: "sessions s (registered s k) = Some m" "unat (sessionId m) = k" by (rule table_core_registered)
    have "registered s j \<noteq> registered s k" if "j < k" for j
    proof
      assume same: "registered s j = registered s k"
      then have "registered s j \<noteq> NULL" using False by simp
      with core obtain m' where "sessions s (registered s j) = Some m'" "unat (sessionId m') = j" by (rule table_core_registered)
      then show False using m same that by simp
    qed
    then have "sessions (without_below s k) (registered s k) = Some m" using m(1) by (auto simp: without_below_def)
    from destroy_session_run [OF slot False this] show ?thesis using without_below_Suc [OF refl, of s k] by simp
  qed
  then show ?case using Suc.IH [of "Suc k"] Suc.prems split len by auto
qed simp

lemma demolish_sessions_run:
  assumes core: "table_core s"
  shows "on_sessions (demolish_memory_store (Some destroyMatchSessionInstance)) s =
    Done () (s\<lparr>sessions := Map.empty, activeMatchSessions := demolished\<rparr>)"
proof -
  let ?R = "activeMatchSessions s"
  have "without_below s 0 = s" by (simp add: without_below_def)
  then have fold: "hook_fold destroyMatchSessionInstance (cells (table_of ?R)) s = Some (without_below s (unat (allocated_slots ?R)))"
    using destroy_all_sessions [OF core, of 0 "unat (allocated_slots ?R)"] by simp
  have "sessions (without_below s (unat (allocated_slots ?R))) p = None" for p
  proof (cases "sessions s p")
    case (Some m)
    have p: "p \<noteq> NULL" "registered s (unat (sessionId m)) = p" using table_core_live [OF core Some] by simp_all
    then have "unat (sessionId m) < unat (allocated_slots ?R)" by (intro entry_in_range) simp
    then show ?thesis using p(2) by (auto simp: without_below_def)
  qed (simp add: without_below_def)
  then have gone: "without_below s (unat (allocated_slots ?R)) = s\<lparr>sessions := Map.empty\<rparr>"
    by (simp add: without_below_def fun_eq_iff)
  have "da_ok ?R" using reg_ok_da [OF table_core_reg [OF core]] by simp
  from demolish_run [OF this fold] gone show ?thesis by (simp add: on_sessions_def)
qed

text \<open>
  Freeing slot after slot: the first slot is the start of the block and goes, with it the whole block;
  every further one lies inside it. With a single slot it is the store's own \<^verbatim>\<open>free\<close> that comes second.
\<close>

lemma slot_offset:
  assumes "da_shape st" "0 < c" "c < unat (allocated_slots st)"
  shows "word_of_nat c * element_byte_footprint st \<noteq> (0 :: u64)"
proof -
  have c: "unat (word_of_nat c :: u64) = c" using assms(3) unat_le_size_max [of "allocated_slots st"] by (simp add: unat_of_nat)
  have "c * unat (element_byte_footprint st) \<le> unat (allocated_slots st) * unat (element_byte_footprint st)"
    using assms(3) by (intro mult_le_mono1) simp
  then have "c * unat (element_byte_footprint st) \<le> unat SIZE_MAX"
    using assms(1) by (simp only: da_shape_def) linarith
  then have "unat (word_of_nat c * element_byte_footprint st :: u64) = c * unat (element_byte_footprint st)"
    using c by (simp add: unat_mult_fits)
  moreover have "0 < unat (element_byte_footprint st)" using assms(1) by (simp add: da_shape_def unat_gt_0)
  ultimately show ?thesis using assms(2) by (metis mult_is_0 neq0_conv unat_0)
qed

lemma demolish_by_free_run:
  assumes "da_ok st"
  shows "demolish_by_free (Some st) = (if heap_region st = None then Done () (Some demolished) else Fault Bad_Free)"
proof (cases "heap_region st")
  case None
  then show ?thesis using assms
    by (simp add: demolish_by_free_def cmd_defs outcome_simps da_ok_def demolished_def)
next
  case (Some mem)
  let ?l = "st\<lparr>synchronizer := Locked\<rparr>"
  have shape: "da_shape ?l" and free: "synchronizer st = Unlocked" using assms by (simp_all add: da_ok_def)
  have n: "0 < unat (allocated_slots st)" using shape Some by (simp add: da_shape_def unat_gt_0)
  have first: "free_slots (0 # cs) (?l, True) = free_slots cs (?l, False)" for cs
    by (simp add: free_address_def cmd_defs on_fst_apply)
  have "andThen (free_slots [0..<unat (allocated_slots st)]) (\<lambda>_. andThen (free_address 0) k) (?l, True) = Fault Bad_Free" for k :: "unit \<Rightarrow> (dyn_array \<times> bool, unit) cmd"
  proof (cases "unat (allocated_slots st) = 1")
    case True
    then show ?thesis using first [of "[]"] by (simp add: andThen_def ret_def free_address_def)
  next
    case False
    then have "[0..<unat (allocated_slots st)] = 0 # 1 # [2..<unat (allocated_slots st)]"
      using n by (simp add: upt_conv_Cons numeral_2_eq_2)
    then have "free_slots [0..<unat (allocated_slots st)] (?l, True) = Fault Bad_Free"
      using first [of "1 # [2..<unat (allocated_slots st)]"] slot_offset [OF shape, of 1] n False
      by (simp add: free_address_def cmd_defs on_fst_apply)
    then show ?thesis by (simp add: andThen_def)
  qed
  then show ?thesis using Some free
    by (simp add: demolish_by_free_def andThen_def [of "on_fst lock_store"] on_fst_apply lock_store_def)
qed

text \<open>
  C31. When \<^verbatim>\<open>accept\<close> fails and \<^verbatim>\<open>main\<close> leaves its loop, on a server with a consistent session table and a sound
  player registry, all sessions are destroyed, and then the player registry is
  demolished with \<^verbatim>\<open>free\<close> as the hook, which gets the addresses of the slots and not the pointers in
  them. Freeing the first slot is freeing the block of the registry, which is allowed once; the address
  of every other slot lies inside the block, and freeing it is undefined, as is the second \<^verbatim>\<open>free\<close> of
  the block when there is one slot only: so the shutdown fails, whoever is registered, unless the registry
  has no block at all; then, and only then, everything is closed down in order.
\<close>

theorem shutdown_bad_free:
  assumes "table_core s" "da_ok (activePlayerNodes s)"
  shows "(case heap_region (activePlayerNodes s) of
      None \<Rightarrow> tear_down s = Done () (s\<lparr>sessions := Map.empty, activeMatchSessions := demolished, activePlayerNodes := demolished,
        closed := closed s @ [word_of_int (global_listen_descriptor s)]\<rparr>)
    | Some _ \<Rightarrow> tear_down s = Fault Bad_Free \<and>
        free_slots [0] (activePlayerNodes s, True) = Done () (activePlayerNodes s, False) \<and>
        (\<forall>c live. 0 < c \<longrightarrow> c < unat (allocated_slots (activePlayerNodes s)) \<longrightarrow>
          free_slots [c] (activePlayerNodes s, live) = Fault Bad_Free))"
proof -
  have shape: "da_shape (activePlayerNodes s)" using assms(2) by (simp add: da_ok_def)
  have "free_slots [c] (activePlayerNodes s, live) = Fault Bad_Free" if "0 < c" "c < unat (allocated_slots (activePlayerNodes s))" for c live
    using slot_offset [OF shape that] by (simp add: free_address_def cmd_defs on_fst_apply)
  moreover have "free_slots [0] (activePlayerNodes s, True) = Done () (activePlayerNodes s, False)"
    by (simp add: free_address_def cmd_defs on_fst_apply)
  ultimately show ?thesis using demolish_sessions_run [OF assms(1)] demolish_by_free_run [OF assms(2)]
    by (simp add: tear_down_def andThen_def on_players_def on_fst_apply close_listener_def close_socket_def cmd_defs
        split: option.splits)
qed

section \<open>The failures at work\<close>

text \<open>Bob sends an empty name; identifier 1 is lost, and he is still registered.\<close>

theorem create_abandoned_witness:
  "\<exists>t. process_instantiation_request 2 (lounge (\<lambda>_. net32 0)) = Exited t \<and> current_highest_id (identifiers t) = 2 \<and>
     pooled (identifiers t) = [] \<and> registered t 1 = NULL \<and> nodes t 2 = Some bob"
proof -
  let ?s = "lounge (\<lambda>_. net32 0)" and ?ids = "identifiers (lounge (\<lambda>_. net32 0))\<lparr>current_highest_id := 2\<rparr>"
  have ids: "acquireNewSessionIdentifier (identifiers ?s) = Done 1 ?ids" "current_highest_id ?ids \<le> 65536"
    by (simp_all add: acquireNewSessionIdentifier_def lounge_def INT_MAX_def)
  have b: "nodes ?s 2 = Some bob" "activeSessionId bob = -1" "inbox ?s (socketDescriptor bob) = net32 0 @ []"
    "sint (0 :: u32) = 0 \<or> sint (0 :: u32) > LIMIT_IDENTITY_CAPACITY" by (simp_all add: bob_def)
  obtain es e where "process_instantiation_request 2 ?s = Exited (?s\<lparr>identifiers := ?ids,
      channels := (channels ?s)(socketDescriptor bob := es), errno := e\<rparr>)"
    using create_abandoned [OF lounge_core _ b(1,2) ids b(3,4)] by auto
  moreover have "pooled ?ids = []" by (simp add: lounge_def pooled_def)
  ultimately show ?thesis using one_session_ok by simp
qed

text \<open>Two abandoned requests later the next identifier is 3, the number of slots.\<close>

definition leaky :: server where
  "leaky = (lounge (\<lambda>_. name_message (ascii ''Bob'')))\<lparr>identifiers :=
     \<lparr>current_highest_id = 3, recycled_id_pool = replicate 20 0, recycled_id_count = 0\<rparr>\<rparr>"

theorem create_beyond_block_witness: "process_instantiation_request 2 leaky = Fault Out_Of_Bounds"
proof (rule create_beyond_block [where q = 4 and qs = "[]" and n = bob])
  show "table_core leaky"
  proof (rule table_coreI)
    have "ids_ok (identifiers leaky) {0}" by (simp add: ids_ok_def leaky_def pooled_def INT_MAX_def)
    then show "ids_cover leaky" using one_session_ok unfolding ids_cover_def by (intro exI [of _ "{0}"]) (simp add: leaky_def)
  qed (use one_session_ok in \<open>auto simp: leaky_def waiting_session_def fresh_session_def split: if_splits\<close>)
  show "acquireNewSessionIdentifier (identifiers leaky) = Done 3 (identifiers leaky\<lparr>current_highest_id := 4\<rparr>)"
    by (simp add: acquireNewSessionIdentifier_def leaky_def INT_MAX_def)
  show "inbox leaky (socketDescriptor bob) = name_message (ascii ''Bob'') @ []"
    by (simp add: leaky_def inbox_def lounge_def split: list.splits)
  show "proper_name (ascii ''Bob'')" by (rule names_proper)
qed (simp_all add: leaky_def bob_def one_session_def)

theorem shutdown_bad_free_witness:
  "tear_down (lounge (\<lambda>_. [])) = Fault Bad_Free \<and>
   free_slots [0] (activePlayerNodes (lounge (\<lambda>_. [])), True) = Done () (activePlayerNodes (lounge (\<lambda>_. [])), False) \<and>
   free_slots [1] (activePlayerNodes (lounge (\<lambda>_. [])), False) = Fault Bad_Free"
proof -
  have ok: "da_ok (activePlayerNodes (lounge (\<lambda>_. [])))"
    by (simp add: lounge_def da_ok_def da_shape_def) (simp add: roster_def)
  note f = shutdown_bad_free [OF lounge_core ok]
  obtain mem where r: "heap_region (activePlayerNodes (lounge (\<lambda>_. []))) = Some mem" by (simp add: lounge_def roster_def)
  have "1 < unat (allocated_slots (activePlayerNodes (lounge (\<lambda>_. []))))" by (simp add: lounge_def roster_def)
  then show ?thesis using f unfolding r option.case by (blast intro: zero_less_one)
qed

end
