(* ===== verification/StoreRuns.thy ===== *)
theory StoreRuns
  imports Slots
begin

text \<open>
  Whole histories of a dynamic array. A history is a list of calls; running it on the byte-level
  store of \<^verbatim>\<open>DynArray\<close> and on the table of \<^verbatim>\<open>Slots\<close> gives the same replies and matching states, for
  as long as the history stays inside the contract: the count never exceeds the slots, a payload
  has the width of an element, nothing is removed from an empty store, and no implant aims one past
  the last slot while a slot is free. The last clause is not checked by the code; the theory also
  states what the code does when a caller breaks it.
\<close>

section \<open>Histories\<close>

datatype store_op = Append "byte list" | Implant u64 "byte list" | Fetch u64 | Excise u64 | Extract

type_synonym reply = "int \<times> byte list option"

definition excise_plain :: "allocator \<Rightarrow> u64 \<Rightarrow> (dyn_array option, int) cmd" where
  "excise_plain al i ref =
     (case excise_at_offset al i None (ref, ()) of
        Done rc (ref', _) \<Rightarrow> Done rc ref' | Exited (ref', _) \<Rightarrow> Exited ref'
      | Halted (ref', _) \<Rightarrow> Halted ref' | Fault f \<Rightarrow> Fault f)"

fun store_call :: "allocator \<Rightarrow> store_op \<Rightarrow> (dyn_array option, reply) cmd" where
  "store_call al (Append bs) = andThen (append_to_store al (Some bs)) (\<lambda>rc. ret (rc, None))"
| "store_call al (Implant i bs) = andThen (implant_at_offset al i (Some bs)) (\<lambda>rc. ret (rc, None))"
| "store_call al (Fetch i) = fetch_from_offset i True"
| "store_call al (Excise i) = andThen (excise_plain al i) (\<lambda>rc. ret (rc, None))"
| "store_call al Extract = extract_tail_from_store al True"

fun store_run :: "allocator \<Rightarrow> store_op list \<Rightarrow> (dyn_array option, reply list) cmd" where
  "store_run al [] = ret []"
| "store_run al (c # cs) = andThen (store_call al c) (\<lambda>r. andThen (store_run al cs) (\<lambda>rs. ret (r # rs)))"

definition t_shrink :: "allocator \<Rightarrow> nat \<Rightarrow> table \<Rightarrow> table" where
  "t_shrink al i t = (if can_shrink al t then t_compact i t else t)"

fun table_call :: "allocator \<Rightarrow> store_op \<Rightarrow> table \<Rightarrow> (reply \<times> table) option" where
  "table_call al (Append bs) t =
     (if length bs \<noteq> width t then None
      else if can_grow al t then Some ((0, None), t_append bs t) else Some ((-1, None), t))"
| "table_call al (Implant i bs) t =
     (if length bs \<noteq> width t \<or> unat i = length (cells t) \<and> live t < length (cells t) then None
      else if unat i \<le> length (cells t) \<and> can_grow al t then Some ((0, None), t_implant (unat i) bs t)
      else Some ((-1, None), t))"
| "table_call al (Fetch i) t =
     Some (case t_fetch (unat i) t of Some bs \<Rightarrow> (0, Some bs) | None \<Rightarrow> (-1, None), t)"
| "table_call al (Excise i) t =
     (if length (cells t) \<le> unat i then Some ((-1, None), t)
      else if live t = 0 then None
      else Some ((0, None),
             t_shrink al (unat i) (t\<lparr>cells := (cells t)[unat i := zeros (width t)], live := live t - 1\<rparr>)))"
| "table_call al Extract t =
     (if live t = 0 then Some ((-1, None), t)
      else Some ((0, t_fetch (live t - 1) t), t_shrink al (live t - 1) (t\<lparr>live := live t - 1\<rparr>)))"

fun table_run :: "allocator \<Rightarrow> store_op list \<Rightarrow> table \<Rightarrow> (reply list \<times> table) option" where
  "table_run al [] t = Some ([], t)"
| "table_run al (c # cs) t =
     (if length (cells t) < live t then None
      else Option.bind (table_call al c t) (\<lambda>(r, t').
             Option.bind (table_run al cs t') (\<lambda>(rs, t''). Some (r # rs, t''))))"

section \<open>One call\<close>

lemma excise_refused:
  assumes "da_ok st" "\<not> i < allocated_slots st"
  shows "excise_plain al i (Some st) = Done (-1) (Some st)"
  using assms by (simp add: excise_plain_def excise_at_offset_def lift_store_with_def cmd_defs outcome_simps da_ok_def)

lemma excise_plain_spec:
  assumes "da_ok st" "width (table_of st) \<le> 8" "i < allocated_slots st" "occupied_slots st \<noteq> 0"
  shows "\<exists>st'. excise_plain al i (Some st) = Done 0 (Some st') \<and> da_ok st' \<and>
    table_of st' = t_shrink al (unat i) ((table_of st)\<lparr>cells := (cells (table_of st))[unat i := zeros (width (table_of st))],
                   live := live (table_of st) - 1\<rparr>)"
proof -
  have "hook_yields None (cells (table_of st) ! unat i) () ()" by (simp add: hook_yields_def)
  from excise_spec [OF assms(1) _ assms(3,4) this, of al] assms(2) show ?thesis
    by (auto simp: excise_plain_def t_shrink_def t_excise_def Let_def)
qed

lemma extract_plain_spec:
  assumes "da_ok st" "within st" "width (table_of st) \<le> 8" "occupied_slots st \<noteq> 0"
  shows "\<exists>st'. extract_tail_from_store al True (Some st) =
      Done (0, t_fetch (live (table_of st) - 1) (table_of st)) (Some st') \<and> da_ok st' \<and>
    table_of st' = t_shrink al (live (table_of st) - 1) ((table_of st)\<lparr>live := live (table_of st) - 1\<rparr>)"
  using extract_spec [OF assms(1,2), of al] assms(3,4) by (auto simp: t_shrink_def Let_def)

lemma within_table: "within st \<longleftrightarrow> live (table_of st) \<le> length (cells (table_of st))"
  by (simp add: within_def word_le_nat_alt)

lemma store_call_refines:
  assumes ok: "da_ok st" "within st" "width (table_of st) \<le> 8"
    and call: "table_call al c (table_of st) = Some (r, t')"
  shows "\<exists>st'. store_call al c (Some st) = Done r (Some st') \<and> da_ok st' \<and> table_of st' = t'"
proof (cases c)
  case (Append bs)
  then show ?thesis using append_spec [OF ok(1,2), of bs al] call ok(1)
    by (auto simp: cmd_defs split: if_splits)
next
  case (Implant i bs)
  then have "length bs = unat (element_byte_footprint st)" using call by (auto split: if_splits)
  from implant_spec [OF ok(1,2) this, of i al] show ?thesis using call ok(1) Implant
    by (auto simp: cmd_defs word_less_nat_alt word_unat_eq_iff not_le split: if_splits)
next
  case (Fetch i)
  then show ?thesis using fetch_spec [OF ok(1), of i] call ok(1) by (auto split: option.splits)
next
  case (Excise i)
  then show ?thesis using excise_refused [OF ok(1), of i al] excise_plain_spec [OF ok(1,3), of i al] call ok(1)
    by (auto simp: cmd_defs word_less_nat_alt unat_eq_zero split: if_splits)
next
  case Extract
  then show ?thesis using extract_spec [OF ok(1,2), of al] extract_plain_spec [OF ok, of al] call ok
    by (auto simp: unat_eq_zero split: if_splits)
qed

lemma table_call_width: "table_call al c t = Some (r, t') \<Longrightarrow> width t' = width t"
  by (cases c) (auto simp: t_append_def t_implant_def t_grow_def t_shrink_def split: if_splits)

section \<open>Whole histories\<close>

text \<open>
  C7. On a sound store of elements no wider than a pointer, on any history inside the contract (each payload
  one element, the count never above the slots, no excision from an empty store, no implant at the slot count
  while a slot is free), of whatever calls, refusals included, the byte-level store never faults, gives the
  reply of the table at every call, keeps its invariant with the lock free, and ends in the table's final state. The table is a table and
  not a sequence: implanting overwrites the cell at the index and counts one more, excising leaves a
  zeroed cell and counts one less, and no other cell moves; the tests of the repository expect a sequence
  (\<open>insertion_overwrites\<close>, \<open>removal_leaves_hole\<close>).
\<close>

theorem store_refines_table:
  assumes "da_ok st" "width (table_of st) \<le> 8"
    and "table_run al cs (table_of st) = Some (rs, t')"
  shows "\<exists>st'. store_run al cs (Some st) = Done rs (Some st') \<and> da_ok st' \<and> table_of st' = t'"
  using assms
proof (induction cs arbitrary: st rs)
  case (Cons c cs)
  then obtain r t1 rs1 where one: "table_call al c (table_of st) = Some (r, t1)"
    and rest: "table_run al cs t1 = Some (rs1, t')" and rs: "rs = r # rs1" and "within st"
    by (auto simp: within_table bind_eq_Some_conv split: if_splits)
  from store_call_refines [OF Cons.prems(1) this(4) Cons.prems(2) one] obtain st1 where
    st1: "store_call al c (Some st) = Done r (Some st1)" "da_ok st1" "table_of st1 = t1" by blast
  have "width (table_of st1) \<le> 8" using table_call_width [OF one] st1(3) Cons.prems(2) by simp
  from Cons.IH [OF st1(2) this] rest st1(3) obtain st' where
    "store_run al cs (Some st1) = Done rs1 (Some st')" "da_ok st'" "table_of st' = t'" by blast
  with st1(1) rs show ?case by (simp add: cmd_defs)
qed (simp add: ret_def)

text \<open>A store of three slots of two bytes, and a history that grows it, fails, removes and shrinks it.\<close>

definition small_store :: dyn_array where
  "small_store = \<lparr>floor_threshold = 1, element_byte_footprint = 2, synchronizer = Unlocked,
     allocated_slots = 3, occupied_slots = 2, heap_region = Some [1, 2, 3, 4, 0, 0]\<rparr>"

definition small_history :: "store_op list" where
  "small_history = [Append [5, 6], Append [7, 8], Implant 5 [1, 1], Implant 9 [7, 8], Fetch 5, Fetch 6,
     Excise 5, Excise 3, Excise 2, Extract]"

lemma small_store_ok: "da_ok small_store" "within small_store" "width (table_of small_store) \<le> 8"
  by (simp_all add: da_ok_def da_shape_def within_def small_store_def)

theorem store_refines_table_witness:
  "\<exists>st' t'. store_run generous small_history (Some small_store) =
       Done [(0, None), (0, None), (0, None), (-1, None), (0, Some [1, 1]), (-1, None),
         (0, None), (0, None), (0, None), (0, Some [3, 4])] (Some st') \<and> da_ok st' \<and> table_of st' = t' \<and>
     cells t' = [[1, 2], [3, 4], [0, 0]] \<and> live t' = 1"
proof -
  let ?r = "table_run generous small_history (table_of small_store)"
  have "case ?r of None \<Rightarrow> False | Some (rs, t') \<Rightarrow>
      rs = [(0, None), (0, None), (0, None), (-1, None), (0, Some [1, 1]), (-1, None),
         (0, None), (0, None), (0, None), (0, Some [3, 4])] \<and>
      cells t' = [[1, 2], [3, 4], [0, 0]] \<and> live t' = 1"
    by code_simp
  then obtain t' where "?r = Some ([(0, None), (0, None), (0, None), (-1, None), (0, Some [1, 1]), (-1, None),
         (0, None), (0, None), (0, None), (0, Some [3, 4])], t')"
    "cells t' = [[1, 2], [3, 4], [0, 0]]" "live t' = 1"
    by (auto split: option.splits)
  with store_refines_table [OF small_store_ok(1,3) this(1)] show ?thesis by blast
qed

section \<open>What the tests of the array expect\<close>

text \<open>
  \<^verbatim>\<open>tests/dynamic_array_test.c\<close> was written for an earlier array (its routines have other names). Three of
  its expectations do not hold of this one. \<^verbatim>\<open>test_insert_at\<close> puts 1 and 3, inserts 2 at index 1 and wants
  1, 2, 3: here 2 replaces 3. \<^verbatim>\<open>test_remove_at_callback\<close> puts 10, 20 and 30, removes index 1 and wants
  10, 30: here a zero stays between them. The third is below.
\<close>

definition int_table :: "nat \<Rightarrow> table" where
  "int_table n = \<lparr>cells = replicate n (zeros 4), width = 4, live = 0, lower = n\<rparr>"

lemma insertion_overwrites:
  "map_option (cells \<circ> snd) (table_run generous [Append [1, 0, 0, 0], Append [3, 0, 0, 0], Implant 1 [2, 0, 0, 0]] (int_table 1)) =
     Some [[1, 0, 0, 0], [2, 0, 0, 0], [0, 0, 0, 0], [0, 0, 0, 0]]"
  by code_simp

lemma removal_leaves_hole:
  "map_option (cells \<circ> snd) (table_run generous
      [Append [10, 0, 0, 0], Append [20, 0, 0, 0], Append [30, 0, 0, 0], Excise 1] (int_table 2)) =
     Some [[10, 0, 0, 0], [0, 0, 0, 0], [30, 0, 0, 0], [0, 0, 0, 0]]"
  by code_simp

text \<open>\<^verbatim>\<open>test_invalid_indices\<close> wants a removal from an empty array to fail: it succeeds, and the count wraps round.\<close>

lemma removal_wraps:
  "case excise_at_offset generous 0 None (Some (small_store\<lparr>occupied_slots := 0\<rparr>), ()) of
     Done rc (Some st, _) \<Rightarrow> rc = 0 \<and> occupied_slots st = SIZE_MAX | _ \<Rightarrow> False"
  by code_simp

section \<open>Implanting, every branch\<close>

text \<open>
  C21. \<^verbatim>\<open>implant_at_offset\<close>, every branch, on a sound store whose count is within its slots and a payload of one
  element: a NULL store or payload is refused; a destroyed or held mutex is
  undefined behaviour (a free one is always taken, so the branch for a failing lock is dead); an offset
  beyond the allocated slots is refused, and so is a call that needs growth the allocator cannot give, in
  both cases with the store as before; inside the (grown) array the element at that index is
  overwritten, none is moved, and the count rises. In the one remaining case, an offset
  equal to the number of slots while a slot is still free, the bound check \<^verbatim>\<open><=\<close> lets the call pass, no
  growth happens and the copy leaves the block: undefined behaviour. The test
  \<^verbatim>\<open>test_insert_at\<close> of \<^verbatim>\<open>tests/dynamic_array_test.c\<close> expects an insertion that moves the later
  elements up; the code does not do that (\<open>insertion_overwrites\<close>).
\<close>

theorem implant_refines:
  assumes "da_ok st" "within st" "length bs = unat (element_byte_footprint st)"
  shows "implant_at_offset al i (Some bs) None = Done (-1) None \<and>
    implant_at_offset al i None (Some st) = Done (-1) (Some st) \<and>
    implant_at_offset al i (Some bs) (Some (st\<lparr>synchronizer := Dead\<rparr>)) = Fault Dead_Mutex \<and>
    implant_at_offset al i (Some bs) (Some (st\<lparr>synchronizer := Locked\<rparr>)) = Fault Relock \<and>
    (if allocated_slots st < i \<or> \<not> can_grow al (table_of st)
      then implant_at_offset al i (Some bs) (Some st) = Done (-1) (Some st)
    else if i = allocated_slots st \<and> occupied_slots st < allocated_slots st
      then implant_at_offset al i (Some bs) (Some st) = Fault Out_Of_Bounds
    else \<exists>st'. implant_at_offset al i (Some bs) (Some st) = Done 0 (Some st') \<and> da_ok st' \<and> within st' \<and>
           table_of st' = t_implant (unat i) bs (table_of st))"
  using implant_spec [OF assms, of i al] by (simp add: implant_at_offset_def cmd_defs outcome_simps)

theorem implant_refines_witness:
  "implant_at_offset generous 3 (Some [9, 9]) (Some small_store) = Fault Out_Of_Bounds \<and>
   implant_at_offset generous 4 (Some [9, 9]) (Some small_store) = Done (-1) (Some small_store)"
proof -
  have w: "length [9, 9 :: byte] = unat (element_byte_footprint small_store)"
    by (simp add: small_store_def)
  have g: "can_grow generous (table_of small_store)" by code_simp
  show ?thesis
    using implant_refines [OF small_store_ok(1,2) w, where i = 3 and al = generous]
      implant_refines [OF small_store_ok(1,2) w, where i = 4 and al = generous] g
    by (simp add: small_store_def)
qed

section \<open>Set-up and destruction\<close>

theorem configure_refines_witness:
  "\<exists>st'. configure_memory_store generous True 3 2 (Some small_store) = Done 0 (Some st') \<and>
     da_ok st' \<and> within st' \<and> table_of st' =
       \<lparr>cells = replicate 3 (zeros 2), width = 2, live = 0, lower = 3\<rparr>"
proof -
  have "calloc generous 3 2 \<noteq> None" by (simp add: calloc_def generous_def)
  then show ?thesis using configure_refines [where footprint = 2 and mx = True and starter = 3 and al = generous and st = small_store] by simp
qed

text \<open>A cleanup hook that counts its calls.\<close>

definition counting_hook :: "nat hook" where
  "counting_hook bs w = Done bs (Suc w)"

theorem demolish_refines_witness:
  "\<exists>gone. demolish_memory_store (Some counting_hook) (Some small_store, 0) = Done () (Some gone, 3) \<and>
     heap_region gone = None"
proof -
  have "hook_fold counting_hook (cells (table_of small_store)) 0 = Some 3" by code_simp
  from demolish_refines [OF small_store_ok(1) this] show ?thesis by blast
qed

end
