(* ===== verification/Roster.thy ===== *)
theory Roster
  imports Registry StoreRuns
begin

text \<open>
  The registry of players. It grows by \<^verbatim>\<open>append_to_store\<close>, which uses the count as an index, and
  shrinks by \<^verbatim>\<open>excise_at_offset\<close> at any index; so a pointer can be lost (\<open>append_after_excise_loses_pointer\<close>)
  and the count can exceed both the number of pointers and, after a compaction, the number of
  slots. What remains true is \<open>roster_ok\<close>; the theory shows what the two operations make of it, and
  how an append then leaves the block.
\<close>

definition roster_ok :: "dyn_array \<Rightarrow> bool" where
  "roster_ok st \<longleftrightarrow> pointer_store st \<and> non_null (pointers st) \<le> unat (occupied_slots st) \<and>
     unat (occupied_slots st) * 8 \<le> unat SIZE_MAX"

lemma roster_okD:
  assumes "roster_ok st"
  shows "pointer_store st" "da_ok st" "element_byte_footprint st = 8" "unat (occupied_slots st) * 8 \<le> unat SIZE_MAX"
    "non_null (pointers st) \<le> unat (occupied_slots st)"
  using assms by (simp_all add: roster_ok_def pointer_store_def)

lemma non_null_grows: "non_null (ps[i := p]) \<le> Suc (non_null ps)"
proof (induction ps arbitrary: i)
  case (Cons x xs)
  then show ?case by (cases i) (auto simp: non_null_def le_SucI)
qed simp

section \<open>Removing a player\<close>

lemma excise_roster:
  assumes ok: "roster_ok st" and some: "entry st (unat i) \<noteq> NULL"
    and hook: "hook_yields hook (cells (table_of st) ! unat i) w w'"
  shows "\<exists>st'. excise_at_offset al i hook (Some st, w) = Done 0 (Some st', w') \<and> roster_ok st' \<and>
    entry st' = (entry st)(unat i := NULL)"
proof -
  have "occupied_slots st \<noteq> 0" using non_null_pos [OF some] ok by (auto simp: roster_ok_def)
  from excise_entry [OF roster_okD(1) [OF ok] this some hook, of al] obtain st' where
    "excise_at_offset al i hook (Some st, w) = Done 0 (Some st', w')" "pointer_store st'"
    "entry st' = (entry st)(unat i := NULL)" "Suc (non_null (pointers st')) = non_null (pointers st)"
    "unat (occupied_slots st') = unat (occupied_slots st) - 1" by blast
  moreover from this have "roster_ok st'" using ok unfolding roster_ok_def by linarith
  ultimately show ?thesis by blast
qed

section \<open>Adding a player\<close>

lemma append_entry:
  assumes st: "pointer_store st" "pointer_store st'"
    and t: "table_of st' = t_append (ptr_bytes p) (table_of st)"
    and room: "live (table_of st) < length (cells (t_grow (table_of st)))"
  shows "entry st' = (entry st)(unat (occupied_slots st) := p)"
    "unat (occupied_slots st') = Suc (unat (occupied_slots st))"
    "non_null (pointers st') \<le> Suc (non_null (pointers st))"
proof -
  let ?n = "unat (occupied_slots st)"
  define ps where "ps = map bytes_ptr (cells (t_grow (table_of st)))"
  have grown: "\<exists>k. ps = pointers st @ replicate k NULL" by (auto simp: ps_def pointers_def t_grow_def)
  then have ps_entry: "entry st j = (if j < length ps then ps ! j else NULL)" for j
    by (auto simp: entry_def nth_append)
  have ps': "pointers st' = ps[?n := p]" using t by (simp add: pointers_def ps_def t_append_def map_update)
  have "?n < length ps" using room by (simp add: ps_def)
  then show "entry st' = (entry st)(?n := p)"
    by (auto simp: fun_eq_iff ps_entry entry_def [of st'] ps' nth_list_update simp del: length_pointers)
  show "unat (occupied_slots st') = Suc ?n" using arg_cong [OF t, of live] by (simp add: t_append_def)
  have "non_null ps = non_null (pointers st)" using grown by auto
  then show "non_null (pointers st') \<le> Suc (non_null (pointers st))" using non_null_grows [of ps ?n p] ps' by simp
qed

lemma append_roster:
  assumes ok: "roster_ok st"
  shows "(\<exists>st'. append_to_store al (Some (ptr_bytes p)) (Some st) = Done 0 (Some st') \<and> roster_ok st' \<and>
      entry st' = (entry st)(unat (occupied_slots st) := p)) \<or>
    append_to_store al (Some (ptr_bytes p)) (Some st) = Done (-1) (Some st) \<or>
    append_to_store al (Some (ptr_bytes p)) (Some st) = Fault Out_Of_Bounds"
proof -
  note st = roster_okD [OF ok]
  have w: "length (ptr_bytes p) = unat (element_byte_footprint st)" using st(3) by simp
  show ?thesis
  proof (cases "can_grow al (table_of st) \<and> live (table_of st) < length (cells (t_grow (table_of st)))")
    case True
    then obtain st' where r: "append_to_store al (Some (ptr_bytes p)) (Some st) = Done 0 (Some st')" "da_ok st'" "within st'"
      "table_of st' = t_append (ptr_bytes p) (table_of st)"
      using append_runs [OF st(2) w, of al] by auto
    have "width (table_of st') = width (table_of st)" using r(4) by (simp add: t_append_def)
    then have ps: "pointer_store st'" using r(2) st(3) by (simp add: pointer_store_def word_unat_eq_iff)
    from True have room: "live (table_of st) < length (cells (t_grow (table_of st)))" by simp
    note e = append_entry [OF st(1) ps r(4) room]
    have "unat (occupied_slots st') \<le> unat (allocated_slots st')" using r(3) by (simp add: within_def word_le_nat_alt)
    moreover have "element_byte_footprint st' = 8" "da_shape st'" using ps by (simp_all add: pointer_store_def da_ok_def)
    then have "unat (allocated_slots st') * 8 \<le> unat SIZE_MAX" by (auto simp: da_shape_def)
    ultimately have "unat (occupied_slots st') * 8 \<le> unat SIZE_MAX" by linarith
    then have "roster_ok st'" using ps e st(5) by (simp add: roster_ok_def)
    then show ?thesis using r(1) e(1) by blast
  next
    case False
    then show ?thesis using append_runs [OF st(2) w, of al] st(3,4) by (auto split: if_splits)
  qed
qed

section \<open>Beyond the block\<close>

text \<open>
  C23. When the count has come to twice the slots, appending writes behind the block, however much
  memory there is: the store doubles once, and the count is still no index of it.
\<close>

theorem append_overruns:
  assumes "roster_ok st" "allocated_slots st \<noteq> 0" "2 * unat (allocated_slots st) \<le> unat (occupied_slots st)"
    and "can_grow al (table_of st)"
  shows "append_to_store al (Some (ptr_bytes p)) (Some st) = Fault Out_Of_Bounds"
proof -
  note st = roster_okD [OF assms(1)]
  have "length (cells (t_grow (table_of st))) = 2 * unat (allocated_slots st)"
    using assms(2,3) by (simp add: t_grow_def t_capacity_def)
  then show ?thesis using append_runs [OF st(2), of "ptr_bytes p" al] st(3,4) assms(3,4) by simp
qed

text \<open>
  How it comes to that: fifteen players enter a fresh registry; seven times one between the others goes
  and a new one is put over the last; then three leave, each of the last two halving the store.
\<close>

definition churn :: "store_op list" where
  "churn =
     map (\<lambda>b. Append [b, 0, 0, 0, 0, 0, 0, 0]) [1, 2, 3, 4, 5, 6, 7, 8, 9, 10, 11, 12, 13, 14, 15] @
     concat (map (\<lambda>i. [Excise i, Append [16, 0, 0, 0, 0, 0, 0, 0]]) [6, 7, 8, 9, 10, 12, 13]) @
     [Excise 14, Excise 11, Excise 5]"

definition churned :: dyn_array where
  "churned = roster [1, 2, 3, 4, 5, 0]\<lparr>occupied_slots := 12\<rparr>"

lemma churn_run:
  "case store_run generous churn (Some (roster [0, 0, 0, 0, 0, 0])) of Done _ st \<Rightarrow> st = Some churned | _ \<Rightarrow> False"
  by code_simp

theorem append_overruns_witness:
  "\<exists>rs. store_run generous churn (Some (roster [0, 0, 0, 0, 0, 0])) = Done rs (Some churned) \<and>
     append_to_store generous (Some (ptr_bytes 17)) (Some churned) = Fault Out_Of_Bounds"
proof -
  obtain rs where "store_run generous churn (Some (roster [0, 0, 0, 0, 0, 0])) = Done rs (Some churned)"
    using churn_run by (auto split: outcome.splits)
  moreover have "append_to_store generous (Some (ptr_bytes 17)) (Some churned) = Fault Out_Of_Bounds"
  proof (rule append_overruns)
    have "non_null (pointers churned) = 5" by code_simp
    then show "roster_ok churned"
      by (simp add: roster_ok_def pointer_store_def da_ok_def da_shape_def) (simp add: churned_def roster_def)
    show "can_grow generous (table_of churned)" by code_simp
  qed (simp_all add: churned_def roster_def)
  ultimately show ?thesis by blast
qed

end
