(* ===== verification/Roster_Frame.thy ===== *)
theory Roster_Frame
  imports Table_Invariant Roster
begin

text \<open>
  What serving a request leaves alone: the registry of players, which structs are players and on
  which socket, the counter of identifiers (which never falls), and that every live session has a
  live owner. Connecting and leaving are the only operations that change the first two; their runs
  are at the end of the theory.
\<close>

section \<open>Serving a request\<close>

definition socket_of :: "server \<Rightarrow> u64 \<Rightarrow> u32 option" where
  "socket_of s p = map_option socketDescriptor (nodes s p)"

definition owners_live :: "(u64 \<Rightarrow> u32 option) \<Rightarrow> server \<Rightarrow> bool" where
  "owners_live S s \<longleftrightarrow> (\<forall>q m. sessions s q = Some m \<longrightarrow> S (participantPrimary m) \<noteq> None)"

definition tended :: "dyn_array \<Rightarrow> (u64 \<Rightarrow> u32 option) \<Rightarrow> int \<Rightarrow> server \<Rightarrow> bool" where
  "tended R S x s \<longleftrightarrow> activePlayerNodes s = R \<and> socket_of s = S \<and> x \<le> current_highest_id (identifiers s) \<and>
     (x \<le> 65536 \<longrightarrow> owners_live S s)"

lemma socket_of_updates [simp]:
  "socket_of (s\<lparr>channels := a\<rparr>) = socket_of s" "socket_of (s\<lparr>errno := b\<rparr>) = socket_of s"
  "socket_of (s\<lparr>sent := c\<rparr>) = socket_of s" "socket_of (s\<lparr>closed := d\<rparr>) = socket_of s"
  "socket_of (s\<lparr>struct_addresses := e\<rparr>) = socket_of s" "socket_of (s\<lparr>memory_grants := f\<rparr>) = socket_of s"
  "socket_of (s\<lparr>randoms := g\<rparr>) = socket_of s" "socket_of (s\<lparr>clock := h\<rparr>) = socket_of s"
  "socket_of (s\<lparr>activeMatchSessions := i\<rparr>) = socket_of s" "socket_of (s\<lparr>activePlayerNodes := j\<rparr>) = socket_of s"
  "socket_of (s\<lparr>identifiers := k\<rparr>) = socket_of s" "socket_of (s\<lparr>sessions := l\<rparr>) = socket_of s"
  by (simp_all add: socket_of_def fun_eq_iff)

lemma socket_of_nodes [simp]:
  "socket_of (s\<lparr>nodes := (nodes t)(p \<mapsto> n)\<rparr>) = (socket_of t)(p \<mapsto> socketDescriptor n)"
  "socket_of (s\<lparr>nodes := (nodes t)(p := None)\<rparr>) = (socket_of t)(p := None)"
  by (auto simp: socket_of_def fun_eq_iff)

lemma owners_updates [simp]:
  "owners_live S (s\<lparr>nodes := a\<rparr>) = owners_live S s" "owners_live S (s\<lparr>identifiers := b\<rparr>) = owners_live S s"
  "owners_live S (s\<lparr>channels := c\<rparr>) = owners_live S s" "owners_live S (s\<lparr>errno := d\<rparr>) = owners_live S s"
  "owners_live S (s\<lparr>sent := e\<rparr>) = owners_live S s" "owners_live S (s\<lparr>closed := f\<rparr>) = owners_live S s"
  "owners_live S (s\<lparr>struct_addresses := g\<rparr>) = owners_live S s" "owners_live S (s\<lparr>memory_grants := h\<rparr>) = owners_live S s"
  "owners_live S (s\<lparr>randoms := i\<rparr>) = owners_live S s" "owners_live S (s\<lparr>clock := j\<rparr>) = owners_live S s"
  "owners_live S (s\<lparr>activeMatchSessions := k\<rparr>) = owners_live S s" "owners_live S (s\<lparr>activePlayerNodes := l\<rparr>) = owners_live S s"
  by (simp_all add: owners_live_def)

lemma owners_sessions:
  "owners_live S s \<Longrightarrow> S (participantPrimary m) \<noteq> None \<Longrightarrow> owners_live S (s\<lparr>sessions := (sessions s)(q \<mapsto> m)\<rparr>)"
  "owners_live S s \<Longrightarrow> owners_live S (s\<lparr>sessions := (sessions s)(q := None)\<rparr>)"
  "owners_live S s \<Longrightarrow> sessions s q = Some m \<Longrightarrow> S (participantPrimary m) \<noteq> None"
  by (auto simp: owners_live_def)

lemma tended_updates [simp]:
  "tended R S x (s\<lparr>channels := a\<rparr>) = tended R S x s" "tended R S x (s\<lparr>errno := b\<rparr>) = tended R S x s"
  "tended R S x (s\<lparr>sent := c\<rparr>) = tended R S x s" "tended R S x (s\<lparr>closed := d\<rparr>) = tended R S x s"
  "tended R S x (s\<lparr>struct_addresses := e\<rparr>) = tended R S x s" "tended R S x (s\<lparr>memory_grants := f\<rparr>) = tended R S x s"
  "tended R S x (s\<lparr>randoms := g\<rparr>) = tended R S x s" "tended R S x (s\<lparr>clock := h\<rparr>) = tended R S x s"
  "tended R S x (s\<lparr>activeMatchSessions := i\<rparr>) = tended R S x s"
  by (simp_all add: tended_def)

lemma keeps_tended_set_node [keeps_rules]:
  assumes "\<And>n. socketDescriptor (f n) = socketDescriptor n"
  shows "keeps (tended R S x) (set_node p f)"
proof (rule keeps_set_node)
  fix s n assume t: "tended R S x s" "nodes s p = Some n"
  then have "socket_of s p = Some (socketDescriptor n)" by (simp add: socket_of_def)
  then have "(socket_of s)(p \<mapsto> socketDescriptor (f n)) = socket_of s" using assms by (simp add: fun_upd_idem)
  then show "tended R S x (s\<lparr>nodes := (nodes s)(p \<mapsto> f n)\<rparr>)" using t(1) by (simp add: tended_def)
qed

lemma keeps_tended_set_session [keeps_rules]:
  "(\<And>m. participantPrimary (f m) = participantPrimary m) \<Longrightarrow> keeps (tended R S x) (set_session p f)"
  by (intro keeps_set_session) (auto simp: tended_def intro!: owners_sessions(1) dest: owners_sessions(3))

lemma keeps_tended_io [keeps_rules]:
  "keeps (tended R S x) (receive fd n)" "keeps (tended R S x) (send_bytes fd bs)"
  by (intro keeps_receive keeps_send; simp)+

lemma keeps_tended_destroy [keeps_rules]: "keeps (tended R S x) (destroyMatchSessionInstance slot)"
proof (rule keepsI)
  fix s assume s: "tended R S x s"
  let ?p = "bytes_ptr slot"
  consider "?p = NULL" | "?p \<noteq> NULL" "sessions s ?p = None" | m where "?p \<noteq> NULL" "sessions s ?p = Some m" by blast
  then show "after (tended R S x) (destroyMatchSessionInstance slot s)"
  proof cases
    case 3
    then show ?thesis using destroy_session_run [OF refl 3] s by (simp add: tended_def owners_sessions(2))
  qed (use s in \<open>simp_all add: destroyMatchSessionInstance_def deallocateGridMatrixBuffer_def set_session_def
      get_session_def cmd_defs Let_def\<close>)
qed

lemma keeps_tended_registry [keeps_rules]:
  "keeps (tended R S x) (fetch_session k)"
  "keeps (tended R S x) (with_grant (\<lambda>al. on_sessions (excise_at_offset al i (Some destroyMatchSessionInstance))))"
  "keeps (tended R S x) (register_session q y)"
  unfolding fetch_session_def register_session_def
  by (intro keeps_rules keeps_with_grant keeps_on_sessions; simp)+

lemma keeps_on_pool: "(\<And>s. P s \<Longrightarrow> after (\<lambda>i. P (s\<lparr>identifiers := i\<rparr>)) (m (identifiers s))) \<Longrightarrow> keeps P (on_pool m)"
  by (fastforce simp: keeps_def on_pool_def split: outcome.splits)

lemma keeps_tended_pool [keeps_rules]:
  "keeps (tended R S x) (on_pool acquireNewSessionIdentifier)"
  "keeps (tended R S x) (on_pool (relinquishSessionIdentifier y))"
  by (rule keeps_on_pool, simp add: tended_def acquireNewSessionIdentifier_def
      relinquishSessionIdentifier_def Let_def)+

lemma keeps_tended_locks [keeps_rules]:
  "keeps (tended R S x) (lock_stream p)" "keeps (tended R S x) (unlock_stream p)"
  unfolding lock_stream_def unlock_stream_def by (intro keeps_rules; simp)+

lemma keeps_tended_diagnostics [keeps_rules]:
  "keeps (tended R S x) dump_registry" "keeps (tended R S x) broadcast_session_state_update"
  "keeps (tended R S x) audit_sessions"
  unfolding dump_registry_def broadcast_session_state_update_def audit_sessions_def
  by (intro keeps_rules; simp)+

lemma keeps_tended_one_move [keeps_rules]: "keeps (tended R S x) (one_move ms p)"
  unfolding one_move_def apply_move_def by (intro keeps_rules; simp)

lemma keeps_tended_rematch [keeps_rules]: "keeps (tended R S x) (invoke_rematch ms)"
  unfolding invoke_rematch_def execute_rematch_polling_def fetch_draw_verdict_def
  by (intro keeps_rules; simp add: keeps_def)

lemma keeps_tended_play_rounds [keeps_rules]: "keeps (tended R S x) (play_rounds ms)"
  by (intro keeps_play_rounds) (unfold one_round_def start_round_def end_round_def, intro keeps_rules keeps_move_loop; simp)

lemma keeps_tended_match [keeps_rules]: "keeps (tended R S x) (execute_core_loop ms b)"
  unfolding execute_core_loop_def finish_match_def Let_def by (intro keeps_rules; simp)

lemma keeps_tended_names [keeps_rules]:
  "keeps (tended R S x) (discard_name fd)" "keeps (tended R S x) (read_owner_name fd)"
  "keeps (tended R S x) (replace_moniker p name)" "keeps (tended R S x) (read_joiner_name fd)"
  unfolding discard_name_def read_owner_name_def replace_moniker_def read_joiner_name_def receive_into_def Let_def
  by (intro keeps_rules; simp)+

lemma keeps_tended_create:
  assumes "S p \<noteq> None"
  shows "keeps (tended R S x) (create_session p fd)"
proof -
  have place: "keeps (tended R S x) (modify (\<lambda>s. s\<lparr>sessions := (sessions s)(q \<mapsto> fresh_session p y)\<rparr>))" for q y
    using assms by (intro keeps_modify) (auto simp: tended_def fresh_session_def intro!: owners_sessions(1))
  have grid: "keeps (tended R S x) allocate_grid"
    by (auto simp: keeps_def allocate_grid_def split: outcome.splits)
  show ?thesis unfolding create_session_def by (intro place grid keeps_rules) simp_all
qed

lemma keeps_tended_instantiation [keeps_rules]: "keeps (tended R S x) (process_instantiation_request p)"
proof (rule keepsI)
  fix s assume s: "tended R S x s"
  show "after (tended R S x) (process_instantiation_request p s)"
  proof (cases "p = NULL \<or> nodes s p = None")
    case True
    then show ?thesis by (auto simp: process_instantiation_request_def andThen_def get_node_def)
  next
    case False
    then obtain n where n: "get_node p s = Done n s" "S p \<noteq> None"
      using s by (auto simp: get_node_def tended_def socket_of_def)
    have "keeps (tended R S x) (if activeSessionId n \<noteq> -1 then andThen (discard_name (socketDescriptor n)) (\<lambda>_. ret (-3))
        else create_session p (socketDescriptor n))"
      using n(2) by (intro keeps_rules keeps_tended_create)
    from keepsD [OF this s] show ?thesis using n(1) by (simp add: process_instantiation_request_def andThen_def Let_def)
  qed
qed

lemma keeps_tended_joining [keeps_rules]:
  "keeps (tended R S x) (refuse_bound_player fd)" "keeps (tended R S x) (ask_owner q fd txt)"
  unfolding refuse_bound_player_def ask_owner_def by (intro keeps_rules)+

lemma keeps_tended_challenge [keeps_rules]: "keeps (tended R S x) (challenge_owner ms y p fd name)"
  unfolding challenge_owner_def Let_def by (intro keeps_rules) simp_all

lemma keeps_tended_activation [keeps_rules]: "keeps (tended R S x) (process_activation_request p)"
  unfolding process_activation_request_def Let_def by (intro keeps_rules)

lemma keeps_tended_queue [keeps_rules]: "keeps (tended R S x) (process_queue_fetch print_json fd)"
proof -
  have "keeps (tended R S x) (collect_items ks)" for ks
    by (induction ks) (auto simp: session_item_def intro!: keeps_rules)
  then show ?thesis unfolding process_queue_fetch_def by (intro keeps_rules; simp)
qed

lemma keeps_tended_deadline [keeps_rules]: "keeps (tended R S x) (check_deadline p lk)"
  unfolding check_deadline_def by (intro keeps_rules; simp)

end
