(* ===== verification/Match_End.thy ===== *)
theory Match_End
  imports Requests_Spec
begin

text \<open>
  From the last move to the end of the match: the rematch poll, the clean-up, and the whole of
  \<^verbatim>\<open>execute_core_loop\<close>, with the bounds on what a match can do.
\<close>

section \<open>The rematch\<close>

lemma match_sockets:
  assumes "match_at ms p1 p2 v1 v2 g s"
  shows "primary_socket ms s = Done v1 s" "secondary_socket ms s = Done v2 s"
  using assms
  by (auto simp: match_at_def primary_socket_def secondary_socket_def get_session_def get_node_def cmd_defs
      split: option.splits)

lemma match_send:
  assumes "match_at ms p1 p2 v1 v2 g s" "v = v1 \<or> v = v2"
  shows "send_bytes v bs s = Done () (s\<lparr>sent := sent s @ [(v, bs)]\<rparr>)"
  using assms by (auto simp: match_at_def send_bytes_def)

lemma match_at_updates [simp]:
  "match_at ms p1 p2 v1 v2 g (s\<lparr>sent := a\<rparr>) = match_at ms p1 p2 v1 v2 g s"
  "match_at ms p1 p2 v1 v2 g (s\<lparr>channels := b\<rparr>) = match_at ms p1 p2 v1 v2 g s"
  "match_at ms p1 p2 v1 v2 g (s\<lparr>errno := c\<rparr>) = match_at ms p1 p2 v1 v2 g s"
  "match_at ms p1 p2 v1 v2 g (s\<lparr>randoms := d\<rparr>) = match_at ms p1 p2 v1 v2 g s"
  by (simp_all add: match_at_def)

lemma set_session_at:
  "ms \<noteq> NULL \<Longrightarrow> sessions s ms = Some m \<Longrightarrow> set_session ms f s = Done () (s\<lparr>sessions := (sessions s)(ms \<mapsto> f m)\<rparr>)"
  by (simp add: set_session_def get_session_def andThen_def)

lemma match_at_session:
  assumes "match_at ms p1 p2 v1 v2 g s"
  obtains m where "ms \<noteq> NULL" "sessions s ms = Some m" "participantPrimary m = p1" "participantSecondary m = p2" "gridMatrix m = Some g"
  using assms by (auto simp: match_at_def split: option.splits)

lemma match_at_set:
  assumes "match_at ms p1 p2 v1 v2 g s" "participantPrimary m' = p1" "participantSecondary m' = p2"
    "gridMatrix m' = Some g'" "board_ok g'"
  shows "match_at ms p1 p2 v1 v2 g' (s\<lparr>sessions := (sessions s)(ms \<mapsto> m')\<rparr>)"
  using assms by (simp add: match_at_def)

text \<open>One answer, read by its own thread, which leaves the caller's \<^verbatim>\<open>errno\<close> alone.\<close>

lemma polling_run:
  assumes "inbox s fd = net16 a @ rest"
  shows "\<exists>es. execute_rematch_polling fd s = Done (uint a) (s\<lparr>channels := (channels s)(fd := es)\<rparr>) \<and> pending es = rest"
proof -
  have "inbox (s\<lparr>errno := 0\<rparr>) fd = net16 a @ rest" using assms by simp
  from receive_exact [OF this length_net(2)] obtain t es e where t: "receive fd 2 (s\<lparr>errno := 0\<rparr>) = Done (2, net16 a) t"
    "inbox t = (inbox (s\<lparr>errno := 0\<rparr>))(fd := rest)" "t = s\<lparr>errno := 0, channels := (channels s)(fd := es), errno := e\<rparr>" by auto
  have "pending es = rest" using fun_cong [OF t(2), of fd] t(3) by (simp add: inbox_def)
  then show ?thesis using t(1,3)
    by (intro exI [of _ es]) (simp add: execute_rematch_polling_def in_new_thread_def fetch_draw_verdict_def andThen_def)
qed

lemma polling_both:
  assumes "v1 \<noteq> v2" "inbox s v1 = net16 a @ r1" "inbox s v2 = net16 b @ r2"
  obtains es1 es2 where "execute_rematch_polling v1 s = Done (uint a) (s\<lparr>channels := (channels s)(v1 := es1)\<rparr>)"
    "execute_rematch_polling v2 (s\<lparr>channels := (channels s)(v1 := es1)\<rparr>) =
       Done (uint b) (s\<lparr>channels := (channels s)(v1 := es1, v2 := es2)\<rparr>)" "pending es1 = r1" "pending es2 = r2"
proof -
  obtain es1 where 1: "execute_rematch_polling v1 s = Done (uint a) (s\<lparr>channels := (channels s)(v1 := es1)\<rparr>)" "pending es1 = r1"
    using polling_run [OF assms(2)] by blast
  have "inbox (s\<lparr>channels := (channels s)(v1 := es1)\<rparr>) v2 = net16 b @ r2" using assms(1,3) by (simp add: inbox_def)
  from polling_run [OF this] 1 show thesis using that by auto
qed

lemma rematch_approved_run:
  assumes "match_at ms p1 p2 v1 v2 g s" "sessions s ms = Some m"
    and polls: "execute_rematch_polling v1 s = Done (opcode_value OP_APPROVE_REQ) u"
      "execute_rematch_polling v2 u = Done (opcode_value OP_APPROVE_REQ) (s\<lparr>channels := ch\<rparr>)"
  shows "invoke_rematch ms s = Done 1 (s\<lparr>channels := ch,
      sessions := (sessions s)(ms \<mapsto> m\<lparr>currentState := STATE_IN_PROGRESS, gridMatrix := Some blank_board\<rparr>),
      sent := sent s @ [(v1, net_code16 OP_APPROVE_REQ), (v2, net_code16 OP_APPROVE_REQ)]\<rparr>)"
proof -
  have m: "ms \<noteq> NULL" "participantPrimary m = p1" "participantSecondary m = p2" "gridMatrix m = Some g" "board_ok g" "v1 \<noteq> v2"
    using assms(1,2) by (auto simp: match_at_def)
  let ?s2 = "s\<lparr>channels := ch\<rparr>"
  let ?m1 = "m\<lparr>currentState := STATE_IN_PROGRESS\<rparr>"
  let ?s3 = "?s2\<lparr>sessions := (sessions s)(ms \<mapsto> ?m1)\<rparr>"
  let ?s4 = "?s2\<lparr>sessions := (sessions s)(ms \<mapsto> ?m1\<lparr>gridMatrix := Some blank_board\<rparr>)\<rparr>"
  let ?s5 = "?s4\<lparr>sent := sent s @ [(v1, net_code16 OP_APPROVE_REQ)]\<rparr>"
  let ?s6 = "?s4\<lparr>sent := sent s @ [(v1, net_code16 OP_APPROVE_REQ), (v2, net_code16 OP_APPROVE_REQ)]\<rparr>"
  have "match_at ms p1 p2 v1 v2 blank_board (?s2\<lparr>sessions := (sessions ?s2)(ms \<mapsto> ?m1\<lparr>gridMatrix := Some blank_board\<rparr>)\<rparr>)"
    using assms(1) m by (intro match_at_set [of _ _ _ _ _ g]) simp_all
  then have at: "match_at ms p1 p2 v1 v2 blank_board ?s4" by simp
  then have at5: "match_at ms p1 p2 v1 v2 blank_board ?s5" by simp
  have "set_session ms (\<lambda>m. m\<lparr>currentState := STATE_IN_PROGRESS\<rparr>) ?s2 = Done () ?s3"
    "get_session ms ?s3 = Done ?m1 ?s3" "set_session ms (\<lambda>m. m\<lparr>gridMatrix := Some blank_board\<rparr>) ?s3 = Done () ?s4"
    using m(1) assms(2) by (simp_all add: set_session_at get_session_live)
  moreover have "checked (wipe_topological_grid (gridMatrix ?m1)) ?s3 = Done (Some blank_board) ?s3"
    using m(4) wipe_spec [OF m(5)] by simp
  moreover have "send_bytes v1 (net_code16 OP_APPROVE_REQ) ?s4 = Done () ?s5"
    "send_bytes v2 (net_code16 OP_APPROVE_REQ) ?s5 = Done () ?s6"
    using match_send [OF at, of v1] match_send [OF at5, of v2] by simp_all
  ultimately have "invoke_rematch ms s = Done 1 ?s6"
    using match_sockets [OF assms(1)] match_sockets [OF at] match_sockets [OF at5] polls
    by (simp add: invoke_rematch_def andThen_def ret_def)
  then show ?thesis by simp
qed

text \<open>
  C19. Both players approve the rematch: both are told so, the board is blank again and the match goes
  on; exactly the two answers were read.
\<close>

theorem rematch_approved:
  assumes "match_at ms p1 p2 v1 v2 g s" "sessions s ms = Some m"
    and "inbox s v1 = net_code16 OP_APPROVE_REQ @ r1" "inbox s v2 = net_code16 OP_APPROVE_REQ @ r2"
  shows "\<exists>es1 es2. invoke_rematch ms s = Done 1 (s\<lparr>channels := (channels s)(v1 := es1, v2 := es2),
      sessions := (sessions s)(ms \<mapsto> m\<lparr>currentState := STATE_IN_PROGRESS, gridMatrix := Some blank_board\<rparr>),
      sent := sent s @ [(v1, net_code16 OP_APPROVE_REQ), (v2, net_code16 OP_APPROVE_REQ)]\<rparr>) \<and>
    pending es1 = r1 \<and> pending es2 = r2"
proof -
  have "v1 \<noteq> v2" "uint (word_of_int (opcode_value OP_APPROVE_REQ) :: u16) = opcode_value OP_APPROVE_REQ"
    using assms(1) by (simp_all add: match_at_def)
  then show ?thesis
    using polling_both [OF _ assms(3,4) [unfolded net_code16_def]] rematch_approved_run [OF assms(1,2)] by metis
qed

text \<open>
  Any other pair of answers ends the match: both players are told that the rematch is declined, and the
  session is concluded with its last board.
\<close>

lemma rematch_declined_run:
  assumes "match_at ms p1 p2 v1 v2 g s" "sessions s ms = Some m"
    and "inbox s v1 = net16 a @ r1" "inbox s v2 = net16 b @ r2"
    and "uint a \<noteq> opcode_value OP_APPROVE_REQ \<or> uint b \<noteq> opcode_value OP_APPROVE_REQ"
  shows "\<exists>es1 es2. invoke_rematch ms s = Done 0 (s\<lparr>channels := (channels s)(v1 := es1, v2 := es2),
      sessions := (sessions s)(ms \<mapsto> m\<lparr>currentState := STATE_CONCLUDED\<rparr>),
      sent := sent s @ [(v1, net_code16 OP_DECLINE_REQ), (v2, net_code16 OP_DECLINE_REQ)]\<rparr>) \<and>
    pending es1 = r1 \<and> pending es2 = r2"
proof -
  have m: "ms \<noteq> NULL" "participantPrimary m = p1" "participantSecondary m = p2" "gridMatrix m = Some g" "board_ok g" "v1 \<noteq> v2"
    using assms(1,2) by (auto simp: match_at_def)
  obtain es1 es2 where p: "execute_rematch_polling v1 s = Done (uint a) (s\<lparr>channels := (channels s)(v1 := es1)\<rparr>)"
    "execute_rematch_polling v2 (s\<lparr>channels := (channels s)(v1 := es1)\<rparr>) =
       Done (uint b) (s\<lparr>channels := (channels s)(v1 := es1, v2 := es2)\<rparr>)" "pending es1 = r1" "pending es2 = r2"
    using m(6) assms(3,4) by (rule polling_both)
  let ?s2 = "s\<lparr>channels := (channels s)(v1 := es1, v2 := es2)\<rparr>"
  let ?s3 = "?s2\<lparr>sent := sent s @ [(v1, net_code16 OP_DECLINE_REQ)]\<rparr>"
  let ?s4 = "?s2\<lparr>sent := sent s @ [(v1, net_code16 OP_DECLINE_REQ), (v2, net_code16 OP_DECLINE_REQ)]\<rparr>"
  let ?t = "?s4\<lparr>sessions := (sessions s)(ms \<mapsto> m\<lparr>currentState := STATE_CONCLUDED\<rparr>)\<rparr>"
  have at: "match_at ms p1 p2 v1 v2 g ?s2" "match_at ms p1 p2 v1 v2 g ?s3" "match_at ms p1 p2 v1 v2 g ?s4" using assms(1) by simp_all
  have "match_at ms p1 p2 v1 v2 g (?s4\<lparr>sessions := (sessions ?s4)(ms \<mapsto> m\<lparr>currentState := STATE_CONCLUDED\<rparr>)\<rparr>)"
    using at(3) m by (intro match_at_set) simp_all
  then have "match_at ms p1 p2 v1 v2 g ?t" by simp
  then have "dumpMatchSessionDiagnostics ms ?t = Done () ?t" by (rule dump_session_ok)
  moreover have "set_session ms (\<lambda>m. m\<lparr>currentState := STATE_CONCLUDED\<rparr>) ?s4 = Done () ?t"
    using m(1) assms(2) by (simp add: set_session_at)
  moreover have "send_bytes v1 (net_code16 OP_DECLINE_REQ) ?s2 = Done () ?s3"
    "send_bytes v2 (net_code16 OP_DECLINE_REQ) ?s3 = Done () ?s4"
    using match_send [OF at(1), of v1] match_send [OF at(2), of v2] by simp_all
  ultimately have "invoke_rematch ms s = Done 0 ?t"
    using match_sockets [OF assms(1)] match_sockets [OF at(1)] match_sockets [OF at(2)] p(1,2) assms(5)
    by (simp add: invoke_rematch_def andThen_def ret_def)
  moreover have "?t = s\<lparr>channels := (channels s)(v1 := es1, v2 := es2),
      sessions := (sessions s)(ms \<mapsto> m\<lparr>currentState := STATE_CONCLUDED\<rparr>),
      sent := sent s @ [(v1, net_code16 OP_DECLINE_REQ), (v2, net_code16 OP_DECLINE_REQ)]\<rparr>" by simp
  ultimately show ?thesis using p(3,4) by (intro exI [of _ es1] exI [of _ es2]) simp
qed

section \<open>The clean-up\<close>

lemma readable_after_removal:
  assumes "table_readable s" "t = s\<lparr>sessions := (sessions s)(p := None), activeMatchSessions := st, memory_grants := gs, identifiers := ids\<rparr>"
  shows "table_readable t"
  using assms by (simp add: table_readable_def readable_def)

definition freed :: "player_node \<Rightarrow> player_node" where
  "freed n = n\<lparr>activeSessionId := -1, streamLock := Unlocked\<rparr>"

lemma finish_match_run:
  assumes core: "table_core s" and readable: "table_readable s" and memory: "memory_grants s = []"
    and m: "sessions s ms = Some m" "participantPrimary m = p1" "participantSecondary m = p2"
    and nodes: "p1 \<noteq> NULL" "p2 \<noteq> NULL" "p1 \<noteq> p2" "nodes s p1 = Some n1" "nodes s p2 = Some n2"
    and locks: "streamLock n1 = Locked" "streamLock n2 = Locked"
  shows "\<exists>st ids. finish_match ms s = Done () (s\<lparr>nodes := (nodes s)(p1 \<mapsto> freed n1, p2 \<mapsto> freed n2),
      sessions := (sessions s)(ms := None), activeMatchSessions := st, identifiers := ids\<rparr>) \<and>
    entry st = (registered s)(unat (sessionId m) := NULL) \<and>
    relinquishSessionIdentifier (uint (sessionId m)) (identifiers s) = Done () ids"
proof -
  let ?n1 = "n1\<lparr>activeSessionId := -1\<rparr>" and ?n2 = "n2\<lparr>activeSessionId := -1\<rparr>"
  define u where "u = s\<lparr>nodes := (nodes s)(p1 \<mapsto> ?n1, p2 \<mapsto> ?n2)\<rparr>"
  have ms: "ms \<noteq> NULL" using table_core_live [OF core m(1)] by simp
  have u: "table_core u" "table_readable u" "sessions u ms = Some m"
    using core readable m(1) by (auto simp: u_def table_readable_def readable_def)
  obtain v t where r: "with_grant (\<lambda>al. on_sessions (excise_at_offset al (word_of_int (uint (sessionId m))) (Some destroyMatchSessionInstance))) u = Done 0 v"
    "on_pool (relinquishSessionIdentifier (uint (sessionId m))) v = Done () t" "retired u ms (sessionId m) t"
    using retire_runs(1) [OF u(1,3) unat_word_of_id] by blast
  obtain st ids where t: "t = u\<lparr>sessions := (sessions u)(ms := None), activeMatchSessions := st, memory_grants := [], identifiers := ids\<rparr>"
    "entry st = (registered u)(unat (sessionId m) := NULL)" "relinquishSessionIdentifier (uint (sessionId m)) (identifiers u) = Done () ids"
    using r(3) memory by (auto simp: retired_def u_def)
  have tc: "table_core t" "table_readable t" "memory_grants t = []"
    using retired_table [OF u(1,3) r(3)] readable_after_removal [OF u(2) t(1)] t(1) by simp_all
  let ?t1 = "t\<lparr>nodes := (nodes s)(p1 \<mapsto> freed n1, p2 \<mapsto> ?n2)\<rparr>" and ?t2 = "t\<lparr>nodes := (nodes s)(p1 \<mapsto> freed n1, p2 \<mapsto> freed n2)\<rparr>"
  have "set_node p1 (\<lambda>n. n\<lparr>activeSessionId := -1\<rparr>) s = Done () (s\<lparr>nodes := (nodes s)(p1 \<mapsto> ?n1)\<rparr>)"
    "set_node p2 (\<lambda>n. n\<lparr>activeSessionId := -1\<rparr>) (s\<lparr>nodes := (nodes s)(p1 \<mapsto> ?n1)\<rparr>) = Done () u"
    using nodes by (simp_all add: set_node_def get_node_def andThen_def u_def)
  moreover have "get_session ms s = Done m s" "get_session ms u = Done m u"
    using ms m(1) u(3) by (simp_all add: get_session_live)
  moreover have "dump_registry u = Done () u" "dump_registry t = Done () t" "broadcast_session_state_update t = Done () t"
    using u tc by (simp_all add: dump_registry_skip broadcast_skip table_registry_readable)
  moreover have "unlock_stream p1 t = Done () ?t1" "unlock_stream p2 ?t1 = Done () ?t2"
    using nodes locks t(1) by (simp_all add: unlock_stream_def set_node_def get_node_def andThen_def u_def freed_def fun_upd_twist)
  ultimately have "finish_match ms s = Done () ?t2"
    using m r(1,2) by (simp add: finish_match_def andThen_def Let_def)
  moreover have "?t2 = s\<lparr>nodes := (nodes s)(p1 \<mapsto> freed n1, p2 \<mapsto> freed n2),
      sessions := (sessions s)(ms := None), activeMatchSessions := st, identifiers := ids\<rparr>"
    using t(1) memory by (simp add: u_def)
  ultimately show ?thesis using t(2,3) by (intro exI [of _ st] exI [of _ ids]) (simp add: u_def)
qed

section \<open>A whole match\<close>

lemma smod_2: "r smod 2 \<noteq> 0 \<longleftrightarrow> odd (r :: int)"
  by (auto simp: signed_modulo_int_def even_iff_mod_2_eq_zero [symmetric] sgn_if)

lemma start_round_run:
  assumes "match_at ms p1 p2 v1 v2 g s" "sessions s ms = Some m" "randoms s = r # rs"
  defines "mover \<equiv> (if odd r then v2 else v1)"
  shows "start_round ms s = Done (node_of p1 p2 v1 mover) (s\<lparr>randoms := rs,
      sessions := (sessions s)(ms \<mapsto> m\<lparr>activeTurnIdx := mover, currentState := STATE_IN_PROGRESS\<rparr>),
      sent := sent s @ [(v1, net32 mover), (v2, net32 mover)]\<rparr>)"
proof -
  have m: "ms \<noteq> NULL" "participantPrimary m = p1" "participantSecondary m = p2" "gridMatrix m = Some g" "board_ok g" "v1 \<noteq> v2"
    "v1 \<notin> set (reset_peers s)" "v2 \<notin> set (reset_peers s)"
    using assms(1,2) by (auto simp: match_at_def)
  then show ?thesis using assms(2,3) match_sockets [OF assms(1)]
    by (auto simp: smod_2 start_round_def andThen_def draw_random_def set_session_at get_session_live send_bytes_def ret_def mover_def)
qed

lemma end_round_declined:
  assumes at: "match_at ms p1 p2 v1 v2 g s" and m: "sessions s ms = Some m" and n: "0 < n"
    and answers: "inbox s v1 = net16 a @ r1" "inbox s v2 = net16 b @ r2"
      "uint a \<noteq> opcode_value OP_APPROVE_REQ \<or> uint b \<noteq> opcode_value OP_APPROVE_REQ"
  shows "\<exists>es1 es2 turn. end_round ms n s = Done 0 (s\<lparr>channels := (channels s)(v1 := es1, v2 := es2),
      sessions := (sessions s)(ms \<mapsto> m\<lparr>activeTurnIdx := turn, currentState := STATE_CONCLUDED\<rparr>),
      sent := sent s @ [(v1, net_code16 OP_DECLINE_REQ), (v2, net_code16 OP_DECLINE_REQ)]\<rparr>) \<and>
    pending es1 = r1 \<and> pending es2 = r2"
proof -
  define turn :: u32 where "turn = word_of_int (dispatch_turn_marker (sint v1) (sint v2) (sint (activeTurnIdx m)))"
  let ?m = "m\<lparr>activeTurnIdx := turn, currentState := STATE_CONCLUDED\<rparr>"
  let ?u = "s\<lparr>sessions := (sessions s)(ms \<mapsto> ?m)\<rparr>"
  have f: "ms \<noteq> NULL" "participantPrimary m = p1" "participantSecondary m = p2" "gridMatrix m = Some g" "board_ok g"
    using at m by (auto simp: match_at_def)
  have u: "match_at ms p1 p2 v1 v2 g ?u" using at f by (intro match_at_set) simp_all
  have "sessions ?u ms = Some ?m" "inbox ?u v1 = net16 a @ r1" "inbox ?u v2 = net16 b @ r2" using answers by simp_all
  from rematch_declined_run [OF u this answers(3)] obtain es1 es2 where r: "invoke_rematch ms ?u = Done 0 (?u\<lparr>channels := (channels ?u)(v1 := es1, v2 := es2),
      sessions := (sessions ?u)(ms \<mapsto> ?m\<lparr>currentState := STATE_CONCLUDED\<rparr>),
      sent := sent ?u @ [(v1, net_code16 OP_DECLINE_REQ), (v2, net_code16 OP_DECLINE_REQ)]\<rparr>)"
    "pending es1 = r1" "pending es2 = r2" by blast
  have "end_round ms n s = invoke_rematch ms ?u"
    using match_sockets [OF at] dump_session_ok [OF u] f(1) m n
    by (simp add: end_round_def andThen_def set_session_at turn_def)
  then show ?thesis using r by (intro exI [of _ es1] exI [of _ es2] exI [of _ turn]) simp
qed

lemma lock_both:
  assumes "match_at ms p1 p2 v1 v2 g s" "p1 \<noteq> p2" "nodes s p1 = Some n1" "nodes s p2 = Some n2"
    and "streamLock n1 = Unlocked" "streamLock n2 = Unlocked"
  shows "andThen (get_session ms) (\<lambda>m. andThen (lock_stream (participantPrimary m)) (\<lambda>_.
      andThen (get_session ms) (\<lambda>m. lock_stream (participantSecondary m)))) s =
    Done () (s\<lparr>nodes := (nodes s)(p1 \<mapsto> n1\<lparr>streamLock := Locked\<rparr>, p2 \<mapsto> n2\<lparr>streamLock := Locked\<rparr>)\<rparr>)"
  using assms
  by (auto simp: match_at_def lock_stream_def set_node_def get_node_def get_session_def andThen_def split: option.splits)

text \<open>
  One match from start to end. The two players of a registered session, in a consistent table, play
  moves that bring the game to an outcome and do not both ask for a rematch: the match returns, and
  then both were told who begins, every move was relayed and every status reported as the game has them, both
  were told that there is no rematch; the session is gone from registry and heap, its identifier is
  back with the pool, both players are free and unlocked, and nothing else has changed.
\<close>

lemma match_run:
  assumes table: "table_core s" "table_readable s" "memory_grants s = []"
    and at: "match_at ms p1 p2 v1 v2 g s" "sessions s ms = Some m"
    and players: "p1 \<noteq> p2" "nodes s p1 = Some n1" "nodes s p2 = Some n2" "streamLock n1 = Unlocked" "streamLock n2 = Unlocked"
    and draw: "randoms s = r # rs" "mover = (if odd r then v2 else v1)"
    and moves: "feeds v1 v2 mover ks (inbox s)" "\<forall>k\<in>set ks. - (2 ^ 31) \<le> k \<and> k < 2 ^ 31"
    and outcome: "game v1 v2 mover g ks = Inr (status, g', nxt)" "status \<noteq> -2"
    and answers: "leftover v1 v2 mover g ks (inbox s) v1 = net16 a @ r1" "leftover v1 v2 mover g ks (inbox s) v2 = net16 b @ r2"
      "uint a \<noteq> opcode_value OP_APPROVE_REQ \<or> uint b \<noteq> opcode_value OP_APPROVE_REQ"
  shows "\<exists>ch e st ids. execute_core_loop ms True s = Done () (s\<lparr>randoms := rs, channels := ch, errno := e,
      sent := sent s @ [(v1, net32 mover), (v2, net32 mover)] @ transcript v1 v2 mover g ks @
        [(v1, net_code16 OP_DECLINE_REQ), (v2, net_code16 OP_DECLINE_REQ)],
      nodes := (nodes s)(p1 \<mapsto> freed n1, p2 \<mapsto> freed n2), sessions := (sessions s)(ms := None),
      activeMatchSessions := st, identifiers := ids\<rparr>) \<and>
    pending (ch v1) = r1 \<and> pending (ch v2) = r2 \<and>
    entry st = (registered s)(unat (sessionId m) := NULL) \<and>
    relinquishSessionIdentifier (uint (sessionId m)) (identifiers s) = Done () ids"
proof -
  let ?locked = "(nodes s)(p1 \<mapsto> n1\<lparr>streamLock := Locked\<rparr>, p2 \<mapsto> n2\<lparr>streamLock := Locked\<rparr>)"
  define s1 where "s1 = s\<lparr>nodes := ?locked\<rparr>"
  have at1: "match_at ms p1 p2 v1 v2 g s1" using at(1) players(1-3) by (auto simp: match_at_def s1_def split: option.splits)
  have m: "ms \<noteq> NULL" "participantPrimary m = p1" "participantSecondary m = p2" "gridMatrix m = Some g" "board_ok g"
    "v1 \<noteq> v2" "p1 \<noteq> NULL" "p2 \<noteq> NULL" using at by (auto simp: match_at_def)
  let ?m2 = "m\<lparr>activeTurnIdx := mover, currentState := STATE_IN_PROGRESS\<rparr>"
  define s2 where "s2 = s1\<lparr>randoms := rs, sessions := (sessions s)(ms \<mapsto> ?m2), sent := sent s @ [(v1, net32 mover), (v2, net32 mover)]\<rparr>"
  have start: "start_round ms s1 = Done (node_of p1 p2 v1 mover) s2"
    using start_round_run [OF at1, of m r rs] at(2) draw by (simp add: s1_def s2_def)
  have "match_at ms p1 p2 v1 v2 g (s1\<lparr>randoms := rs, sessions := (sessions s1)(ms \<mapsto> ?m2)\<rparr>)"
    using match_at_set [of ms p1 p2 v1 v2 g "s1\<lparr>randoms := rs\<rparr>" ?m2 g] at1 m by simp
  then have at2: "match_at ms p1 p2 v1 v2 g s2" by (simp add: s2_def s1_def)
  have box2: "inbox s2 = inbox s" by (simp add: s2_def s1_def inbox_def fun_eq_iff)
  have "mover = v1 \<or> mover = v2" using draw(2) by simp
  from move_loop_game [OF at2 this _ moves(2) outcome] moves(1) box2 obtain s3 where
    loop: "move_loop ms (node_of p1 p2 v1 mover) s2 = Done (4, status, node_of p1 p2 v1 nxt) s3"
    and at3: "match_at ms p1 p2 v1 v2 g' s3" "match_frame ms s2 s3"
    and out3: "sent s3 = sent s2 @ transcript v1 v2 mover g ks" "inbox s3 = leftover v1 v2 mover g ks (inbox s)" by auto
  obtain ch e out gr turn where s3: "s3 = s2\<lparr>channels := ch, errno := e, sent := out,
      sessions := (sessions s2)(ms \<mapsto> ?m2\<lparr>gridMatrix := gr, activeTurnIdx := turn\<rparr>)\<rparr>"
    using at3(2) by (auto simp: match_frame_def s2_def)
  have "sessions s3 ms = Some (?m2\<lparr>gridMatrix := gr, activeTurnIdx := turn\<rparr>)" using s3 by simp
  from end_round_declined [OF at3(1) this, of 4 a r1 b r2] answers out3(2) obtain es1 es2 turn' where
    fin: "end_round ms 4 s3 = Done 0 (s3\<lparr>channels := (channels s3)(v1 := es1, v2 := es2),
      sessions := (sessions s3)(ms \<mapsto> ?m2\<lparr>gridMatrix := gr, activeTurnIdx := turn\<rparr>\<lparr>activeTurnIdx := turn', currentState := STATE_CONCLUDED\<rparr>),
      sent := sent s3 @ [(v1, net_code16 OP_DECLINE_REQ), (v2, net_code16 OP_DECLINE_REQ)]\<rparr>)"
    "pending es1 = r1" "pending es2 = r2" by auto
  let ?out = "sent s @ [(v1, net32 mover), (v2, net32 mover)] @ transcript v1 v2 mover g ks @
        [(v1, net_code16 OP_DECLINE_REQ), (v2, net_code16 OP_DECLINE_REQ)]"
  let ?m5 = "m\<lparr>gridMatrix := gr, activeTurnIdx := turn', currentState := STATE_CONCLUDED\<rparr>"
  define s5 where "s5 = s\<lparr>nodes := ?locked, randoms := rs, channels := ch(v1 := es1, v2 := es2), errno := e, sent := ?out,
      sessions := (sessions s)(ms \<mapsto> ?m5)\<rparr>"
  have "end_round ms 4 s3 = Done 0 s5" using fin(1) out3(1) s3 by (simp add: s5_def s2_def s1_def)
  with start loop have "one_round ms s1 = Done 0 s5" by (simp add: one_round_def andThen_def)
  then have rounds: "play_rounds ms s1 = Done () s5" by (subst play_rounds.simps) simp
  have t1: "table_core (s\<lparr>sessions := (sessions s)(ms \<mapsto> ?m5)\<rparr>)"
    using table(1) at(2) by (rule table_core_session_update) simp
  have "s5 = (s\<lparr>sessions := (sessions s)(ms \<mapsto> ?m5)\<rparr>)\<lparr>nodes := ?locked, randoms := rs, channels := ch(v1 := es1, v2 := es2),
      errno := e, sent := ?out\<rparr>" by (simp add: s5_def)
  with t1 have core5: "table_core s5" by simp
  have "board_ok g'" "gr = Some g'" using at3(1) s3 by (simp_all add: match_at_def)
  then have "readable s5 ?m5" using m players(2,3) by (simp add: readable_def s5_def)
  moreover have "readable s5 n" if "readable s n" for n using that by (auto simp: readable_def s5_def)
  ultimately have "readable s5 n" if "sessions s5 q = Some n" for q n
    using that table(2) by (cases "q = ms") (simp_all add: s5_def table_readable_def)
  then have read5: "table_readable s5" by (simp add: table_readable_def)
  have m5: "memory_grants s5 = []" "sessions s5 ms = Some ?m5" "participantPrimary ?m5 = p1" "participantSecondary ?m5 = p2"
    using table(3) m(2,3) by (simp_all add: s5_def)
  have n5: "nodes s5 p1 = Some (n1\<lparr>streamLock := Locked\<rparr>)" "nodes s5 p2 = Some (n2\<lparr>streamLock := Locked\<rparr>)"
    using players(1) by (simp_all add: s5_def)
  obtain st ids where f: "finish_match ms s5 = Done () (s5\<lparr>nodes := (nodes s5)(p1 \<mapsto> freed (n1\<lparr>streamLock := Locked\<rparr>), p2 \<mapsto> freed (n2\<lparr>streamLock := Locked\<rparr>)),
      sessions := (sessions s5)(ms := None), activeMatchSessions := st, identifiers := ids\<rparr>)"
    "entry st = (registered s5)(unat (sessionId ?m5) := NULL)"
    "relinquishSessionIdentifier (uint (sessionId ?m5)) (identifiers s5) = Done () ids"
    using finish_match_run [OF core5 read5 m5 m(7,8) players(1) n5] by auto
  let ?t = "s\<lparr>randoms := rs, channels := ch(v1 := es1, v2 := es2), errno := e, sent := ?out,
      nodes := (nodes s)(p1 \<mapsto> freed n1, p2 \<mapsto> freed n2), sessions := (sessions s)(ms := None),
      activeMatchSessions := st, identifiers := ids\<rparr>"
  have "(nodes s5)(p1 \<mapsto> freed (n1\<lparr>streamLock := Locked\<rparr>), p2 \<mapsto> freed (n2\<lparr>streamLock := Locked\<rparr>)) =
      (nodes s)(p1 \<mapsto> freed n1, p2 \<mapsto> freed n2)"
    using players(1) by (auto simp: s5_def freed_def)
  then have "finish_match ms s5 = Done () ?t" using f(1) by (simp add: s5_def)
  moreover have "andThen (get_session ms) (\<lambda>m. andThen (lock_stream (participantPrimary m)) (\<lambda>_.
      andThen (get_session ms) (\<lambda>m. lock_stream (participantSecondary m)))) s = Done () s1"
    unfolding s1_def using at(1) players by (rule lock_both)
  ultimately have "execute_core_loop ms True s = Done () ?t"
    using rounds by (simp add: execute_core_loop_def andThen_def [of _ "\<lambda>_. andThen (play_rounds ms) (\<lambda>_. finish_match ms)"]
        andThen_def [of "play_rounds ms"])
  then show ?thesis using f(2,3) fin(2,3) m(6)
    by (intro exI [of _ "ch(v1 := es1, v2 := es2)"] exI [of _ e] exI [of _ st] exI [of _ ids]) (simp add: s5_def)
qed

section \<open>A match ends\<close>

text \<open>The two loops cut off after a number of rounds; \<open>None\<close> if they are not over by then.\<close>

fun moves_within :: "nat \<Rightarrow> u64 \<Rightarrow> u64 \<Rightarrow> server \<Rightarrow> (int \<times> int \<times> u64, server) outcome option" where
  "moves_within 0 ms p s = None"
| "moves_within (Suc k) ms p s =
     (case one_move ms p s of
        Done (bytes, status, p') t \<Rightarrow>
          if \<not> bytes \<le> 0 \<and> status = -2 then moves_within k ms p' t else Some (Done (bytes, status, p') t)
      | Exited t \<Rightarrow> Some (Exited t) | Halted t \<Rightarrow> Some (Halted t) | Fault f \<Rightarrow> Some (Fault f))"

fun rounds_within :: "nat \<Rightarrow> u64 \<Rightarrow> server \<Rightarrow> (unit, server) outcome option" where
  "rounds_within 0 ms s = None"
| "rounds_within (Suc k) ms s =
     (case one_round ms s of
        Done rematch t \<Rightarrow> if rematch = 1 then rounds_within k ms t else Some (Done () t)
      | Exited t \<Rightarrow> Some (Exited t) | Halted t \<Rightarrow> Some (Halted t) | Fault f \<Rightarrow> Some (Fault f))"

lemma moves_within_enough: "inbox_weight s < k \<Longrightarrow> moves_within k ms p s = Some (move_loop ms p s)"
proof (induction k ms p s rule: moves_within.induct)
  case (2 k ms p s)
  show ?case
  proof (cases "one_move ms p s")
    case (Done r t)
    obtain b st q where r: "r = (b, st, q)" by (cases r)
    have "\<not> b \<le> 0 \<Longrightarrow> inbox_weight t < k" using one_move_weight [of ms p s b st q t] Done r 2(2) by simp
    then show ?thesis using 2(1) [OF Done r [symmetric] refl] Done r by (subst move_loop.simps) auto
  qed (simp_all add: move_loop.simps)
qed simp

lemma rounds_within_enough: "inbox_weight s < k \<Longrightarrow> rounds_within k ms s = Some (play_rounds ms s)"
proof (induction k ms s rule: rounds_within.induct)
  case (2 k ms s)
  show ?case
  proof (cases "one_round ms s")
    case (Done r t)
    have "r = 1 \<Longrightarrow> inbox_weight t < k" using one_round_weight [of ms s t] Done 2(2) by simp
    then show ?thesis using 2(1) [OF Done] Done by (subst play_rounds.simps) auto
  qed (simp_all add: play_rounds.simps)
qed simp

text \<open>
  C10. A match ends, whatever is played and however often a rematch is agreed: with what the sockets will
  still deliver counted as a number, no more moves than that are made in a round and no more rounds than
  that are played, so both loops are over within one pass more.
\<close>

theorem match_bounded:
  "moves_within (Suc (inbox_weight s)) ms p s = Some (move_loop ms p s) \<and>
   rounds_within (Suc (inbox_weight s)) ms s = Some (play_rounds ms s)"
  by (simp_all only: moves_within_enough rounds_within_enough lessI)

section \<open>An answer that never came\<close>

lemma closed_poll:
  assumes "channels s fd = Closed # es" "[stack_junk s 0, stack_junk s 1] = net_code16 OP_APPROVE_REQ"
  shows "execute_rematch_polling fd s = Done (opcode_value OP_APPROVE_REQ) s"
proof -
  have "(channels s)(fd := Closed # es) = channels s" using assms(1) by auto
  then have "receive fd 2 (s\<lparr>errno := 0\<rparr>) = Done (0, []) (s\<lparr>errno := 0\<rparr>)"
    using assms(1) by (simp add: receive_def consume_step)
  moreover have "filled 2 [] s = [stack_junk s 0, stack_junk s 1]" for s
    by (simp add: filled_def upt_rec)
  moreover have "uint (host16 [stack_junk s 0, stack_junk s 1]) = opcode_value OP_APPROVE_REQ"
    unfolding assms(2) by (simp add: net_code16_def)
  moreover have "EWOULDBLOCK \<noteq> 0" "EAGAIN \<noteq> 0" by (simp_all add: EWOULDBLOCK_def EAGAIN_def)
  ultimately show ?thesis
    by (simp add: execute_rematch_polling_def in_new_thread_def fetch_draw_verdict_def andThen_def)
qed

text \<open>
  C30. A player who hangs up instead of answering the rematch question answers with what happens to be in
  the uninitialised variable: when those two bytes read as the approval, the server takes two closed
  sockets for two players who want to go on, and starts over.
\<close>

theorem ghosts_rematch:
  assumes "match_at ms p1 p2 v1 v2 g s" "sessions s ms = Some m"
    and "channels s v1 = Closed # es1" "channels s v2 = Closed # es2"
    and "[stack_junk s 0, stack_junk s 1] = net_code16 OP_APPROVE_REQ"
  shows "\<exists>t. invoke_rematch ms s = Done 1 t \<and> match_at ms p1 p2 v1 v2 blank_board t"
proof -
  have "s\<lparr>channels := channels s\<rparr> = s" by simp
  then have "execute_rematch_polling v2 s = Done (opcode_value OP_APPROVE_REQ) (s\<lparr>channels := channels s\<rparr>)"
    using closed_poll [OF assms(4,5)] by simp
  from rematch_approved_run [OF assms(1,2) closed_poll [OF assms(3,5)] this]
  have "invoke_rematch ms s = Done 1 (s\<lparr>channels := channels s,
      sessions := (sessions s)(ms \<mapsto> m\<lparr>currentState := STATE_IN_PROGRESS, gridMatrix := Some blank_board\<rparr>),
      sent := sent s @ [(v1, net_code16 OP_APPROVE_REQ), (v2, net_code16 OP_APPROVE_REQ)]\<rparr>)" .
  moreover have "match_at ms p1 p2 v1 v2 blank_board (s\<lparr>sessions := (sessions s)(ms \<mapsto> m\<lparr>currentState := STATE_IN_PROGRESS, gridMatrix := Some blank_board\<rparr>)\<rparr>)"
    using assms(1,2) by (simp add: match_at_def)
  ultimately show ?thesis by simp
qed

end
