(* ===== verification/Joining.thy ===== *)
theory Joining
  imports Requests_Spec Match_End
begin

text \<open>
  A join request that the owner approves, from the request to the end of the match it leads to. The
  handler of the request binds both players and plays the match in the joiner's thread; the
  description of the match is that of \<open>Match_End\<close>, applied to the state the binding leaves.
\<close>

section \<open>The approval\<close>

text \<open>The session once the joiner is in it.\<close>

definition joined :: "u64 \<Rightarrow> match_session \<Rightarrow> match_session" where
  "joined p m = m\<lparr>participantSecondary := p, currentState := STATE_IN_PROGRESS\<rparr>"

definition bound :: "int \<Rightarrow> player_node \<Rightarrow> player_node" where
  "bound x n = n\<lparr>activeSessionId := x\<rparr>"

lemma joined_sel [simp]:
  "participantPrimary (joined p m) = participantPrimary m" "participantSecondary (joined p m) = p"
  "gridMatrix (joined p m) = gridMatrix m" "sessionId (joined p m) = sessionId m"
  by (simp_all add: joined_def)

lemma bound_sel [simp]:
  "socketDescriptor (bound x n) = socketDescriptor n" "streamLock (bound x n) = streamLock n"
  by (simp_all add: bound_def)

text \<open>With its approval the owner is asked no more, and the match begins with both players bound.\<close>

lemma challenge_approved:
  assumes table: "table_core u" "table_readable u" "memory_grants u = []"
    and session: "ms \<noteq> NULL" "sessions u ms = Some m" "participantPrimary m = a"
    and owner: "a \<noteq> NULL" "nodes u a = Some na" "streamLock na = Unlocked" "socketDescriptor na = g"
    and joiner: "p \<noteq> NULL" "p \<noteq> a" "nodes u p = Some n"
    and answer: "g \<notin> set (reset_peers u)" "fd \<notin> set (reset_peers u)" "inbox u g = net_opcode OP_APPROVE_REQ @ rest"
  shows "\<exists>es e w. challenge_owner ms x p fd name u = andThen (execute_core_loop ms True) (\<lambda>_. ret 0) w \<and>
    w = u\<lparr>channels := (channels u)(g := es), errno := e,
        sent := sent u @ [(g, challenge_text name), (fd, net_opcode OP_APPROVE_REQ)],
        sessions := (sessions u)(ms \<mapsto> joined p m),
        nodes := (nodes u)(p \<mapsto> bound x n, a \<mapsto> (bound x na)\<lparr>timeoutTicks := 1\<rparr>)\<rparr> \<and>
    pending es = rest \<and> table_core w \<and> table_readable w"
proof -
  let ?v = "word_of_int (opcode_value OP_APPROVE_REQ) :: u32"
  have v: "net32 ?v = net_opcode OP_APPROVE_REQ" "sint ?v = opcode_value OP_APPROVE_REQ" by (simp_all add: net_opcode_def)
  obtain es e where asked: "ask_owner a g (Some (challenge_text name)) u =
      Done ?v (u\<lparr>channels := (channels u)(g := es), errno := e, sent := sent u @ [(g, challenge_text name)]\<rparr>)" "pending es = rest"
    using ask_owner_run [OF owner(1-4) answer(1)] answer(3) v(1) by metis
  define b where "b = u\<lparr>channels := (channels u)(g := es), errno := e,
      sent := sent u @ [(g, challenge_text name), (fd, net_opcode OP_APPROVE_REQ)], sessions := (sessions u)(ms \<mapsto> joined p m)\<rparr>"
  define w where "w = b\<lparr>nodes := (nodes u)(p \<mapsto> bound x n, a \<mapsto> (bound x na)\<lparr>timeoutTicks := 1\<rparr>)\<rparr>"
  have "table_core (u\<lparr>sessions := (sessions u)(ms \<mapsto> joined p m)\<rparr>)"
    using table(1) session(2) by (rule table_core_session_update) simp
  moreover have "w = (u\<lparr>sessions := (sessions u)(ms \<mapsto> joined p m)\<rparr>)\<lparr>channels := (channels u)(g := es), errno := e,
      sent := sent u @ [(g, challenge_text name), (fd, net_opcode OP_APPROVE_REQ)],
      nodes := (nodes u)(p \<mapsto> bound x n, a \<mapsto> (bound x na)\<lparr>timeoutTicks := 1\<rparr>)\<rparr>" by (simp add: w_def b_def)
  ultimately have core: "table_core w" by simp
  have "readable u m" using table(2) session(2) by (simp add: table_readable_def)
  then have "readable b (joined p m)" "readable w (joined p m)"
    using joiner owner(1,2) session(3) by (simp_all add: readable_def w_def b_def)
  moreover have "readable w k" if "readable u k" for k using that by (auto simp: readable_def w_def b_def)
  ultimately have read: "table_readable w" "readable b (joined p m)"
    using table(2) by (auto simp: table_readable_def) (auto simp: w_def b_def split: if_splits)
  have "dumpMatchSessionDiagnostics ms b = Done () b"
    using session(1) read(2) by (intro dump_readable) (simp_all add: b_def)
  moreover have "broadcast_session_state_update w = Done () w"
    using table_registry_readable [OF core read(1)] table(3) by (intro broadcast_skip) (simp_all add: w_def b_def)
  moreover have "set_session ms (\<lambda>m. m\<lparr>participantSecondary := p, currentState := STATE_IN_PROGRESS\<rparr>)
      (u\<lparr>channels := (channels u)(g := es), errno := e,
        sent := sent u @ [(g, challenge_text name), (fd, net_opcode OP_APPROVE_REQ)]\<rparr>) = Done () b"
    using session(1,2) by (simp add: set_session_def get_session_live andThen_def b_def joined_def)
  moreover have "set_node p (\<lambda>n. n\<lparr>activeSessionId := x\<rparr>) b = Done () (b\<lparr>nodes := (nodes u)(p \<mapsto> bound x n)\<rparr>)"
    using joiner by (simp add: set_node_def get_node_live andThen_def b_def bound_def)
  moreover have "set_node a (\<lambda>n. n\<lparr>activeSessionId := x, timeoutTicks := 1\<rparr>) (b\<lparr>nodes := (nodes u)(p \<mapsto> bound x n)\<rparr>) = Done () w"
    using owner(1,2) joiner(2) by (simp add: set_node_def get_node_live andThen_def w_def bound_def)
  ultimately have "challenge_owner ms x p fd name u = andThen (execute_core_loop ms True) (\<lambda>_. ret 0) w"
    using session owner(1,2,4) joiner asked(1) table(3) answer(2) v
    by (simp add: challenge_owner_def get_session_live get_node_live system_granted andThen_def ret_def send_bytes_def)
  then show ?thesis using asked(2) core read(1) by (intro exI [of _ es] exI [of _ e] exI [of _ w]) (simp add: w_def b_def)
qed

text \<open>What the joiner's request leads to: the match, with both players bound and the table in order.\<close>

lemma join_begins:
  assumes table: "table_core s" "table_readable s" "memory_grants s = []"
    and joiner: "p \<noteq> NULL" "nodes s p = Some n" "activeSessionId n = -1" "socketDescriptor n = v2"
      "inbox s v2 = join_message sid name @ rest2" "proper_name name" "v2 \<notin> set (reset_peers s)"
    and session: "registered s (unat sid) = ms" "sessions s ms = Some m" "participantPrimary m = a" "gridMatrix m = Some g"
    and owner: "a \<noteq> p" "nodes s a = Some na" "streamLock na = Unlocked" "socketDescriptor na = v1" "v1 \<noteq> v2"
      "inbox s v1 = net_opcode OP_APPROVE_REQ @ rest1" "v1 \<notin> set (reset_peers s)"
  obtains es es' e w where
    "process_activation_request p s = andThen (execute_core_loop ms True) (\<lambda>_. ret 0) w"
    "w = s\<lparr>channels := (channels s)(v2 := es, v1 := es'), errno := e,
        sent := sent s @ [(v2, net32 v2), (v1, challenge_text name), (v2, net_opcode OP_APPROVE_REQ)],
        sessions := (sessions s)(ms \<mapsto> joined p m),
        nodes := (nodes s)(p \<mapsto> bound (uint sid) (n\<lparr>identityMoniker := Some name\<rparr>), a \<mapsto> (bound (uint sid) na)\<lparr>timeoutTicks := 1\<rparr>)\<rparr>"
    "inbox w = (inbox s)(v1 := rest1, v2 := rest2)" "table_core w" "table_readable w" "match_at ms a p v1 v2 g w"
proof -
  have ms: "ms \<noteq> NULL" using table_core_live [OF table(1) session(2)] by simp
  have "readable s m" using table(2) session(2) by (simp add: table_readable_def)
  then have a: "a \<noteq> NULL" "board_ok g" using session(3,4) by (simp_all add: readable_def)
  obtain es e where es: "pending es = rest2" and start: "process_activation_request p s =
      challenge_owner ms (uint sid) p v2 name (s\<lparr>channels := (channels s)(v2 := es), errno := e,
        nodes := (nodes s)(p \<mapsto> n\<lparr>identityMoniker := Some name\<rparr>), sent := sent s @ [(v2, net32 v2)]\<rparr>)"
    using join_prefix [OF table(1) joiner(1-3) joiner(4) [symmetric] joiner(5,6) table(3) joiner(7)] session(1) ms
    by (auto simp: Let_def)
  define u where "u = s\<lparr>channels := (channels s)(v2 := es), errno := e,
      nodes := (nodes s)(p \<mapsto> n\<lparr>identityMoniker := Some name\<rparr>), sent := sent s @ [(v2, net32 v2)]\<rparr>"
  have u: "table_core u" "memory_grants u = []" "sessions u ms = Some m" "nodes u a = Some na"
    "nodes u p = Some (n\<lparr>identityMoniker := Some name\<rparr>)" "v1 \<notin> set (reset_peers u)" "v2 \<notin> set (reset_peers u)"
    "inbox u v1 = net_opcode OP_APPROVE_REQ @ rest1"
    using table(1,3) session(2) owner joiner(7) by (simp_all add: u_def inbox_def)
  have "readable u k" if "readable s k" for k using that by (auto simp: readable_def u_def)
  then have "table_readable u" using table(2) by (simp add: table_readable_def u_def)
  then obtain es' e' w where begun: "challenge_owner ms (uint sid) p v2 name u = andThen (execute_core_loop ms True) (\<lambda>_. ret 0) w"
    and w: "w = u\<lparr>channels := (channels u)(v1 := es'), errno := e',
        sent := sent u @ [(v1, challenge_text name), (v2, net_opcode OP_APPROVE_REQ)], sessions := (sessions u)(ms \<mapsto> joined p m),
        nodes := (nodes u)(p \<mapsto> bound (uint sid) (n\<lparr>identityMoniker := Some name\<rparr>), a \<mapsto> (bound (uint sid) na)\<lparr>timeoutTicks := 1\<rparr>)\<rparr>"
    and es': "pending es' = rest1" and w_table: "table_core w" "table_readable w"
    using challenge_approved [OF u(1) _ u(2) ms u(3) session(3) a(1) u(4) owner(3,4) joiner(1) owner(1) [symmetric] u(5-8)] by blast
  show thesis
  proof (rule that)
    show "process_activation_request p s = andThen (execute_core_loop ms True) (\<lambda>_. ret 0) w"
      using start begun by (simp flip: u_def)
    show "w = s\<lparr>channels := (channels s)(v2 := es, v1 := es'), errno := e',
        sent := sent s @ [(v2, net32 v2), (v1, challenge_text name), (v2, net_opcode OP_APPROVE_REQ)],
        sessions := (sessions s)(ms \<mapsto> joined p m),
        nodes := (nodes s)(p \<mapsto> bound (uint sid) (n\<lparr>identityMoniker := Some name\<rparr>), a \<mapsto> (bound (uint sid) na)\<lparr>timeoutTicks := 1\<rparr>)\<rparr>"
      by (simp add: w u_def)
    show "inbox w = (inbox s)(v1 := rest1, v2 := rest2)" using es es' owner(5) by (auto simp: w u_def inbox_def)
    show "match_at ms a p v1 v2 g w"
      using ms a joiner(1,4,7) owner(1,4,5,7) session(3,4) by (simp add: match_at_def w u_def)
  qed (rule w_table)+
qed

section \<open>The whole request\<close>

text \<open>
  C1. A join request from start to end. A free player asks for a registered session and the owner approves;
  the two then play moves that bring the game to an outcome and do not both ask for a rematch. The
  request returns 0, and by then the owner was sent the challenge, the joiner its descriptor and the
  owner's answer, both were told who begins, every move was relayed, every status reported as the game has
  them, and both were told that there is no rematch; the session is gone from registry and heap, its
  identifier is back with the pool, both players are free and unlocked, the joiner with the name it
  sent, the owner with the tick that restarts its deadline, and nothing else has changed.
\<close>

theorem join_played:
  assumes table: "table_core s" "table_readable s" "memory_grants s = []"
    and joiner: "p \<noteq> NULL" "nodes s p = Some n" "activeSessionId n = -1" "streamLock n = Unlocked" "socketDescriptor n = v2"
      "inbox s v2 = join_message sid name @ rest2" "proper_name name" "v2 \<notin> set (reset_peers s)"
    and session: "registered s (unat sid) = ms" "sessions s ms = Some m" "participantPrimary m = a" "gridMatrix m = Some g"
    and owner: "a \<noteq> p" "nodes s a = Some na" "streamLock na = Unlocked" "socketDescriptor na = v1" "v1 \<noteq> v2"
      "inbox s v1 = net_opcode OP_APPROVE_REQ @ rest1" "v1 \<notin> set (reset_peers s)"
    and draw: "randoms s = r # rs" "mover = (if odd r then v2 else v1)" "input = (inbox s)(v1 := rest1, v2 := rest2)"
    and moves: "feeds v1 v2 mover ks input" "\<forall>k\<in>set ks. - (2 ^ 31) \<le> k \<and> k < 2 ^ 31"
    and outcome: "game v1 v2 mover g ks = Inr (status, g', nxt)" "status \<noteq> -2"
    and answers: "leftover v1 v2 mover g ks input v1 = net16 b1 @ r1" "leftover v1 v2 mover g ks input v2 = net16 b2 @ r2"
      "uint b1 \<noteq> opcode_value OP_APPROVE_REQ \<or> uint b2 \<noteq> opcode_value OP_APPROVE_REQ"
  shows "\<exists>ch e st ids. process_activation_request p s = Done 0 (s\<lparr>randoms := rs, channels := ch, errno := e,
      sent := sent s @ [(v2, net32 v2), (v1, challenge_text name), (v2, net_opcode OP_APPROVE_REQ),
        (v1, net32 mover), (v2, net32 mover)] @ transcript v1 v2 mover g ks @
        [(v1, net_code16 OP_DECLINE_REQ), (v2, net_code16 OP_DECLINE_REQ)],
      nodes := (nodes s)(a \<mapsto> freed (na\<lparr>timeoutTicks := 1\<rparr>), p \<mapsto> freed (n\<lparr>identityMoniker := Some name\<rparr>)),
      sessions := (sessions s)(ms := None), activeMatchSessions := st, identifiers := ids\<rparr>) \<and>
    pending (ch v1) = r1 \<and> pending (ch v2) = r2 \<and> entry st = (registered s)(unat sid := NULL) \<and>
    relinquishSessionIdentifier (uint sid) (identifiers s) = Done () ids"
proof -
  have "sessionId m = sid"
    using table_core_registered [OF table(1), of "unat sid"] table_core_live [OF table(1) session(2)] session(1,2)
    by (metis option.inject unsigned_word_eqI)
  then have sid: "sessionId (joined p m) = sid" by simp
  obtain es es' e w where begun: "process_activation_request p s = andThen (execute_core_loop ms True) (\<lambda>_. ret 0) w"
    and w: "w = s\<lparr>channels := (channels s)(v2 := es, v1 := es'), errno := e,
        sent := sent s @ [(v2, net32 v2), (v1, challenge_text name), (v2, net_opcode OP_APPROVE_REQ)],
        sessions := (sessions s)(ms \<mapsto> joined p m),
        nodes := (nodes s)(p \<mapsto> bound (uint sid) (n\<lparr>identityMoniker := Some name\<rparr>), a \<mapsto> (bound (uint sid) na)\<lparr>timeoutTicks := 1\<rparr>)\<rparr>"
    and input: "inbox w = input" and w_ok: "table_core w" "table_readable w" and at: "match_at ms a p v1 v2 g w"
    unfolding draw(3) by (rule join_begins [OF table joiner(1-3,5-8) session owner])
  have w_parts: "memory_grants w = []" "sessions w ms = Some (joined p m)" "randoms w = r # rs"
    "nodes w a = Some ((bound (uint sid) na)\<lparr>timeoutTicks := 1\<rparr>)"
    "nodes w p = Some (bound (uint sid) (n\<lparr>identityMoniker := Some name\<rparr>))" "registered w = registered s" "identifiers w = identifiers s"
    using table(3) draw(1) owner(1) by (simp_all add: w)
  have free: "streamLock ((bound (uint sid) na)\<lparr>timeoutTicks := 1\<rparr>) = Unlocked"
    "streamLock (bound (uint sid) (n\<lparr>identityMoniker := Some name\<rparr>)) = Unlocked" using joiner(4) owner(3) by simp_all
  obtain ch e st ids where fin: "execute_core_loop ms True w = Done () (w\<lparr>randoms := rs, channels := ch, errno := e,
      sent := sent w @ [(v1, net32 mover), (v2, net32 mover)] @ transcript v1 v2 mover g ks @
        [(v1, net_code16 OP_DECLINE_REQ), (v2, net_code16 OP_DECLINE_REQ)],
      nodes := (nodes w)(a \<mapsto> freed ((bound (uint sid) na)\<lparr>timeoutTicks := 1\<rparr>), p \<mapsto> freed (bound (uint sid) (n\<lparr>identityMoniker := Some name\<rparr>))),
      sessions := (sessions w)(ms := None), activeMatchSessions := st, identifiers := ids\<rparr>)"
    "pending (ch v1) = r1" "pending (ch v2) = r2" "entry st = (registered w)(unat sid := NULL)"
    "relinquishSessionIdentifier (uint sid) (identifiers w) = Done () ids"
    using match_run [OF w_ok w_parts(1) at w_parts(2) owner(1) w_parts(4,5) free w_parts(3) draw(2) moves [folded input] outcome
        answers [folded input]] unfolding sid by blast
  have "freed ((bound x k)\<lparr>timeoutTicks := t\<rparr>) = freed (k\<lparr>timeoutTicks := t\<rparr>)" "freed (bound x k) = freed k" for x k t
    by (simp_all add: freed_def bound_def)
  then show ?thesis using begun fin owner(1) w_parts(6,7)
    by (intro exI [of _ ch] exI [of _ e] exI [of _ st] exI [of _ ids])
      (simp add: andThen_def ret_def, simp add: w fun_upd_twist)
qed

end
