(* ===== verification/Arena.thy ===== *)
theory Arena
  imports Lounge Joining
begin

text \<open>
  Ann and Bob at a match, to apply the properties of matches to: Ann begins and takes the top row in three
  moves, and neither both want a rematch.
\<close>

definition duel :: "(u32 \<Rightarrow> byte list) \<Rightarrow> server" where
  "duel input = (lounge input)\<lparr>
     sessions := [3 \<mapsto> (waiting_session 1 0)\<lparr>participantSecondary := 2, currentState := STATE_IN_PROGRESS\<rparr>],
     nodes := [1 \<mapsto> ann, 2 \<mapsto> bob\<lparr>activeSessionId := 0\<rparr>], randoms := [0]\<rparr>"

definition duel_input :: "u32 \<Rightarrow> byte list" where
  "duel_input fd =
     (if fd = 7 then net32 1 @ net32 2 @ net32 3 @ net_code16 OP_DECLINE_REQ
      else net32 4 @ net32 5 @ net_code16 OP_APPROVE_REQ)"

lemma duel_at: "match_at 3 1 2 7 8 blank_board (duel input)"
  by (simp add: match_at_def duel_def ann_def bob_def waiting_session_def fresh_session_def)

lemma duel_session: "sessions (duel input) 3 = Some ((waiting_session 1 0)\<lparr>participantSecondary := 2, currentState := STATE_IN_PROGRESS\<rparr>)"
  by (simp add: duel_def)

lemma duel_inbox [simp]: "inbox (duel input) fd = input fd"
  by (simp add: duel_def)

lemma inbox_duel: "inbox (duel input) = input"
  by (rule ext) simp

lemma duel_sent: "sent (duel input) = []"
  by (simp add: duel_def)

lemma duel_game:
  "game 7 8 7 blank_board [1, 4, 2, 5, 3] = Inr (7, [[7, 7, 7], [8, 8, 0], [0, 0, 0]], 8)"
  "feeds 7 8 7 [1, 4, 2, 5, 3] duel_input"
  "leftover 7 8 7 blank_board [1, 4, 2, 5, 3] duel_input 7 = net_code16 OP_DECLINE_REQ"
  "leftover 7 8 7 blank_board [1, 4, 2, 5, 3] duel_input 8 = net_code16 OP_APPROVE_REQ"
  by code_simp+

theorem match_loop_plays_game_witness:
  "\<exists>t. move_loop 3 1 (duel duel_input) = Done (4, 7, 2) t \<and>
     sent t = transcript 7 8 7 blank_board [1, 4, 2, 5, 3] \<and> inbox t 7 = net_code16 OP_DECLINE_REQ"
proof -
  have "feeds 7 8 7 [1, 4, 2, 5, 3] (inbox (duel duel_input))" using duel_game(2) by (simp add: inbox_duel)
  from match_loop_plays_game [OF duel_at _ this _ duel_game(1)] obtain t where
    "move_loop 3 1 (duel duel_input) = Done (4, 7, 2) t"
    "sent t = sent (duel duel_input) @ transcript 7 8 7 blank_board [1, 4, 2, 5, 3]"
    "inbox t = leftover 7 8 7 blank_board [1, 4, 2, 5, 3] (inbox (duel duel_input))" by auto
  then show ?thesis using duel_game(3) by (simp add: inbox_duel duel_sent)
qed

text \<open>The same match from Bob's request on, in the lounge.\<close>

definition party_input :: "u32 \<Rightarrow> byte list" where
  "party_input fd =
     (if fd = 7 then net_opcode OP_APPROVE_REQ @ duel_input 7
      else if fd = 8 then join_message 0 (ascii ''Bob'') @ duel_input 8 else duel_input fd)"

definition party :: server where
  "party = (lounge party_input)\<lparr>randoms := [0]\<rparr>"

lemma party_input_rest: "(inbox party)(7 := duel_input 7, 8 := duel_input 8) = duel_input"
  by (auto simp: party_def party_input_def inbox_def lounge_def split: list.splits)

theorem join_played_witness:
  "\<exists>t. process_activation_request 2 party = Done 0 t \<and> registered t 0 = NULL \<and> sessions t 3 = None \<and>
     map_option activeSessionId (nodes t 1) = Some (-1) \<and> map_option activeSessionId (nodes t 2) = Some (-1) \<and>
     pooled (identifiers t) = [0] \<and>
     sent t = [(8, net32 8), (7, challenge_text (ascii ''Bob'')), (8, net_opcode OP_APPROVE_REQ), (7, net32 7), (8, net32 7)] @
       transcript 7 8 7 blank_board [1, 4, 2, 5, 3] @ [(7, net_code16 OP_DECLINE_REQ), (8, net_code16 OP_DECLINE_REQ)]"
proof -
  have table: "table_core party" "table_readable party" "memory_grants party = []"
    using lounge_core lounge_readable by (simp_all add: party_def table_readable_def readable_def)
  have s: "nodes party 2 = Some bob" "activeSessionId bob = -1" "streamLock bob = Unlocked" "socketDescriptor bob = 8"
    "inbox party 8 = join_message 0 (ascii ''Bob'') @ duel_input 8" "8 \<notin> set (reset_peers party)"
    "registered party (unat (0 :: u16)) = 3" "sessions party 3 = Some (waiting_session 1 0)"
    "participantPrimary (waiting_session 1 0) = 1" "gridMatrix (waiting_session 1 0) = Some blank_board"
    "nodes party 1 = Some ann" "streamLock ann = Unlocked" "socketDescriptor ann = 7"
    "inbox party 7 = net_opcode OP_APPROVE_REQ @ duel_input 7" "7 \<notin> set (reset_peers party)" "randoms party = 0 # []"
    "7 = (if odd (0 :: int) then 8 else 7 :: u32)"
    using one_session_ok by (simp_all add: party_def party_input_def bob_def ann_def waiting_session_def fresh_session_def)
  have l: "leftover 7 8 7 blank_board [1, 4, 2, 5, 3] duel_input 7 = net16 (word_of_int (opcode_value OP_DECLINE_REQ)) @ []"
    "leftover 7 8 7 blank_board [1, 4, 2, 5, 3] duel_input 8 = net16 (word_of_int (opcode_value OP_APPROVE_REQ)) @ []"
    using duel_game(3,4) by (simp_all add: net_code16_def)
  have k: "\<forall>k\<in>set [1, 4, 2, 5, 3]. - (2 ^ 31) \<le> k \<and> k < (2 ^ 31 :: int)" "(7 :: int) \<noteq> -2"
    "uint (word_of_int (opcode_value OP_DECLINE_REQ) :: u16) \<noteq> opcode_value OP_APPROVE_REQ \<or>
     uint (word_of_int (opcode_value OP_APPROVE_REQ) :: u16) \<noteq> opcode_value OP_APPROVE_REQ"
    "(2 :: u64) \<noteq> NULL" "(1 :: u64) \<noteq> 2" "(7 :: u32) \<noteq> 8" by simp_all
  obtain ch e st ids where r: "process_activation_request 2 party = Done 0 (party\<lparr>randoms := [], channels := ch, errno := e,
      sent := sent party @ [(8, net32 8), (7, challenge_text (ascii ''Bob'')), (8, net_opcode OP_APPROVE_REQ),
        (7, net32 7), (8, net32 7)] @ transcript 7 8 7 blank_board [1, 4, 2, 5, 3] @
        [(7, net_code16 OP_DECLINE_REQ), (8, net_code16 OP_DECLINE_REQ)],
      nodes := (nodes party)(1 \<mapsto> freed (ann\<lparr>timeoutTicks := 1\<rparr>), 2 \<mapsto> freed (bob\<lparr>identityMoniker := Some (ascii ''Bob'')\<rparr>)),
      sessions := (sessions party)(3 := None), activeMatchSessions := st, identifiers := ids\<rparr>)"
    "entry st = (registered party)(unat (0 :: u16) := NULL)"
    "relinquishSessionIdentifier (uint (0 :: u16)) (identifiers party) = Done () ids"
    using join_played [OF table k(4) s(1-5) names_proper(2) s(6-10) k(5) s(11-13) k(6) s(14-17) party_input_rest [symmetric]
        duel_game(2) k(1) duel_game(1) k(2) l k(3)]
    by (elim exE conjE) (rule that)
  have "identifiers party = \<lparr>current_highest_id = 1, recycled_id_pool = replicate 20 0, recycled_id_count = 0\<rparr>" "sent party = []"
    by (simp_all add: party_def lounge_def)
  moreover have "(replicate 20 (0 :: int))[0 := 0] = 0 # replicate 19 0" by code_simp
  ultimately have "pooled ids = [0]" "sent party = []" using r(3)
    by (auto simp: relinquishSessionIdentifier_def pooled_def POOL_SIZE_FOR_IDS_def)
  then show ?thesis using r(1,2) by (simp add: freed_def)
qed

definition both_say :: "byte list \<Rightarrow> u32 \<Rightarrow> byte list" where
  "both_say bs fd = bs"

theorem rematch_approved_witness:
  "\<exists>t. invoke_rematch 3 (duel (both_say (net_code16 OP_APPROVE_REQ))) = Done 1 t \<and>
     sent t = [(7, net_code16 OP_APPROVE_REQ), (8, net_code16 OP_APPROVE_REQ)]"
proof -
  let ?s = "duel (both_say (net_code16 OP_APPROVE_REQ))"
  have "inbox ?s 7 = net_code16 OP_APPROVE_REQ @ []" "inbox ?s 8 = net_code16 OP_APPROVE_REQ @ []"
    by (simp_all add: both_say_def)
  from rematch_approved [OF duel_at duel_session this] show ?thesis
    by (elim exE conjE) (intro exI conjI, assumption, simp add: duel_sent)
qed

text \<open>The players have gone, and the two bytes on the stack are those of the approval.\<close>

definition haunted :: server where
  "haunted = (duel (\<lambda>_. []))\<lparr>channels := (\<lambda>_. [Closed]), stack_junk := (\<lambda>i. net_code16 OP_APPROVE_REQ ! i)\<rparr>"

theorem ghosts_rematch_witness:
  "\<exists>t. invoke_rematch 3 haunted = Done 1 t \<and> match_at 3 1 2 7 8 blank_board t"
proof -
  have at: "match_at 3 1 2 7 8 blank_board haunted" using duel_at by (simp add: haunted_def match_at_def)
  have s: "sessions haunted 3 = Some ((waiting_session 1 0)\<lparr>participantSecondary := 2, currentState := STATE_IN_PROGRESS\<rparr>)"
    using duel_session by (simp add: haunted_def)
  have c: "channels haunted 7 = Closed # []" "channels haunted 8 = Closed # []" by (simp_all add: haunted_def)
  have "length (net_code16 OP_APPROVE_REQ) = 2" by (simp add: net_code16_def)
  then have "[net_code16 OP_APPROVE_REQ ! 0, net_code16 OP_APPROVE_REQ ! 1] = net_code16 OP_APPROVE_REQ"
    by (auto simp: list_eq_iff_nth_eq less_Suc_eq numeral_2_eq_2)
  then have "[stack_junk haunted 0, stack_junk haunted 1] = net_code16 OP_APPROVE_REQ" by (simp add: haunted_def)
  with ghosts_rematch [OF at s c] show ?thesis .
qed

end
