(* ===== verification/Leaving.thy ===== *)
theory Leaving
  imports Arena
begin

text \<open>
  How a connection ends: the deadline of a silent client, and what the clean-up does to the sessions of the
  player who leaves.
\<close>

section \<open>The deadline\<close>

lemma quiet_round:
  assumes "p \<noteq> NULL" "nodes s p = Some n" "streamLock n = Unlocked" "timeoutTicks n = 0" "clock s = now # rest"
  shows "poll_round print_json p fd Quiet lk s =
    Done (if now - marker_start lk \<ge> SECONDS_UNTIL_DROP * 10 ^ 9 then None else Some lk) (s\<lparr>clock := rest\<rparr>)"
proof -
  let ?l = "s\<lparr>nodes := (nodes s)(p \<mapsto> n\<lparr>streamLock := Locked\<rparr>)\<rparr>"
  have "lock_stream p s = Done () ?l"
    using assms(1-3) by (simp add: lock_stream_def set_node_def get_node_def andThen_def)
  moreover have "unlock_stream p ?l = Done () s"
    using assms(1) node_relock [OF assms(2,3)] by (simp add: unlock_stream_def set_node_def get_node_def andThen_def)
  ultimately show ?thesis using assms
    by (simp add: poll_round_def check_deadline_def get_node_live andThen_def ret_def read_clock_def)
qed

text \<open>
  C20. A silent client is dropped, and not before its time: while no reading of the clock is thirty
  seconds past the last request the thread goes on waiting, and the first that is ends the loop,
  whatever would come next; nothing but the clock is touched.
\<close>

theorem silent_client_dropped:
  assumes "p \<noteq> NULL" "nodes s p = Some n" "streamLock n = Unlocked" "timeoutTicks n = 0" "active_flag lk"
    and "clock s = early @ now # rest" "\<forall>t\<in>set early. t - marker_start lk < SECONDS_UNTIL_DROP * 10 ^ 9"
    and "now - marker_start lk \<ge> SECONDS_UNTIL_DROP * 10 ^ 9"
  shows "poll_loop print_json p fd (map (\<lambda>_. Quiet) early @ Quiet # polls) lk s = Done True (s\<lparr>clock := rest\<rparr>)"
  using assms
proof (induction early arbitrary: s)
  case Nil
  then have "poll_round print_json p fd Quiet lk s = Done None (s\<lparr>clock := rest\<rparr>)"
    using quiet_round [of p s n now rest print_json fd lk] by simp
  then show ?case using Nil.prems(5) by (simp add: andThen_def ret_def)
next
  case (Cons t early)
  let ?u = "s\<lparr>clock := early @ now # rest\<rparr>"
  have "poll_round print_json p fd Quiet lk s = Done (Some lk) ?u"
    using quiet_round [of p s n t "early @ now # rest" print_json fd lk] Cons.prems by simp
  moreover have "poll_loop print_json p fd (map (\<lambda>_. Quiet) early @ Quiet # polls) lk ?u = Done True (?u\<lparr>clock := rest\<rparr>)"
    using Cons.prems by (intro Cons.IH) simp_all
  ultimately show ?case using Cons.prems(5) by (simp add: andThen_def)
qed

section \<open>The sessions of a player who leaves\<close>

definition owned :: "server \<Rightarrow> u64 \<Rightarrow> nat \<Rightarrow> bool" where
  "owned s p k \<longleftrightarrow> registered s k \<noteq> NULL \<and>
     (case sessions s (registered s k) of None \<Rightarrow> False | Some m \<Rightarrow> participantPrimary m = p)"

lemma registered_inj:
  assumes "table_core s" "registered s i = registered s j" "registered s i \<noteq> NULL"
  shows "i = j"
proof -
  obtain m where m: "sessions s (registered s i) = Some m" "unat (sessionId m) = i"
    using assms(1,3) by (rule table_core_registered)
  have "registered s j \<noteq> NULL" using assms(2,3) by simp
  with assms(1) obtain m' where "sessions s (registered s j) = Some m'" "unat (sessionId m') = j"
    by (rule table_core_registered)
  then show ?thesis using m assms(2) by simp
qed

lemma scan_purge:
  assumes "table_core s" "sorted is" "distinct is" "\<forall>i\<in>set is. i \<le> unat SIZE_MAX"
  shows "\<exists>t. scan_sessions is (purge_orphan p) s = Done () t \<and> table_core t \<and>
    registered t = (\<lambda>i. if i \<in> set is \<and> owned s p i then NULL else registered s i) \<and>
    sessions t = (\<lambda>q. if \<exists>i\<in>set is. registered s i = q \<and> owned s p i then None else sessions s q)"
  using assms
proof (induction "is" arbitrary: s)
  case Nil
  then show ?case by (auto simp: ret_def)
next
  case (Cons k ks)
  show ?case
  proof (cases "k < unat (allocated_slots (activeMatchSessions s))")
    case False
    have "\<not> owned s p i" if "i \<in> set (k # ks)" for i
    proof -
      have "k \<le> i" using that Cons.prems(2) by auto
      then show ?thesis using False by (simp add: owned_def entry_simps)
    qed
    then show ?thesis using False Cons.prems(1) by (intro exI [of _ s]) (auto simp: cmd_defs fun_eq_iff)
  next
    case True
    have ks: "sorted ks" "distinct ks" "\<forall>i\<in>set ks. i \<le> unat SIZE_MAX" "k \<notin> set ks" using Cons.prems by simp_all
    show ?thesis
    proof (cases "owned s p k")
      case False
      have "purge_orphan p k s = Done () s"
        using purge_orphan_run [OF Cons.prems(1), of k p] Cons.prems(4) False by (auto simp: owned_def split: if_splits)
      moreover obtain t where t: "scan_sessions ks (purge_orphan p) s = Done () t" "table_core t"
        "registered t = (\<lambda>i. if i \<in> set ks \<and> owned s p i then NULL else registered s i)"
        "sessions t = (\<lambda>q. if \<exists>i\<in>set ks. registered s i = q \<and> owned s p i then None else sessions s q)"
        using Cons.IH [OF Cons.prems(1) ks(1-3)] by blast
      moreover have "registered t = (\<lambda>i. if i \<in> set (k # ks) \<and> owned s p i then NULL else registered s i)"
        "sessions t = (\<lambda>q. if \<exists>i\<in>set (k # ks). registered s i = q \<and> owned s p i then None else sessions s q)"
        using t(3,4) False by (auto simp: fun_eq_iff)
      ultimately show ?thesis using True by (intro exI [of _ t]) (simp add: cmd_defs)
    next
      case owns: True
      then have nn: "registered s k \<noteq> NULL" by (simp add: owned_def)
      obtain m u where m: "sessions s (registered s k) = Some m" "unat (sessionId m) = k" "participantPrimary m = p"
        and u: "purge_orphan p k s = Done () u" "retired s (registered s k) (sessionId m) u"
        using purge_orphan_run [OF Cons.prems(1), of k p] Cons.prems(4) owns nn by (auto simp: owned_def split: if_splits)
      have core: "table_core u" using retired_table [OF Cons.prems(1) m(1) u(2)] by simp
      have r: "registered u = (registered s)(k := NULL)" "sessions u = (sessions s)(registered s k := None)"
        using u(2) m(2) by (auto simp: retired_def)
      have o: "owned u p i \<longleftrightarrow> owned s p i \<and> i \<noteq> k" for i
      proof (cases "i = k \<or> registered s i = NULL")
        case False
        then have "registered s i \<noteq> registered s k" using registered_inj [OF Cons.prems(1), of i k] by auto
        then show ?thesis using False r by (simp add: owned_def)
      qed (auto simp: owned_def r)
      obtain t where t: "scan_sessions ks (purge_orphan p) u = Done () t" "table_core t"
        "registered t = (\<lambda>i. if i \<in> set ks \<and> owned u p i then NULL else registered u i)"
        "sessions t = (\<lambda>q. if \<exists>i\<in>set ks. registered u i = q \<and> owned u p i then None else sessions u q)"
        using Cons.IH [OF core ks(1-3)] by blast
      have "registered t = (\<lambda>i. if i \<in> set (k # ks) \<and> owned s p i then NULL else registered s i)"
        using t(3) o r(1) owns by (auto simp: fun_eq_iff)
      moreover have "sessions t = (\<lambda>q. if \<exists>i\<in>set (k # ks). registered s i = q \<and> owned s p i then None else sessions s q)"
        using t(4) o r owns ks(4) by (auto simp: fun_eq_iff)
      ultimately show ?thesis using u(1) t(1,2) True by (intro exI [of _ t]) (simp add: cmd_defs)
    qed
  qed
qed

text \<open>
  The clean-up after a player destroys exactly the sessions it owns, and never fails, although the
  registry may shrink under the loop.
\<close>

lemma purge_run:
  assumes "table_core s"
  shows "\<exists>t. purge_orphans p s = Done () t \<and> table_core t \<and>
    registered t = (\<lambda>k. if owned s p k then NULL else registered s k) \<and>
    (\<forall>q. sessions t q = (case sessions s q of None \<Rightarrow> None | Some m \<Rightarrow> if participantPrimary m = p then None else Some m))"
proof -
  let ?n = "unat (allocated_slots (activeMatchSessions s))"
  have "\<forall>i\<in>set [0..<?n]. i \<le> unat SIZE_MAX" using index_le by blast
  then obtain t where t: "scan_sessions [0..<?n] (purge_orphan p) s = Done () t" "table_core t"
    "registered t = (\<lambda>i. if i \<in> set [0..<?n] \<and> owned s p i then NULL else registered s i)"
    "sessions t = (\<lambda>q. if \<exists>i\<in>set [0..<?n]. registered s i = q \<and> owned s p i then None else sessions s q)"
    using scan_purge [OF assms, of "[0..<?n]" p] by auto
  have inside: "owned s p k \<Longrightarrow> k < ?n" for k using entry_in_range by (auto simp: owned_def)
  have "registered t = (\<lambda>k. if owned s p k then NULL else registered s k)" using t(3) inside by (auto simp: fun_eq_iff)
  moreover have "sessions t q = (case sessions s q of None \<Rightarrow> None | Some m \<Rightarrow> if participantPrimary m = p then None else Some m)" for q
  proof (cases "sessions s q")
    case (Some m)
    have q: "q \<noteq> NULL" "registered s (unat (sessionId m)) = q" using table_core_live [OF assms Some] by simp_all
    have "(\<exists>i\<in>set [0..<?n]. registered s i = q \<and> owned s p i) \<longleftrightarrow> participantPrimary m = p"
      using q Some inside by (auto simp: owned_def intro: bexI [of _ "unat (sessionId m)"])
    then show ?thesis using t(4) Some by simp
  next
    case None
    then show ?thesis using t(4) by (auto simp: owned_def)
  qed
  ultimately show ?thesis using t(1,2) by (intro exI [of _ t]) (simp add: purge_orphans_def for_sessions_def gets_run)
qed

text \<open>Bob says nothing: at twenty seconds he is waited for, at thirty he is dropped.\<close>

theorem silent_client_dropped_witness:
  "\<exists>t. poll_loop (\<lambda>_. None) 2 8 [Quiet, Quiet, Readable] \<lparr>marker_start = 0, incoming_opcode = [], active_flag = True\<rparr>
     ((lounge (\<lambda>_. []))\<lparr>clock := [20 * 10 ^ 9, 30 * 10 ^ 9]\<rparr>) = Done True t \<and> clock t = []"
proof -
  let ?s = "(lounge (\<lambda>_. []))\<lparr>clock := [20 * 10 ^ 9, 30 * 10 ^ 9]\<rparr>"
  let ?lk = "\<lparr>marker_start = 0, incoming_opcode = [], active_flag = True\<rparr>"
  have "nodes ?s 2 = Some bob" "streamLock bob = Unlocked" "timeoutTicks bob = 0" "active_flag ?lk"
    "clock ?s = [20 * 10 ^ 9] @ (30 * 10 ^ 9) # []"
    "\<forall>t\<in>set [20 * 10 ^ 9]. t - marker_start ?lk < SECONDS_UNTIL_DROP * 10 ^ 9"
    "30 * 10 ^ 9 - marker_start ?lk \<ge> SECONDS_UNTIL_DROP * 10 ^ 9"
    by (simp_all add: bob_def SECONDS_UNTIL_DROP_def)
  from silent_client_dropped [OF _ this, of "\<lambda>_. None" 8 "[Readable]"] show ?thesis by simp
qed

end
