(* ===== verification/System.thy ===== *)
theory System
  imports Table_Invariant Server_Main Roster
begin

text \<open>
  The server as a transition system. A step is one request served to its end, one connection entering
  or leaving, one deadline check, or a change of the outside world; the handlers of different clients
  interleave at that grain. A thread may end inside a handler; the end of the process and undefined
  behaviour have no successor state.
\<close>

section \<open>Steps\<close>

datatype event = Connects u32 | Creates u64 | Joins u64 | Lists u32 | Checks u64 link | Leaves u64 u32

fun handler :: "(json_item list \<Rightarrow> byte list option) \<Rightarrow> event \<Rightarrow> (server, unit) cmd" where
  "handler print_json (Connects fd) = andThen (enter_link fd) (\<lambda>_. ret ())"
| "handler print_json (Creates p) = andThen (process_instantiation_request p) (\<lambda>_. ret ())"
| "handler print_json (Joins p) = andThen (process_activation_request p) (\<lambda>_. ret ())"
| "handler print_json (Lists fd) = andThen (process_queue_fetch print_json fd) (\<lambda>_. ret ())"
| "handler print_json (Checks p lk) = andThen (check_deadline p lk) (\<lambda>_. ret ())"
| "handler print_json (Leaves p fd) = leave_link p fd"

text \<open>The state a command leaves behind when the process goes on.\<close>

definition survives :: "('a, 's) outcome \<Rightarrow> 's \<Rightarrow> bool" where
  "survives r t \<longleftrightarrow> (case r of Done _ u \<Rightarrow> u = t | Exited u \<Rightarrow> u = t | Halted u \<Rightarrow> False | Fault f \<Rightarrow> False)"

lemma after_andThen: "m s = Done a t \<Longrightarrow> keeps P (k a) \<Longrightarrow> P t \<Longrightarrow> after P (andThen m k s)"
  by (simp add: andThen_def keepsD)

lemma survives_after: "survives r t \<Longrightarrow> after P r \<Longrightarrow> P t"
  by (cases r) (auto simp: survives_def)

text \<open>What clients, the clock and the allocator do: everything but the program's own data.\<close>

definition outside_change :: "server \<Rightarrow> server \<Rightarrow> bool" where
  "outside_change s t \<longleftrightarrow>
     activePlayerNodes t = activePlayerNodes s \<and> activeMatchSessions t = activeMatchSessions s \<and>
     identifiers t = identifiers s \<and> nodes t = nodes s \<and> sessions t = sessions s"

inductive server_step :: "(json_item list \<Rightarrow> byte list option) \<Rightarrow> server \<Rightarrow> server \<Rightarrow> bool"
  for print_json where
  request: "survives (handler print_json ev s) t \<Longrightarrow> server_step print_json s t"
| outside: "outside_change s t \<Longrightarrow> server_step print_json s t"

inductive_cases server_stepE: "server_step print_json s t"

inductive_simps server_step_iff: "server_step print_json s t"

definition boots :: "server \<Rightarrow> bool" where
  "boots t \<longleftrightarrow> (\<exists>mutex1_ok mutex2_ok s. survives (configure_stores mutex1_ok mutex2_ok (process_start s)) t)"

definition reachable :: "(json_item list \<Rightarrow> byte list option) \<Rightarrow> server \<Rightarrow> bool" where
  "reachable print_json = reached boots (server_step print_json)"

section \<open>The invariant of the session table\<close>

lemma keeps_table_handler: "keeps table_ok (handler print_json ev)"
  by (cases ev) (auto intro!: keeps_rules)

lemma table_outside:
  assumes "outside_change s t" "table_ok s"
  shows "table_ok t"
proof -
  have "ids_cover s = ids_cover t" "ids_bounded s = ids_bounded t"
    using assms(1) by (simp_all add: outside_change_def ids_cover_def ids_bounded_def)
  moreover have "table_core t" if core: "table_core s"
  proof (rule table_coreI)
    show "reg_ok (activeMatchSessions t)" using assms(1) table_core_reg [OF core] by (simp add: outside_change_def)
    show "ids_cover t" using table_core_ids [OF core] calculation(1) by simp
    show "\<exists>m. sessions t (registered t k) = Some m \<and> unat (sessionId m) = k" if "registered t k \<noteq> NULL" for k
      using that assms(1) table_core_registered [OF core, of k] unfolding outside_change_def by metis
    show "p \<noteq> NULL \<and> registered t (unat (sessionId m)) = p" if "sessions t p = Some m" for p m
      using that assms(1) table_core_live [OF core, of p m] unfolding outside_change_def by metis
  qed
  ultimately show ?thesis using assms(2) by (simp add: table_ok_def)
qed

text \<open>Whatever fails while the stores are set up, the registry starts as an empty table.\<close>

lemma pointers_zeros:
  assumes "heap_region st = Some (zeros (unat (allocated_slots st) * 8))" "element_byte_footprint st = 8"
  shows "pointers st = replicate (unat (allocated_slots st)) NULL"
  using cells_of_grow [of "[]" 0 8 "unat (allocated_slots st)"] assms
  by (simp add: pointers_def table_of_def region_of_def)

lemma vacant_store:
  assumes "pointers st = replicate n NULL" "pointer_store st" "occupied_slots st = 0"
  shows "reg_ok st \<and> roster_ok st \<and> entry st = (\<lambda>_. NULL)"
  using assms by (auto simp: reg_ok_def roster_ok_def entry_def fun_eq_iff nth_replicate simp del: length_pointers)

lemma configured_store:
  assumes "n \<noteq> 0"
  obtains rc st where "configure_memory_store al mx n 8 (Some static_store) = Done rc (Some st)"
    "reg_ok st" "roster_ok st" "entry st = (\<lambda>_. NULL)" "element_byte_footprint st = 8"
proof (cases "calloc al n 8 \<noteq> None \<and> mx")
  case True
  define st where "st = \<lparr>floor_threshold = n, element_byte_footprint = 8, synchronizer = Unlocked, allocated_slots = n,
     occupied_slots = 0, heap_region = Some (zeros (unat n * 8))\<rparr>"
  have size: "unat n * 8 \<le> unat SIZE_MAX"
    using True uint_mult_fits [of n "8 :: u64"] by (simp add: calloc_def split: if_splits)
  have "configure_memory_store al mx n 8 (Some static_store) = Done 0 (Some st)" using True assms
    by (auto simp: configure_memory_store_def Let_def calloc_def static_store_def st_def word_gt_0 split: if_splits)
  moreover have "pointer_store st" using assms size by (simp add: pointer_store_def da_ok_def da_shape_def st_def)
  ultimately show thesis
    using vacant_store [OF pointers_zeros, of st] that by (simp add: st_def)
next
  case False
  define st where "st = \<lparr>floor_threshold = n, element_byte_footprint = 8 :: u64, synchronizer = Unlocked, allocated_slots = 0 :: u64,
     occupied_slots = 0 :: u64, heap_region = None\<rparr>"
  have "configure_memory_store al mx n 8 (Some static_store) = Done (-1) (Some st)" using False assms
    by (auto simp: configure_memory_store_def Let_def static_store_def st_def word_gt_0)
  moreover have "pointers st = replicate 0 NULL" by (simp add: pointers_def st_def)
  moreover have "pointer_store st" using assms by (simp add: pointer_store_def da_ok_def da_shape_def st_def)
  ultimately show thesis using vacant_store [of st 0] that by (simp add: st_def)
qed

lemma table_fresh:
  assumes "reg_ok (activeMatchSessions s)" "registered s = (\<lambda>_. NULL)" "sessions s = Map.empty" "identifiers s = initial_ids"
  shows "table_ok s"
proof -
  have "ids_cover s" using assms ids_ok_initial unfolding ids_cover_def by auto
  then show ?thesis using assms by (auto simp: table_ok_def intro: table_coreI)
qed

lemma configured_table: "after table_ok (configure_stores mutex1_ok mutex2_ok (process_start s))"
proof -
  obtain b gs where g: "take_grant (memory_grants s) = (b, gs)" by (metis prod.exhaust)
  obtain rc st where c: "configure_memory_store (one_grant b) mutex1_ok 3 8 (Some static_store) = Done rc (Some st)"
    "reg_ok st" "entry st = (\<lambda>_. NULL)" by (rule configured_store [of 3]) simp_all
  let ?t = "(process_start s)\<lparr>memory_grants := gs, activeMatchSessions := st\<rparr>"
  have "with_grant (\<lambda>al. on_sessions (on_fst (configure_memory_store al mutex1_ok 3 8))) (process_start s) = Done rc ?t"
    using g c(1) by (simp add: with_grant_def on_sessions_def outcome_simps process_start_def)
  moreover have "table_ok ?t" using c(2,3) by (intro table_fresh) (simp_all add: process_start_def)
  moreover have "keeps table_ok (andThen (with_grant (\<lambda>al. on_players (on_fst (configure_memory_store al mutex2_ok 6 8)))) (\<lambda>_.
     andThen (gets (\<lambda>s. element_byte_footprint (activeMatchSessions s))) (\<lambda>footprint.
     if footprint = 8 then ret () else exit_process)))"
    by (intro keeps_rules keeps_with_grant keeps_on_players) (simp_all add: exit_process_def keeps_def)
  ultimately show ?thesis unfolding configure_stores_def by (intro after_andThen)
qed

interpretation table: inductive_invariant boots "server_step print_json" table_ok
  for print_json :: "json_item list \<Rightarrow> byte list option"
proof
  fix t assume "boots t"
  then show "table_ok t" unfolding boots_def by (auto intro: survives_after configured_table)
next
  fix s t assume s: "table_ok s" and "server_step print_json s t"
  from this(2) show "table_ok t"
  proof cases
    case (request ev)
    then show ?thesis by (rule survives_after) (rule keepsD [OF keeps_table_handler s])
  next
    case outside
    then show ?thesis using s by (rule table_outside)
  qed
qed

lemma reachable_table: "reachable print_json s \<Longrightarrow> table_ok s"
  unfolding reachable_def by (rule table.always)

text \<open>
  C3. In every state the server can reach, the session table is consistent (as long as at most
  \<open>2 ^ 16\<close> identifiers have been drawn from the counter): the registry is well formed and holds exactly the live
  sessions, each at the index of its own identifier, and those identifiers are accounted as in use.
\<close>

theorem reachable_table_ok: "reachable print_json s \<Longrightarrow> table_ok s"
  unfolding reachable_def by (rule table.always)

text \<open>
  C4. In every state the server can reach by whole requests while at most \<open>2 ^ 16\<close> identifiers have been
  drawn, a registered pointer is never dangling, is registered once, names its own index, and its
  identifier does not wait in the pool, so no other session can be given it: neither two sessions
  with one identifier nor one under two. (Past that bound two sessions may share an identifier, which is
  kept in 16 bits.)
\<close>

theorem registered_sessions:
  assumes "reachable print_json s" "ids_bounded s" "registered s k \<noteq> NULL"
  shows "\<exists>m. sessions s (registered s k) = Some m \<and> uint (sessionId m) = int k \<and>
    int k \<notin> set (pooled (identifiers s)) \<and> int k < current_highest_id (identifiers s) \<and>
    (\<forall>j. registered s j = registered s k \<longrightarrow> j = k)"
proof -
  have core: "table_core s" using reachable_table [OF assms(1)] assms(2) by (simp add: table_ok_def)
  obtain m where m: "sessions s (registered s k) = Some m" "unat (sessionId m) = k"
    using core assms(3) by (rule table_core_registered)
  have once: "j = k" if j: "registered s j = registered s k" for j
  proof -
    from j assms(3) have "registered s j \<noteq> NULL" by simp
    with core obtain n where "sessions s (registered s j) = Some n" "unat (sessionId n) = j" by (rule table_core_registered)
    then show ?thesis using m j by simp
  qed
  obtain used where u: "ids_ok (identifiers s) used" "int k \<in> used"
    using table_core_ids [OF core] assms(3) by (auto simp: ids_cover_def)
  then have "int k \<notin> set (pooled (identifiers s))" "int k < current_highest_id (identifiers s)"
    by (auto simp: ids_ok_def)
  moreover have "uint (sessionId m) = int k" using int_eq_uint [of k "sessionId m"] m(2) by simp
  ultimately show ?thesis using m(1) once by blast
qed

text \<open>
  C16. The whole thread of a client, from the accepted connection to its clean-up, whatever it sends and
  whatever \<^verbatim>\<open>select\<close> reports, takes a consistent table to a consistent table, also where it ends inside a
  handler.
\<close>

theorem lifecycle_keeps_table:
  assumes "table_ok s"
  shows "after table_ok (executePlayerNodeLifecycle print_json polls fd s)"
proof -
  have "keeps table_ok (executePlayerNodeLifecycle print_json polls fd)"
    unfolding executePlayerNodeLifecycle_def by (intro keeps_rules) simp
  then show ?thesis using assms by (rule keepsD)
qed

section \<open>A server at work\<close>

fun serve_all :: "(json_item list \<Rightarrow> byte list option) \<Rightarrow> event list \<Rightarrow> (server, unit) cmd" where
  "serve_all print_json [] = ret ()"
| "serve_all print_json (e # es) = andThen (handler print_json e) (\<lambda>_. serve_all print_json es)"

lemma serve_all_reachable:
  assumes "reachable print_json s" "serve_all print_json es s = Done () t"
  shows "reachable print_json t"
  using assms
proof (induction es arbitrary: s)
  case (Cons e es)
  then obtain u where u: "handler print_json e s = Done () u" "serve_all print_json es u = Done () t"
    by (auto simp: andThen_eq_Done)
  have "survives (handler print_json e s) u" using u(1) by (simp add: survives_def)
  then have "server_step print_json s u" by (rule request)
  with Cons.prems(1) have "reachable print_json u" unfolding reachable_def by (rule reached_step)
  then show ?case using u(2) by (rule Cons.IH)
qed (simp add: ret_def)

text \<open>
  Before start-up: the client on socket 7 will send the name \<^verbatim>\<open>Ann\<close>; two struct addresses wait in the
  allocator.
\<close>

definition chunks :: "byte list \<Rightarrow> recv_event list" where
  "chunks bs = (case bs of [] \<Rightarrow> [] | b # bs' \<Rightarrow> [Chunk b bs'])"

definition cold :: "(u32 \<Rightarrow> byte list) \<Rightarrow> u64 list \<Rightarrow> server" where
  "cold input addresses =
     \<lparr>activePlayerNodes = static_store, activeMatchSessions = static_store, identifiers = initial_ids,
      nodes = Map.empty, sessions = Map.empty, channels = (\<lambda>fd. chunks (input fd)), errno = 0, sent = [], closed = [],
      struct_addresses = addresses, memory_grants = [], randoms = [], stack_junk = (\<lambda>_. 0), reset_peers = [],
      clock = [], global_listen_descriptor = 0\<rparr>"

definition booted :: "(u32 \<Rightarrow> byte list) \<Rightarrow> u64 list \<Rightarrow> server" where
  "booted input addresses =
     (case configure_stores True True (process_start (cold input addresses)) of Done _ t \<Rightarrow> t | _ \<Rightarrow> cold input addresses)"

definition ann_says :: "u32 \<Rightarrow> byte list" where
  "ann_says fd = (if fd = 7 then net32 3 @ ascii ''Ann'' else [])"

definition ann_served :: "(unit, server) outcome" where
  "ann_served = serve_all (\<lambda>_. None) [Connects 7, Creates 1] (booted ann_says [1, 2])"

lemma ann_run: "case ann_served of Done _ t \<Rightarrow> registered t 0 = 2 \<and> current_highest_id (identifiers t) = 1 | _ \<Rightarrow> False"
  by code_simp

lemma booted_boots:
  assumes "case configure_stores True True (process_start (cold input addresses)) of Done _ t \<Rightarrow> True | _ \<Rightarrow> False"
  shows "boots (booted input addresses)"
proof -
  obtain t where "configure_stores True True (process_start (cold input addresses)) = Done () t"
    using assms by (auto split: outcome.splits)
  then show ?thesis unfolding boots_def
    by (intro exI [of _ True] exI [of _ "cold input addresses"]) (simp add: booted_def survives_def)
qed

lemma booted_reachable:
  assumes "case configure_stores True True (process_start (cold input addresses)) of Done _ t \<Rightarrow> True | _ \<Rightarrow> False"
  shows "reachable print_json (booted input addresses)"
  unfolding reachable_def by (intro reached_start booted_boots assms)

lemma ann_reachable:
  obtains t where "ann_served = Done () t" "reachable (\<lambda>_. None) t" "registered t 0 = 2" "ids_bounded t"
proof -
  obtain t where t: "ann_served = Done () t" "registered t 0 = 2" "current_highest_id (identifiers t) = 1"
    using ann_run by (auto split: outcome.splits)
  have "case configure_stores True True (process_start (cold ann_says [1, 2])) of Done _ t \<Rightarrow> True | _ \<Rightarrow> False"
    by code_simp
  then have "reachable (\<lambda>_. None) (booted ann_says [1, 2])" by (rule booted_reachable)
  then have "reachable (\<lambda>_. None) t" using t(1) unfolding ann_served_def by (rule serve_all_reachable)
  then show thesis using t that by (simp add: ids_bounded_def)
qed

theorem reachable_table_ok_witness: "\<exists>t. ann_served = Done () t \<and> registered t 0 = 2 \<and> table_ok t"
  using ann_reachable reachable_table_ok by metis

theorem registered_sessions_witness:
  "\<exists>t m. ann_served = Done () t \<and> sessions t 2 = Some m \<and> uint (sessionId m) = 0 \<and> 0 \<notin> set (pooled (identifiers t))"
proof -
  obtain t where t: "ann_served = Done () t" "reachable (\<lambda>_. None) t" "registered t 0 = 2" "ids_bounded t"
    by (rule ann_reachable)
  have "registered t 0 \<noteq> NULL" using t(3) by simp
  from registered_sessions [OF t(2,4) this] t(1,3) show ?thesis by auto
qed

text \<open>A client that creates a session and goes: its session goes with it.\<close>

definition bob_says :: "u32 \<Rightarrow> byte list" where
  "bob_says fd = (if fd = 7 then net_opcode OP_BUILD_MATCH_SESSION @ net32 3 @ ascii ''Bob'' @ net_opcode OP_TERMINATE_LINK else [])"

definition bob_served :: "(unit, server) outcome" where
  "bob_served = executePlayerNodeLifecycle (\<lambda>_. None) [Readable, Readable, Quiet] 7 (booted bob_says [1, 2])"

lemma bob_run:
  "case bob_served of Done _ t \<Rightarrow> registered t 0 = 0 \<and> pooled (identifiers t) = [0] \<and> closed t = [7] | _ \<Rightarrow> False"
  by code_simp

theorem lifecycle_keeps_table_witness:
  "\<exists>t. bob_served = Done () t \<and> registered t 0 = NULL \<and> pooled (identifiers t) = [0] \<and> closed t = [7] \<and> table_ok t"
proof -
  obtain t where t: "bob_served = Done () t" "registered t 0 = 0" "pooled (identifiers t) = [0]" "closed t = [7]"
    using bob_run by (auto split: outcome.splits)
  have "case configure_stores True True (process_start (cold bob_says [1, 2])) of Done _ t \<Rightarrow> True | _ \<Rightarrow> False"
    by code_simp
  then have "reachable (\<lambda>_. None) (booted bob_says [1, 2])" by (rule booted_reachable)
  then have "table_ok (booted bob_says [1, 2])" by (rule reachable_table)
  from lifecycle_keeps_table [OF this, of "\<lambda>_. None" "[Readable, Readable, Quiet]" 7] t
  show ?thesis by (simp add: bob_served_def)
qed

end
