(* ===== verification/Connections.thy ===== *)
theory Connections
  imports Roster_Frame Leaving System
begin

text \<open>
  Connecting and leaving on the registry of players: what \<^verbatim>\<open>enter_link\<close> and \<^verbatim>\<open>leave_link\<close> do to it in every
  case, as long as its pointers are live and no two of them are on one socket.
\<close>

abbreviation player :: "server \<Rightarrow> nat \<Rightarrow> u64" where
  "player s \<equiv> entry (activePlayerNodes s)"

definition players_live :: "server \<Rightarrow> bool" where
  "players_live s \<longleftrightarrow> roster_ok (activePlayerNodes s) \<and> (\<forall>k. player s k \<noteq> NULL \<longrightarrow> nodes s (player s k) \<noteq> None)"

lemma fetch_player_run:
  assumes "roster_ok (activePlayerNodes s)" "k \<le> unat SIZE_MAX"
  shows "fetch_player k s = Done (if k < unat (allocated_slots (activePlayerNodes s)) then 0 else -1, player s k) s"
proof -
  have "unat (word_of_nat k :: u64) = k" using assms(2) by (simp add: unat_of_nat)
  then show ?thesis
    using fetch_spec [of "activePlayerNodes s" "word_of_nat k"] roster_okD(2) [OF assms(1)]
    by (auto simp: fetch_player_def on_players_def t_fetch_def entry_def pointers_def cmd_defs outcome_simps)
qed

lemma scan_players_skip:
  "(\<And>k. k \<in> set ks \<Longrightarrow> body k s = Done True s) \<Longrightarrow> scan_players ks body s = Done () s"
  by (induction ks) (simp_all add: cmd_defs)

section \<open>Connecting\<close>

lemma greet_run:
  assumes "players_live s"
  shows "for_players (\<lambda>k. andThen (fetch_player k) (\<lambda>(_, p). andThen (dumpPlayerNodeDiagnostics p) (\<lambda>_. ret True))) s = Done () s"
proof -
  have "andThen (fetch_player k) (\<lambda>(_, p). andThen (dumpPlayerNodeDiagnostics p) (\<lambda>_. ret True)) s = Done True s"
    if "k \<in> set [0..<unat (allocated_slots (activePlayerNodes s))]" for k
  proof -
    have "dumpPlayerNodeDiagnostics (player s k) s = Done () s"
      using assms by (intro dump_player_live) (auto simp: players_live_def)
    then show ?thesis
      using fetch_player_run [of s k] index_le [OF that] assms by (simp add: players_live_def andThen_def ret_def)
  qed
  then show ?thesis unfolding for_players_def gets_run by (rule scan_players_skip)
qed

lemma append_player_run:
  fixes p :: u64
  assumes "roster_ok (activePlayerNodes s)"
  defines "add \<equiv> with_grant (\<lambda>al. on_players (on_fst (append_to_store al (Some (ptr_bytes p)))))"
  shows "(\<exists>st gs. add s = Done 0 (s\<lparr>activePlayerNodes := st, memory_grants := gs\<rparr>) \<and> roster_ok st \<and>
      entry st = (player s)(unat (occupied_slots (activePlayerNodes s)) := p)) \<or>
    (\<exists>gs. add s = Done (-1) (s\<lparr>memory_grants := gs\<rparr>)) \<or> add s = Fault Out_Of_Bounds"
proof -
  obtain b gs where g: "take_grant (memory_grants s) = (b, gs)" by (metis prod.exhaust)
  let ?w = "s\<lparr>memory_grants := gs\<rparr>" and ?call = "append_to_store (one_grant b) (Some (ptr_bytes p)) (Some (activePlayerNodes s))"
  have run: "add s = (case ?call of Done rc r \<Rightarrow> Done rc (?w\<lparr>activePlayerNodes := the r\<rparr>)
      | Exited r \<Rightarrow> Exited (?w\<lparr>activePlayerNodes := the r\<rparr>)
      | Halted r \<Rightarrow> Halted (?w\<lparr>activePlayerNodes := the r\<rparr>) | Fault f \<Rightarrow> Fault f)"
    using g by (simp add: add_def with_grant_def on_players_def on_fst_apply split: outcome.splits)
  from append_roster [OF assms(1), of "one_grant b" p] consider
      st where "?call = Done 0 (Some st)" "roster_ok st" "entry st = (player s)(unat (occupied_slots (activePlayerNodes s)) := p)"
    | "?call = Done (-1) (Some (activePlayerNodes s))" | "?call = Fault Out_Of_Bounds" by blast
  then show ?thesis
  proof cases
    case 1
    then have "add s = Done 0 (s\<lparr>activePlayerNodes := st, memory_grants := gs\<rparr>)" using run by simp
    with 1 show ?thesis by blast
  next
    case 2
    then have "add s = Done (-1) ?w" using run by simp
    then show ?thesis by blast
  next
    case 3
    then show ?thesis using run by simp
  qed
qed

text \<open>
  Everything that can come of a connection: a new player in the roster, a thread that ends with the
  roster as it was, the end of the process, or, after too many lost players, a write behind the block.
\<close>

lemma enter_link_cases:
  assumes "players_live s"
  shows "case enter_link fd s of
      Done p t \<Rightarrow> p \<noteq> NULL \<and> nodes s p = None \<and> socket_of t = (socket_of s)(p \<mapsto> fd) \<and> roster_ok (activePlayerNodes t) \<and>
        player t = (player s)(unat (occupied_slots (activePlayerNodes s)) := p) \<and>
        sessions t = sessions s \<and> identifiers t = identifiers s
    | Exited t \<Rightarrow> activePlayerNodes t = activePlayerNodes s \<and> socket_of t = socket_of s \<and>
        sessions t = sessions s \<and> identifiers t = identifiers s
    | Halted t \<Rightarrow> True
    | Fault f \<Rightarrow> f = Out_Of_Bounds"
proof -
  obtain p as where m: "malloc_struct s = Done p (s\<lparr>struct_addresses := as\<rparr>)" and fresh: "p = NULL \<or> nodes s p = None"
  proof (cases "struct_addresses s")
    case Nil
    then have "malloc_struct s = Done NULL (s\<lparr>struct_addresses := []\<rparr>)" by (simp add: malloc_struct_def)
    then show thesis using that by blast
  next
    case (Cons q qs)
    then show thesis using that by (auto simp: malloc_struct_def split: if_splits)
  qed
  show ?thesis
  proof (cases "p = NULL")
    case True
    then show ?thesis using m by (simp add: enter_link_def close_socket_def cmd_defs)
  next
    case False
    then have vacant: "nodes s p = None" "socket_of s p = None" using fresh by (simp_all add: socket_of_def)
    then have restored: "(socket_of s)(p := None) = socket_of s" by (simp add: fun_upd_idem)
    obtain b gs where g: "take_grant (memory_grants s) = (b, gs)" by (metis prod.exhaust)
    define u where "u = s\<lparr>struct_addresses := as, nodes := (nodes s)(p \<mapsto> fresh_node fd), memory_grants := gs\<rparr>"
    have u: "activePlayerNodes u = activePlayerNodes s" "socket_of u = (socket_of s)(p \<mapsto> fd)" "sessions u = sessions s"
      "identifiers u = identifiers s" "nodes u p \<noteq> None" "reset_peers u = reset_peers s"
      by (auto simp: u_def fresh_node_def socket_of_def fun_eq_iff)
    have freed: "free_node p (v\<lparr>memory_grants := hs\<rparr>) = Done () (v\<lparr>memory_grants := hs, nodes := (nodes v)(p := None)\<rparr>)"
      if "nodes v p \<noteq> None" for v :: server and hs using that by (simp add: free_node_def)
    define v where "v = u\<lparr>sent := sent u @ [(fd, net32 fd)]\<rparr>"
    have v: "players_live v" using assms u(1) vacant(1) unfolding players_live_def by (auto simp: v_def u_def)
    have run: "enter_link fd s =
        (if \<not> b then andThen (free_node p) (\<lambda>_. andThen (close_socket fd) (\<lambda>_. thread_exit)) u
         else if fd \<in> set (reset_peers s) then Halted u
         else andThen (with_grant (\<lambda>al. on_players (on_fst (append_to_store al (Some (ptr_bytes p)))))) (\<lambda>alloc_code.
           if alloc_code \<noteq> 0 then andThen (free_node p) (\<lambda>_. thread_exit) else ret p) v)"
      using m False g u(6) greet_run [OF v]
      by (simp add: enter_link_def andThen_def modify_def system_grant_def send_bytes_def ret_def thread_exit_def
          flip: u_def v_def)
    show ?thesis
    proof (cases "b \<and> fd \<notin> set (reset_peers s)")
      case True
      have "roster_ok (activePlayerNodes v)" using v by (simp add: players_live_def)
      from append_player_run [OF this, of p] consider
          st hs where "with_grant (\<lambda>al. on_players (on_fst (append_to_store al (Some (ptr_bytes p))))) v =
            Done 0 (v\<lparr>activePlayerNodes := st, memory_grants := hs\<rparr>)" "roster_ok st"
            "entry st = (player v)(unat (occupied_slots (activePlayerNodes v)) := p)"
        | hs where "with_grant (\<lambda>al. on_players (on_fst (append_to_store al (Some (ptr_bytes p))))) v = Done (-1) (v\<lparr>memory_grants := hs\<rparr>)"
        | "with_grant (\<lambda>al. on_players (on_fst (append_to_store al (Some (ptr_bytes p))))) v = Fault Out_Of_Bounds"
        by blast
      then show ?thesis
      proof cases
        case 1
        then show ?thesis using run True False vacant(1) u by (simp add: andThen_def ret_def v_def)
      next
        case 2
        then show ?thesis using run True u restored freed [of v hs]
          by (simp add: andThen_def thread_exit_def v_def free_node_def)
      next
        case 3
        then show ?thesis using run True by (simp add: andThen_def)
      qed
    next
      case other: False
      then show ?thesis using run u restored by (auto simp: andThen_def free_node_def close_socket_def modify_def thread_exit_def)
    qed
  qed
qed

section \<open>Leaving\<close>

text \<open>The state in which the player of slot \<open>k\<close> has been removed and destroyed.\<close>

definition expelled :: "server \<Rightarrow> nat \<Rightarrow> server \<Rightarrow> bool" where
  "expelled s k t \<longleftrightarrow> (\<exists>st gs. t = s\<lparr>memory_grants := gs, nodes := (nodes s)(player s k := None), activePlayerNodes := st\<rparr> \<and>
     roster_ok st \<and> entry st = (player s)(k := NULL))"

text \<open>Only a node whose lock is free can be destroyed.\<close>

definition lock_fault :: "player_node \<Rightarrow> fault" where
  "lock_fault n = (if streamLock n = Locked then Held_Mutex else Dead_Mutex)"

lemma destroy_player_run:
  assumes "bytes_ptr slot = p" "p \<noteq> NULL" "nodes s p = Some n"
  shows "destroyPlayerNodeInstance slot s =
    (if streamLock n = Unlocked then Done slot (s\<lparr>nodes := (nodes s)(p := None)\<rparr>) else Fault (lock_fault n))"
  using assms
  by (cases "streamLock n")
    (simp_all add: destroyPlayerNodeInstance_def destroy_lock_def lock_fault_def set_node_def get_node_def free_node_def cmd_defs)

lemma remove_player_run:
  assumes ok: "roster_ok (activePlayerNodes s)" and k: "k \<le> unat SIZE_MAX" "player s k \<noteq> NULL"
    and n: "nodes s (player s k) = Some n"
  shows "if streamLock n = Unlocked
    then \<exists>t. with_grant (\<lambda>al. on_players (excise_at_offset al (word_of_nat k) (Some destroyPlayerNodeInstance))) s = Done 0 t \<and>
      expelled s k t
    else with_grant (\<lambda>al. on_players (excise_at_offset al (word_of_nat k) (Some destroyPlayerNodeInstance))) s = Fault (lock_fault n)"
proof -
  let ?R = "activePlayerNodes s" and ?k = "word_of_nat k :: u64"
  obtain b gs where g: "take_grant (memory_grants s) = (b, gs)" by (metis prod.exhaust)
  let ?w = "s\<lparr>memory_grants := gs\<rparr>" and ?w' = "s\<lparr>memory_grants := gs, nodes := (nodes s)(player s k := None)\<rparr>"
  have uk: "unat ?k = k" using k(1) by (simp add: unat_of_nat)
  have i: "k < unat (allocated_slots ?R)" using entry_in_range [OF k(2)] .
  have slot: "bytes_ptr (cells (table_of ?R) ! k) = player s k" using i by (simp add: entry_simps)
  have len: "length (cells (table_of ?R) ! k) = 8"
    using cell_width [of ?R k] i roster_okD(2,3) [OF ok] by (simp add: da_ok_def)
  have run: "destroyPlayerNodeInstance (cells (table_of ?R) ! k) ?w =
      (if streamLock n = Unlocked then Done (cells (table_of ?R) ! k) ?w' else Fault (lock_fault n))"
    using destroy_player_run [OF slot k(2), of ?w n] n by simp
  show ?thesis
  proof (cases "streamLock n = Unlocked")
    case True
    then have hook: "hook_yields (Some destroyPlayerNodeInstance) (cells (table_of ?R) ! unat ?k) ?w ?w'"
      using uk run by (simp add: hook_yields_def)
    have "entry ?R (unat ?k) \<noteq> NULL" using k(2) uk by simp
    from excise_roster [OF ok this hook, of "one_grant b"] obtain st where
      "excise_at_offset (one_grant b) ?k (Some destroyPlayerNodeInstance) (Some ?R, ?w) = Done 0 (Some st, ?w')"
      "roster_ok st" "entry st = (entry ?R)(k := NULL)" using uk by auto
    then show ?thesis using g True by (auto simp: with_grant_def on_players_def expelled_def)
  next
    case False
    have "excise_at_offset (one_grant b) ?k (Some destroyPlayerNodeInstance) (Some ?R, ?w) = Fault (lock_fault n)"
      using roster_okD(2) [OF ok] i uk run False by (intro excise_hook_fault) (simp_all add: word_less_nat_alt)
    then show ?thesis using g False by (simp add: with_grant_def on_players_def)
  qed
qed

text \<open>
  The scan removes the first player on the socket and stops, which is undefined while that player's lock
  is held; without one it changes nothing.
\<close>

abbreviation on_socket :: "server \<Rightarrow> u32 \<Rightarrow> nat \<Rightarrow> bool" where
  "on_socket s fd k \<equiv> player s k \<noteq> NULL \<and> socket_of s (player s k) = Some fd"

definition held_at :: "server \<Rightarrow> nat \<Rightarrow> fault \<Rightarrow> bool" where
  "held_at s k f \<longleftrightarrow> (\<exists>n. nodes s (player s k) = Some n \<and> streamLock n \<noteq> Unlocked \<and> f = lock_fault n)"

abbreviation unheld :: "server \<Rightarrow> nat \<Rightarrow> bool" where
  "unheld s k \<equiv> \<exists>n. nodes s (player s k) = Some n \<and> streamLock n = Unlocked"

lemma expel_run:
  assumes live: "players_live s"
  shows "(\<exists>k t. expel_player fd s = Done () t \<and> on_socket s fd k \<and> unheld s k \<and> expelled s k t) \<or>
    (\<exists>k f. expel_player fd s = Fault f \<and> on_socket s fd k \<and> held_at s k f) \<or>
    (expel_player fd s = Done () s \<and> (\<forall>k. \<not> on_socket s fd k))"
proof -
  let ?n = "unat (allocated_slots (activePlayerNodes s))"
  define body where "body = (\<lambda>idx. andThen (fetch_player idx) (\<lambda>(_ :: int, disposal_ptr).
       if disposal_ptr \<noteq> NULL then
         andThen (get_node disposal_ptr) (\<lambda>n.
         if socketDescriptor n = fd then
           andThen (with_grant (\<lambda>al. on_players (excise_at_offset al (word_of_nat idx) (Some destroyPlayerNodeInstance)))) (\<lambda>_.
           ret False)
         else ret True)
       else ret True))"
  have ok: "roster_ok (activePlayerNodes s)" using live by (simp add: players_live_def)
  have body: "(\<exists>t. body k s = Done False t \<and> on_socket s fd k \<and> unheld s k \<and> expelled s k t) \<or>
      (\<exists>f. body k s = Fault f \<and> on_socket s fd k \<and> held_at s k f) \<or> (body k s = Done True s \<and> \<not> on_socket s fd k)"
    if k: "k \<le> unat SIZE_MAX" for k
  proof (cases "player s k = NULL")
    case True
    then show ?thesis using fetch_player_run [OF ok k] by (simp add: body_def cmd_defs)
  next
    case False
    then obtain n where n: "nodes s (player s k) = Some n" using live by (auto simp: players_live_def)
    have "socket_of s (player s k) = Some (socketDescriptor n)" using n by (simp add: socket_of_def)
    then show ?thesis
      using fetch_player_run [OF ok k] get_node_live [OF False n] remove_player_run [OF ok k False n] False n
      by (cases "streamLock n = Unlocked") (auto simp: body_def held_at_def cmd_defs)
  qed
  have scan: "(\<exists>k t. scan_players ks body s = Done () t \<and> on_socket s fd k \<and> unheld s k \<and> expelled s k t) \<or>
      (\<exists>k f. scan_players ks body s = Fault f \<and> on_socket s fd k \<and> held_at s k f) \<or>
      (scan_players ks body s = Done () s \<and> (\<forall>k\<in>set ks. \<not> on_socket s fd k))" if "\<forall>k\<in>set ks. k < ?n" for ks
    using that
  proof (induction ks)
    case (Cons k ks)
    have "k \<le> unat SIZE_MAX" using Cons.prems index_le [of k "allocated_slots (activePlayerNodes s)"] by simp
    from body [OF this] consider
        t where "body k s = Done False t" "on_socket s fd k" "unheld s k" "expelled s k t"
      | f where "body k s = Fault f" "on_socket s fd k" "held_at s k f"
      | "body k s = Done True s" "\<not> on_socket s fd k" by blast
    then show ?case
    proof cases
      case (1 t)
      then have "scan_players (k # ks) body s = Done () t" using Cons.prems by (simp add: cmd_defs)
      then show ?thesis using 1(2-4) by blast
    next
      case (2 f)
      then have "scan_players (k # ks) body s = Fault f" using Cons.prems by (simp add: cmd_defs)
      then show ?thesis using 2(2,3) by blast
    next
      case 3
      then have "scan_players (k # ks) body s = scan_players ks body s" using Cons.prems by (simp add: cmd_defs)
      then show ?thesis using 3(2) Cons by simp
    qed
  qed (simp add: ret_def)
  have "expel_player fd s = scan_players [0..<?n] body s"
    by (simp add: expel_player_def for_players_def gets_run body_def)
  moreover have "(\<forall>k\<in>set [0..<?n]. \<not> on_socket s fd k) \<longrightarrow> (\<forall>k. \<not> on_socket s fd k)"
    using entry_in_range [of "activePlayerNodes s"] by auto
  ultimately show ?thesis using scan [of "[0..<?n]"] by auto
qed

end
