(* ===== verification/Threads.thy ===== *)
theory Threads
  imports Connections
begin

text \<open>
  The server with its client threads. A thread is a socket and the node it works for; a socket is open
  from the moment \<^verbatim>\<open>accept\<close> returns it until it is closed, and \<^verbatim>\<open>accept\<close> never returns an open one. A thread
  that ends inside a handler leaves its socket open and its node behind. Requests of different
  threads interleave at the grain of a request. The invariant ties the threads to the registry of
  players and the sessions to their owners.
\<close>

section \<open>Threads\<close>

record world =
  core :: server
  links :: "u32 \<Rightarrow> u64 option"
  opened :: "u32 set"

text \<open>The requests a thread can serve for its own client.\<close>

fun own_request :: "u32 \<Rightarrow> u64 \<Rightarrow> event \<Rightarrow> bool" where
  "own_request fd p (Creates q) = (q = p)"
| "own_request fd p (Joins q) = (q = p)"
| "own_request fd p (Lists d) = (d = fd)"
| "own_request fd p (Checks q lk) = (q = p)"
| "own_request fd p _ = False"

inductive world_step :: "(json_item list \<Rightarrow> byte list option) \<Rightarrow> world \<Rightarrow> world \<Rightarrow> bool"
  for print_json where
  connects: "fd \<notin> opened w \<Longrightarrow> enter_link fd (core w) = Done p t \<Longrightarrow>
    world_step print_json w \<lparr>core = t, links = (links w)(fd \<mapsto> p), opened = insert fd (opened w)\<rparr>"
| turned_away: "fd \<notin> opened w \<Longrightarrow> enter_link fd (core w) = Exited t \<Longrightarrow>
    world_step print_json w \<lparr>core = t, links = links w,
      opened = (if closed t = closed (core w) then insert fd (opened w) else opened w)\<rparr>"
| serves: "links w fd = Some p \<Longrightarrow> own_request fd p ev \<Longrightarrow> handler print_json ev (core w) = Done () t \<Longrightarrow>
    world_step print_json w (w\<lparr>core := t\<rparr>)"
| drops: "links w fd = Some p \<Longrightarrow> own_request fd p ev \<Longrightarrow> handler print_json ev (core w) = Exited t \<Longrightarrow>
    world_step print_json w (w\<lparr>core := t, links := (links w)(fd := None)\<rparr>)"
| departs: "links w fd = Some p \<Longrightarrow> leave_link p fd (core w) = Done () t \<Longrightarrow>
    world_step print_json w \<lparr>core = t, links = (links w)(fd := None), opened = opened w - {fd}\<rparr>"
| drifts: "outside_change (core w) t \<Longrightarrow> world_step print_json w (w\<lparr>core := t\<rparr>)"

definition world_boots :: "world \<Rightarrow> bool" where
  "world_boots w \<longleftrightarrow> boots (core w) \<and> links w = Map.empty"

abbreviation world_reached :: "(json_item list \<Rightarrow> byte list option) \<Rightarrow> world \<Rightarrow> bool" where
  "world_reached print_json \<equiv> reached world_boots (world_step print_json)"

text \<open>Forgetting the threads gives a run of the server.\<close>

interpretation forget: projection world_boots "world_step print_json" boots "server_step print_json" core
  for print_json :: "json_item list \<Rightarrow> byte list option"
proof
  fix w assume "world_boots w"
  then show "boots (core w)" by (simp add: world_boots_def)
next
  fix w v assume "world_step print_json w v"
  then show "server_step print_json (core w) (core v)"
  proof cases
    case (connects fd p t)
    then have "survives (handler print_json (Connects fd) (core w)) t" by (simp add: survives_def andThen_def ret_def)
    then have "server_step print_json (core w) t" by (rule request)
    then show ?thesis using connects by simp
  next
    case (turned_away fd t)
    then have "survives (handler print_json (Connects fd) (core w)) t" by (simp add: survives_def andThen_def)
    then have "server_step print_json (core w) t" by (rule request)
    then show ?thesis using turned_away by simp
  next
    case (serves fd p ev t)
    then have "survives (handler print_json ev (core w)) t" by (simp add: survives_def)
    then have "server_step print_json (core w) t" by (rule request)
    then show ?thesis using serves by simp
  next
    case (drops fd p ev t)
    then have "survives (handler print_json ev (core w)) t" by (simp add: survives_def)
    then have "server_step print_json (core w) t" by (rule request)
    then show ?thesis using drops by simp
  next
    case (departs fd p t)
    then have "survives (handler print_json (Leaves p fd) (core w)) t" by (simp add: survives_def)
    then have "server_step print_json (core w) t" by (rule request)
    then show ?thesis using departs by simp
  next
    case (drifts t)
    then show ?thesis by (auto intro: outside)
  qed
qed

section \<open>The invariant\<close>

text \<open>
  In terms of the roster \<open>R\<close>, the sockets \<open>S\<close> of the live nodes, the threads \<open>L\<close> and the open sockets \<open>U\<close>:
  a registered player is live, on an open socket of its own; a thread's node is live on the thread's
  socket, which is open, and a registered player on that socket is that node.
\<close>

definition linked :: "dyn_array \<Rightarrow> (u64 \<Rightarrow> u32 option) \<Rightarrow> (u32 \<Rightarrow> u64 option) \<Rightarrow> u32 set \<Rightarrow> bool" where
  "linked R S L U \<longleftrightarrow> roster_ok R \<and> S NULL = None \<and>
     (\<forall>k. entry R k \<noteq> NULL \<longrightarrow> (\<exists>fd\<in>U. S (entry R k) = Some fd)) \<and>
     (\<forall>i j. entry R i \<noteq> NULL \<longrightarrow> entry R j \<noteq> NULL \<longrightarrow> S (entry R i) = S (entry R j) \<longrightarrow> i = j) \<and>
     (\<forall>fd p. L fd = Some p \<longrightarrow> p \<noteq> NULL \<and> fd \<in> U \<and> S p = Some fd \<and>
        (\<forall>k. entry R k \<noteq> NULL \<longrightarrow> S (entry R k) = Some fd \<longrightarrow> entry R k = p))"

definition world_ok :: "world \<Rightarrow> bool" where
  "world_ok w \<longleftrightarrow> linked (activePlayerNodes (core w)) (socket_of (core w)) (links w) (opened w) \<and>
     (ids_bounded (core w) \<longrightarrow> owners_live (socket_of (core w)) (core w)) \<and> table_ok (core w)"

lemma linkedD:
  assumes "linked R S L U"
  shows "roster_ok R" "S NULL = None"
    "entry R k \<noteq> NULL \<Longrightarrow> \<exists>fd\<in>U. S (entry R k) = Some fd"
    "entry R i \<noteq> NULL \<Longrightarrow> entry R j \<noteq> NULL \<Longrightarrow> S (entry R i) = S (entry R j) \<Longrightarrow> i = j"
    "L fd = Some p \<Longrightarrow> p \<noteq> NULL \<and> fd \<in> U \<and> S p = Some fd"
    "L fd = Some p \<Longrightarrow> entry R k \<noteq> NULL \<Longrightarrow> S (entry R k) = Some fd \<Longrightarrow> entry R k = p"
  using assms unfolding linked_def by blast+

lemma linked_wider: "linked R S L U \<Longrightarrow> U \<subseteq> V \<Longrightarrow> linked R S L V"
  unfolding linked_def by blast

lemma linked_unlink: "linked R S L U \<Longrightarrow> linked R S (L(fd := None)) U"
  unfolding linked_def by simp

lemma linked_connect:
  assumes old: "linked R S L U" and fd: "fd \<notin> U" and p: "p \<noteq> NULL" "S p = None"
    and new: "roster_ok R'" "entry R' = (entry R)(n := p)"
  shows "linked R' (S(p \<mapsto> fd)) (L(fd \<mapsto> p)) (insert fd U)"
proof -
  have other: "entry R k \<noteq> p" "S (entry R k) \<noteq> Some fd" if "entry R k \<noteq> NULL" for k
    using linkedD(3) [OF old that] p(2) fd by auto
  have thread: "q \<noteq> p" "d \<noteq> fd" if "L d = Some q" for d q
    using linkedD(5) [OF old that] p(2) fd by auto
  show ?thesis unfolding linked_def
  proof (intro conjI allI impI)
    show "roster_ok R'" by (rule new)
    show "(S(p \<mapsto> fd)) NULL = None" using linkedD(2) [OF old] p(1) by simp
  next
    fix k assume "entry R' k \<noteq> NULL"
    then show "\<exists>d\<in>insert fd U. (S(p \<mapsto> fd)) (entry R' k) = Some d"
      using linkedD(3) [OF old, of k] other(1) [of k] by (cases "k = n") (auto simp: new(2))
  next
    fix i j
    assume "entry R' i \<noteq> NULL" "entry R' j \<noteq> NULL" "(S(p \<mapsto> fd)) (entry R' i) = (S(p \<mapsto> fd)) (entry R' j)"
    then show "i = j"
      using linkedD(4) [OF old, of i j] other [of i] other [of j] by (auto simp: new(2) split: if_splits)
  next
    fix d q assume l: "(L(fd \<mapsto> p)) d = Some q"
    show "q \<noteq> NULL" "d \<in> insert fd U" "(S(p \<mapsto> fd)) q = Some d"
      using l linkedD(5) [OF old, of d q] thread [of d q] p by (auto split: if_splits)
    fix k assume "entry R' k \<noteq> NULL" "(S(p \<mapsto> fd)) (entry R' k) = Some d"
    then show "entry R' k = q"
      using l linkedD(6) [OF old, of d q k] thread(2) [of d q] other [of k] by (auto simp: new(2) split: if_splits)
  qed
qed

lemma linked_depart:
  assumes old: "linked R S L U" and l: "L fd = Some p"
    and out: "(\<forall>k. entry R k \<noteq> NULL \<longrightarrow> S (entry R k) \<noteq> Some fd) \<and> R' = R \<and> S' = S \<or>
      (\<exists>k. entry R k \<noteq> NULL \<and> S (entry R k) = Some fd \<and> roster_ok R' \<and> entry R' = (entry R)(k := NULL) \<and> S' = S(entry R k := None))"
  shows "linked R' S' (L(fd := None)) (U - {fd})"
  using out
proof (elim disjE conjE exE)
  assume no: "\<forall>k. entry R k \<noteq> NULL \<longrightarrow> S (entry R k) \<noteq> Some fd" and same: "R' = R" "S' = S"
  show ?thesis unfolding linked_def same
  proof (intro conjI allI impI)
    show "roster_ok R" "S NULL = None" using linkedD(1,2) [OF old] by simp_all
  next
    fix k assume "entry R k \<noteq> NULL"
    then show "\<exists>d\<in>U - {fd}. S (entry R k) = Some d" using linkedD(3) [OF old, of k] no by auto
  next
    fix i j assume "entry R i \<noteq> NULL" "entry R j \<noteq> NULL" "S (entry R i) = S (entry R j)"
    then show "i = j" by (rule linkedD(4) [OF old])
  next
    fix d q assume "(L(fd := None)) d = Some q"
    then have d: "L d = Some q" "d \<noteq> fd" by (auto split: if_splits)
    show "q \<noteq> NULL" "d \<in> U - {fd}" "S q = Some d" using linkedD(5) [OF old d(1)] d(2) by auto
    show "entry R k = q" if "entry R k \<noteq> NULL" "S (entry R k) = Some d" for k using linkedD(6) [OF old d(1) that] .
  qed
next
  fix k
  assume k: "entry R k \<noteq> NULL" "S (entry R k) = Some fd" and R': "roster_ok R'" "entry R' = (entry R)(k := NULL)"
    and S': "S' = S(entry R k := None)"
  have p: "entry R k = p" using linkedD(6) [OF old l k] .
  have other: "entry R j \<noteq> p" "S (entry R j) \<noteq> Some fd" if "entry R j \<noteq> NULL" "j \<noteq> k" for j
    using linkedD(4) [OF old that(1) k(1)] that(2) k(2) p by auto
  have thread: "q \<noteq> p" if "L d = Some q" "d \<noteq> fd" for d q
    using linkedD(5) [OF old that(1)] that(2) k(2) p by auto
  show ?thesis unfolding linked_def
  proof (intro conjI allI impI)
    show "roster_ok R'" by (rule R')
    show "S' NULL = None" using linkedD(2) [OF old] S' by simp
  next
    fix j assume "entry R' j \<noteq> NULL"
    then show "\<exists>d\<in>U - {fd}. S' (entry R' j) = Some d"
      using linkedD(3) [OF old, of j] other [of j] by (auto simp: R'(2) S' p split: if_splits)
  next
    fix i j assume "entry R' i \<noteq> NULL" "entry R' j \<noteq> NULL" "S' (entry R' i) = S' (entry R' j)"
    then show "i = j"
      using linkedD(4) [OF old, of i j] other [of i] other [of j] by (auto simp: R'(2) S' p split: if_splits)
  next
    fix d q assume l': "(L(fd := None)) d = Some q"
    then have d: "L d = Some q" "d \<noteq> fd" by (auto split: if_splits)
    show "q \<noteq> NULL" "d \<in> U - {fd}" "S' q = Some d"
      using linkedD(5) [OF old d(1)] thread [OF d] d(2) by (auto simp: S' p)
    fix j assume "entry R' j \<noteq> NULL" "S' (entry R' j) = Some d"
    then show "entry R' j = q"
      using linkedD(6) [OF old d(1), of j] other [of j] by (auto simp: R'(2) S' p split: if_splits)
  qed
qed

section \<open>Leaving, thread by thread\<close>

lemma linked_live:
  assumes "linked (activePlayerNodes s) (socket_of s) L U"
  shows "players_live s"
proof -
  have "nodes s (player s k) \<noteq> None" if "player s k \<noteq> NULL" for k
    using linkedD(3) [OF assms that] by (auto simp: socket_of_def)
  then show ?thesis using linkedD(1) [OF assms] by (simp add: players_live_def)
qed

text \<open>What the clean-up of the sessions leaves alone.\<close>

definition aside :: "dyn_array \<Rightarrow> (u64 \<Rightarrow> player_node option) \<Rightarrow> u32 list \<Rightarrow> int \<Rightarrow> server \<Rightarrow> bool" where
  "aside R N C x s \<longleftrightarrow> activePlayerNodes s = R \<and> nodes s = N \<and> closed s = C \<and> current_highest_id (identifiers s) = x"

lemma aside_updates [simp]:
  "aside R N C x (s\<lparr>memory_grants := a\<rparr>) = aside R N C x s" "aside R N C x (s\<lparr>activeMatchSessions := b\<rparr>) = aside R N C x s"
  "aside R N C x (s\<lparr>sessions := c\<rparr>) = aside R N C x s"
  by (simp_all add: aside_def)

lemma keeps_aside_purge: "keeps (aside R N C x) (purge_orphans p)"
proof -
  have "keeps (aside R N C x) (on_pool (relinquishSessionIdentifier y))" for y
    by (rule keeps_on_pool) (simp add: aside_def relinquishSessionIdentifier_def Let_def)
  then show ?thesis
    unfolding purge_orphans_def purge_orphan_def fetch_session_def destroyMatchSessionInstance_def
      deallocateGridMatrixBuffer_def Let_def
    by (intro keeps_rules keeps_with_grant keeps_on_sessions) simp_all
qed

lemma leave_frame:
  assumes "leave_link p fd s = Done () t"
  obtains u where "expel_player fd s = Done () u" "purge_orphans p (u\<lparr>closed := closed u @ [fd]\<rparr>) = Done () t"
    "activePlayerNodes t = activePlayerNodes u" "nodes t = nodes u" "closed t = closed u @ [fd]"
    "current_highest_id (identifiers t) = current_highest_id (identifiers u)"
proof -
  obtain u where u: "expel_player fd s = Done () u" "purge_orphans p (u\<lparr>closed := closed u @ [fd]\<rparr>) = Done () t"
    using assms by (auto simp: leave_link_def andThen_eq_Done close_socket_def modify_def)
  let ?u = "u\<lparr>closed := closed u @ [fd]\<rparr>"
  have "aside (activePlayerNodes u) (nodes u) (closed u @ [fd]) (current_highest_id (identifiers u)) ?u" by (simp add: aside_def)
  with keeps_aside_purge u(2) have "aside (activePlayerNodes u) (nodes u) (closed u @ [fd]) (current_highest_id (identifiers u)) t"
    by (rule keeps_Done)
  then show thesis using u that by (simp add: aside_def)
qed

text \<open>The player's node goes from the roster, or was lost from it before.\<close>

lemma expel_linked:
  assumes ok: "linked (activePlayerNodes s) (socket_of s) L U" and l: "L fd = Some p"
    and clean: "\<And>f. expel_player fd s \<noteq> Fault f"
  obtains u where "expel_player fd s = Done () u"
    "player u = (\<lambda>k. if player s k = p then NULL else player s k)"
    "nodes u = (if \<exists>k. player s k = p then (nodes s)(p := None) else nodes s)"
    "sessions u = sessions s" "closed u = closed s" "identifiers u = identifiers s" "activeMatchSessions u = activeMatchSessions s"
    "linked (activePlayerNodes u) (socket_of u) (L(fd := None)) (U - {fd})"
proof -
  have p: "p \<noteq> NULL" "socket_of s p = Some fd" using linkedD(5) [OF ok l] by simp_all
  from expel_run [OF linked_live [OF ok], of fd] show thesis
  proof (elim disjE exE conjE)
    fix k u
    assume e: "expel_player fd s = Done () u" "expelled s k u" and k: "player s k \<noteq> NULL" "socket_of s (player s k) = Some fd"
    have pk: "player s k = p" using linkedD(6) [OF ok l k] .
    have once: "player s j = p \<longleftrightarrow> j = k" for j using linkedD(4) [OF ok, of j k] k pk p(1) by auto
    obtain st gs where u: "u = s\<lparr>memory_grants := gs, nodes := (nodes s)(p := None), activePlayerNodes := st\<rparr>"
      "roster_ok st" "entry st = (player s)(k := NULL)" using e(2) pk by (auto simp: expelled_def)
    have "socket_of u = (socket_of s)(p := None)" using u(1) by simp
    then have "linked (activePlayerNodes u) (socket_of u) (L(fd := None)) (U - {fd})"
      using k u pk by (intro linked_depart [OF ok l]) auto
    moreover have "player u = (\<lambda>j. if player s j = p then NULL else player s j)" using u once by (auto simp: fun_eq_iff)
    ultimately show thesis using e(1) u(1) pk by (intro that [of u]) auto
  next
    fix f assume "expel_player fd s = Fault f"
    with clean [of f] show thesis by simp
  next
    assume e: "expel_player fd s = Done () s" and none: "\<forall>k. \<not> on_socket s fd k"
    then have "player s k \<noteq> p" for k using p by auto
    moreover have "linked (activePlayerNodes s) (socket_of s) (L(fd := None)) (U - {fd})"
      using none by (intro linked_depart [OF ok l]) blast
    ultimately show thesis using e by (intro that [of s]) auto
  qed
qed

text \<open>Removing the player is undefined exactly if it is registered and its lock is not free.\<close>

lemma expel_faults:
  assumes ok: "linked (activePlayerNodes s) (socket_of s) L U" and l: "L fd = Some p" and n: "nodes s p = Some n"
  shows "(expel_player fd s = Fault f) \<longleftrightarrow> (\<exists>k. player s k = p) \<and> streamLock n \<noteq> Unlocked \<and> f = lock_fault n"
proof -
  have p: "p \<noteq> NULL" "socket_of s p = Some fd" using linkedD(5) [OF ok l] by simp_all
  have at: "player s k = p" if "on_socket s fd k" for k using linkedD(6) [OF ok l] that by blast
  from expel_run [OF linked_live [OF ok], of fd] consider
      k t where "expel_player fd s = Done () t" "on_socket s fd k" "unheld s k"
    | k g where "expel_player fd s = Fault g" "on_socket s fd k" "held_at s k g"
    | "expel_player fd s = Done () s" "\<forall>k. \<not> on_socket s fd k" by blast
  then show ?thesis
  proof cases
    case (1 k t)
    then have "streamLock n = Unlocked" using at [OF 1(2)] n by auto
    then show ?thesis using 1(1) by simp
  next
    case (2 k g)
    have "player s k = p" by (rule at [OF 2(2)])
    then have "streamLock n \<noteq> Unlocked" "g = lock_fault n" "\<exists>k. player s k = p"
      using 2(3) n by (auto simp: held_at_def)
    then show ?thesis using 2(1) by auto
  next
    case 3
    have "\<nexists>k. player s k = p" using 3(2) p by blast
    then show ?thesis using 3(1) by simp
  qed
qed

section \<open>Every step keeps the invariant\<close>

lemma world_keeps_handler:
  assumes ok: "world_ok w" and ev: "own_request fd p ev"
    and run: "handler print_json ev (core w) = Done () t \<or> handler print_json ev (core w) = Exited t"
  shows "world_ok (w\<lparr>core := t\<rparr>)"
proof -
  let ?s = "core w"
  let ?T = "tended (activePlayerNodes ?s) (socket_of ?s) (current_highest_id (identifiers ?s))"
  have "keeps ?T (handler print_json ev)" using ev by (cases ev) (auto intro!: keeps_rules)
  moreover have "?T ?s" using ok by (simp add: tended_def world_ok_def ids_bounded_def)
  ultimately have "after ?T (handler print_json ev ?s)" by (rule keepsD)
  moreover have "after table_ok (handler print_json ev ?s)"
    using keepsD [OF keeps_table_handler] ok by (simp add: world_ok_def)
  ultimately have "?T t" "table_ok t" using run by auto
  then show ?thesis using ok by (auto simp: world_ok_def tended_def ids_bounded_def)
qed

lemma world_keeps_leave:
  assumes ok: "world_ok w" and l: "links w fd = Some p" and run: "leave_link p fd (core w) = Done () t"
  shows "world_ok \<lparr>core = t, links = (links w)(fd := None), opened = opened w - {fd}\<rparr>"
proof -
  let ?s = "core w"
  have old: "linked (activePlayerNodes ?s) (socket_of ?s) (links w) (opened w)" using ok by (simp add: world_ok_def)
  have clean: "expel_player fd ?s \<noteq> Fault f" for f by (rule leave_frame [OF run]) simp
  obtain u where u: "expel_player fd ?s = Done () u"
    "nodes u = (if \<exists>k. player ?s k = p then (nodes ?s)(p := None) else nodes ?s)"
    "sessions u = sessions ?s" "identifiers u = identifiers ?s"
    "linked (activePlayerNodes u) (socket_of u) ((links w)(fd := None)) (opened w - {fd})"
    by (rule expel_linked [OF old l clean])
  obtain u' where f: "expel_player fd ?s = Done () u'" "purge_orphans p (u'\<lparr>closed := closed u' @ [fd]\<rparr>) = Done () t"
    "activePlayerNodes t = activePlayerNodes u'" "nodes t = nodes u'"
    "current_highest_id (identifiers t) = current_highest_id (identifiers u')"
    by (rule leave_frame [OF run])
  have u': "u' = u" using u(1) f(1) by simp
  have table: "table_ok t" using keeps_Done [OF keeps_table_leave run] ok by (simp add: world_ok_def)
  have socks: "socket_of t = socket_of u" using f(4) u' by (auto simp: socket_of_def fun_eq_iff)
  have "owners_live (socket_of t) t" if b: "ids_bounded t"
  proof -
    have s: "ids_bounded ?s" using b f(5) u' u(4) by (simp add: ids_bounded_def)
    let ?v = "u\<lparr>closed := closed u @ [fd]\<rparr>"
    have "keeps table_ok (expel_player fd)" by (rule keeps_table_expel)
    then have "table_ok u" using u(1) ok unfolding world_ok_def by (blast intro: keeps_Done)
    then have "table_ok ?v" by simp
    moreover have "ids_bounded ?v" using s u(4) by (simp add: ids_bounded_def)
    ultimately have "table_core ?v" by (simp add: table_ok_def)
    from purge_run [OF this, of p] f(2) u' have gone: "\<And>q. sessions t q =
        (case sessions ?s q of None \<Rightarrow> None | Some m \<Rightarrow> if participantPrimary m = p then None else Some m)"
      using u(3) by auto
    have live: "owners_live (socket_of ?s) ?s" using ok s by (simp add: world_ok_def)
    show ?thesis unfolding owners_live_def
    proof (intro allI impI)
      fix q m assume "sessions t q = Some m"
      then have "sessions ?s q = Some m" "participantPrimary m \<noteq> p"
        using gone [of q] by (auto split: option.splits if_splits)
      then show "socket_of t (participantPrimary m) \<noteq> None"
        using live u(2) by (auto simp: owners_live_def socks) (simp add: socket_of_def)
    qed
  qed
  then show ?thesis using u(5) f(3) u' socks table by (simp add: world_ok_def)
qed

lemma world_keeps_connect:
  assumes ok: "world_ok w" and fd: "fd \<notin> opened w" and run: "enter_link fd (core w) = Done p t"
  shows "world_ok \<lparr>core = t, links = (links w)(fd \<mapsto> p), opened = insert fd (opened w)\<rparr>"
proof -
  let ?s = "core w"
  have old: "linked (activePlayerNodes ?s) (socket_of ?s) (links w) (opened w)" using ok by (simp add: world_ok_def)
  have r: "p \<noteq> NULL" "nodes ?s p = None" "socket_of t = (socket_of ?s)(p \<mapsto> fd)" "roster_ok (activePlayerNodes t)"
    "player t = (player ?s)(unat (occupied_slots (activePlayerNodes ?s)) := p)" "sessions t = sessions ?s" "identifiers t = identifiers ?s"
    using enter_link_cases [OF linked_live [OF old], of fd] run by simp_all
  have "linked (activePlayerNodes t) (socket_of t) ((links w)(fd \<mapsto> p)) (insert fd (opened w))"
    unfolding r(3) using r by (intro linked_connect [OF old fd r(1) _ r(4,5)]) (simp add: socket_of_def)
  moreover have "owners_live (socket_of t) t" if "ids_bounded t"
    using that ok r(3,6,7) by (auto simp: world_ok_def ids_bounded_def owners_live_def)
  moreover have "table_ok t" using keeps_Done [OF keeps_table_enter run] ok by (simp add: world_ok_def)
  ultimately show ?thesis by (simp add: world_ok_def)
qed

lemma world_keeps_refusal:
  assumes ok: "world_ok w" and run: "enter_link fd (core w) = Exited t" and V: "opened w \<subseteq> V"
  shows "world_ok \<lparr>core = t, links = links w, opened = V\<rparr>"
proof -
  let ?s = "core w"
  have old: "linked (activePlayerNodes ?s) (socket_of ?s) (links w) (opened w)" using ok by (simp add: world_ok_def)
  have r: "activePlayerNodes t = activePlayerNodes ?s" "socket_of t = socket_of ?s" "sessions t = sessions ?s"
    "identifiers t = identifiers ?s"
    using enter_link_cases [OF linked_live [OF old], of fd] run by simp_all
  have "after table_ok (enter_link fd ?s)" using ok by (intro keepsD [OF keeps_table_enter]) (simp add: world_ok_def)
  then have "table_ok t" using run by simp
  then show ?thesis using ok r linked_wider [OF old V] by (simp add: world_ok_def ids_bounded_def owners_live_def)
qed

lemma world_keeps_outside:
  assumes ok: "world_ok w" and out: "outside_change (core w) t"
  shows "world_ok (w\<lparr>core := t\<rparr>)"
proof -
  have "socket_of t = socket_of (core w)" using out by (simp add: outside_change_def socket_of_def fun_eq_iff)
  moreover have "table_ok t" using table_outside [OF out] ok by (simp add: world_ok_def)
  ultimately show ?thesis using ok out by (simp add: world_ok_def outside_change_def ids_bounded_def owners_live_def)
qed

lemma configured_players:
  "after (\<lambda>t. roster_ok (activePlayerNodes t) \<and> player t = (\<lambda>_. NULL) \<and> nodes t = Map.empty \<and> sessions t = Map.empty)
     (configure_stores mutex1_ok mutex2_ok (process_start s))" (is "after ?P _")
proof -
  obtain b gs where g: "take_grant (memory_grants s) = (b, gs)" by (metis prod.exhaust)
  obtain rc st where c: "configure_memory_store (one_grant b) mutex1_ok 3 8 (Some static_store) = Done rc (Some st)"
    by (rule configured_store [of 3]) simp_all
  let ?t = "(process_start s)\<lparr>memory_grants := gs, activeMatchSessions := st\<rparr>"
  have one: "with_grant (\<lambda>al. on_sessions (on_fst (configure_memory_store al mutex1_ok 3 8))) (process_start s) = Done rc ?t"
    using g c by (simp add: with_grant_def on_sessions_def outcome_simps process_start_def)
  obtain b' gs' where g': "take_grant gs = (b', gs')" by (metis prod.exhaust)
  obtain rc' st' where c': "configure_memory_store (one_grant b') mutex2_ok 6 8 (Some static_store) = Done rc' (Some st')"
    "roster_ok st'" "entry st' = (\<lambda>_. NULL)" by (rule configured_store [of 6]) simp_all
  let ?u = "?t\<lparr>memory_grants := gs', activePlayerNodes := st'\<rparr>"
  have two: "with_grant (\<lambda>al. on_players (on_fst (configure_memory_store al mutex2_ok 6 8))) ?t = Done rc' ?u"
    using g' c'(1) by (simp add: with_grant_def on_players_def outcome_simps process_start_def)
  have "?P ?u" using c'(2,3) by (simp add: process_start_def)
  then show ?thesis using one two by (simp add: configure_stores_def cmd_defs exit_process_def)
qed

lemma world_boots_ok: "world_boots w \<Longrightarrow> world_ok w"
proof -
  assume w: "world_boots w"
  then obtain mutex1_ok mutex2_ok s where s: "survives (configure_stores mutex1_ok mutex2_ok (process_start s)) (core w)"
    and l: "links w = Map.empty" by (auto simp: world_boots_def boots_def)
  have "roster_ok (activePlayerNodes (core w)) \<and> player (core w) = (\<lambda>_. NULL) \<and>
      nodes (core w) = Map.empty \<and> sessions (core w) = Map.empty"
    using survives_after [OF s configured_players] by simp
  moreover have "table_ok (core w)" using survives_after [OF s configured_table] by simp
  ultimately show "world_ok w" using l by (simp add: world_ok_def linked_def owners_live_def socket_of_def)
qed

interpretation threads: inductive_invariant world_boots "world_step print_json" world_ok
  for print_json :: "json_item list \<Rightarrow> byte list option"
proof
  show "world_boots w \<Longrightarrow> world_ok w" for w by (rule world_boots_ok)
next
  fix w v assume ok: "world_ok w" and "world_step print_json w v"
  from this(2) show "world_ok v"
  proof cases
    case (connects fd p t)
    then show ?thesis using world_keeps_connect [OF ok] by simp
  next
    case (turned_away fd t)
    then show ?thesis using world_keeps_refusal [OF ok turned_away(3)] by (simp add: subset_insertI)
  next
    case (serves fd p ev t)
    then show ?thesis using world_keeps_handler [OF ok serves(3), of print_json t] by simp
  next
    case (drops fd p ev t)
    have "world_ok (w\<lparr>core := t\<rparr>)" using world_keeps_handler [OF ok drops(3), of print_json t] drops(4) by simp
    then show ?thesis unfolding drops(1) by (simp add: world_ok_def linked_unlink)
  next
    case (departs fd p t)
    then show ?thesis using world_keeps_leave [OF ok] by simp
  next
    case (drifts t)
    then show ?thesis using world_keeps_outside [OF ok] by simp
  qed
qed

section \<open>What the threads can rely on\<close>

text \<open>
  C2. In every state the server can reach by whole requests of any number of clients, every registered player
  is live, on an open socket that no other registered player has; every thread works for a live node
  on its own open socket, and if a player is registered on that socket it is that node (the registry of
  players may have lost the node). As long as at most \<open>2 ^ 16\<close> identifiers were drawn, also every
  session is owned by a live node and the session table is consistent.
\<close>

theorem world_invariant: "world_reached print_json w \<Longrightarrow> world_ok w"
  by (rule threads.always)

lemma world_reached_ok: "world_reached print_json w \<Longrightarrow> world_ok w"
  by (rule threads.always)

lemma scan_listing:
  assumes "reg_ok (activeMatchSessions s)" "\<forall>k\<in>set ks. k \<le> unat SIZE_MAX"
    and "\<And>k. registered s k \<noteq> NULL \<Longrightarrow> \<exists>m. sessions s (registered s k) = Some m \<and>
      participantPrimary m \<noteq> NULL \<and> nodes s (participantPrimary m) \<noteq> None"
  shows "\<exists>items gs. collect_items ks s = Done items (s\<lparr>memory_grants := gs\<rparr>)"
  using assms
proof (induction ks arbitrary: s)
  case Nil
  have "s\<lparr>memory_grants := memory_grants s\<rparr> = s" by simp
  then show ?case unfolding collect_items.simps ret_def by metis
next
  case (Cons k ks)
  have f: "fetch_session k s = Done (if k < unat (allocated_slots (activeMatchSessions s)) then 0 else -1, registered s k) s"
    using Cons.prems by (intro fetch_session_run) (simp_all add: reg_ok_def)
  obtain b gs where g: "take_grant (memory_grants s) = (b, gs)" by (metis prod.exhaust)
  have rest: "\<exists>items hs. collect_items ks (s\<lparr>memory_grants := gs\<rparr>) = Done items (s\<lparr>memory_grants := hs\<rparr>)" for gs
    using Cons.IH [of "s\<lparr>memory_grants := gs\<rparr>"] Cons.prems by simp
  show ?case
  proof (cases "registered s k = NULL")
    case True
    then show ?thesis using f rest [of "memory_grants s"] by (simp add: andThen_def)
  next
    case False
    then obtain m n where m: "sessions s (registered s k) = Some m" "participantPrimary m \<noteq> NULL"
      "nodes s (participantPrimary m) = Some n" using Cons.prems(3) by blast
    obtain b1 g1 b2 g2 b3 g3 b4 g4 where "take_grant gs = (b1, g1)" "take_grant g1 = (b2, g2)"
      "take_grant g2 = (b3, g3)" "take_grant g3 = (b4, g4)" by (metis prod.exhaust)
    then have "\<exists>item hs. session_item (registered s k) (s\<lparr>memory_grants := gs\<rparr>) = Done item (s\<lparr>memory_grants := hs\<rparr>)"
      using m False by (auto simp: session_item_def get_session_def get_node_def system_grant_def cmd_defs)
    then obtain item hs where "session_item (registered s k) (s\<lparr>memory_grants := gs\<rparr>) = Done item (s\<lparr>memory_grants := hs\<rparr>)"
      by blast
    then show ?thesis using f False entry_in_range [OF False] g rest [of gs] rest [of hs]
      by (auto simp: andThen_def system_grant_def ret_def)
  qed
qed

lemma world_sessions:
  assumes ok: "world_ok w" "ids_bounded (core w)" and k: "registered (core w) k \<noteq> NULL"
  shows "\<exists>m. sessions (core w) (registered (core w) k) = Some m \<and> participantPrimary m \<noteq> NULL \<and>
    nodes (core w) (participantPrimary m) \<noteq> None"
proof -
  have core: "table_core (core w)" using ok by (simp add: world_ok_def table_ok_def)
  obtain m where m: "sessions (core w) (registered (core w) k) = Some m" using core k by (rule table_core_registered)
  have "socket_of (core w) NULL = None" using ok(1) linkedD(2) by (auto simp: world_ok_def)
  moreover have "socket_of (core w) (participantPrimary m) \<noteq> None" using ok m by (auto simp: world_ok_def owners_live_def)
  ultimately show ?thesis using m by (auto simp: socket_of_def)
qed

text \<open>
  C11. While at most \<open>2 ^ 16\<close> identifiers have been drawn, a request that is served to its end before the next
  one begins follows no dangling pointer into the registries: listing the sessions never faults, nor
  does the check of a thread's deadline, and a new connection faults only where the roster's count
  has outgrown its block. This rests on the requests not overlapping: the listing does not hold the
  registry's lock while it reads a session, and a clean-up in between frees it (\<open>listing_dangles\<close>).
\<close>

theorem requests_never_dangle:
  assumes "world_reached print_json w" "ids_bounded (core w)"
  shows "(\<forall>f. process_queue_fetch print_json fd (core w) \<noteq> Fault f) \<and>
    (\<forall>p f. links w fd = Some p \<longrightarrow> check_deadline p lk (core w) \<noteq> Fault f) \<and>
    (\<forall>d f. enter_link d (core w) = Fault f \<longrightarrow> f = Out_Of_Bounds)"
proof (intro conjI allI impI)
  let ?s = "core w"
  have ok: "world_ok w" using assms(1) by (rule world_reached_ok)
  then have old: "linked (activePlayerNodes ?s) (socket_of ?s) (links w) (opened w)" by (simp add: world_ok_def)
  have reg: "reg_ok (activeMatchSessions ?s)" using ok assms(2) by (simp add: world_ok_def table_ok_def table_core_reg)
  fix f
  show "process_queue_fetch print_json fd ?s \<noteq> Fault f"
  proof -
    obtain b gs where g: "take_grant (memory_grants ?s) = (b, gs)" by (metis prod.exhaust)
    let ?u = "?s\<lparr>memory_grants := gs\<rparr>"
    have "\<exists>items hs. collect_items [0..<unat (allocated_slots (activeMatchSessions ?s))] ?u = Done items (?u\<lparr>memory_grants := hs\<rparr>)"
      using reg world_sessions [OF ok assms(2)] index_le by (intro scan_listing) auto
    then show ?thesis using g
      by (auto simp: process_queue_fetch_def system_grant_def cmd_defs send_bytes_def split: option.splits if_splits)
  qed
  show "check_deadline p lk ?s \<noteq> Fault f" if l: "links w fd = Some p" for p
  proof -
    obtain n where "p \<noteq> NULL" "nodes ?s p = Some n" using linkedD(5) [OF old l] by (auto simp: socket_of_def)
    then show ?thesis
      by (simp add: check_deadline_def get_node_def set_node_def read_clock_def cmd_defs split: list.splits)
  qed
  show "f = Out_Of_Bounds" if "enter_link d ?s = Fault f" for d
    using enter_link_cases [OF linked_live [OF old], of d] that by simp
qed

lemma world_clean_up:
  assumes ok: "world_ok w" "ids_bounded (core w)" "links w fd = Some p" and clean: "\<And>f. expel_player fd (core w) \<noteq> Fault f"
  shows "\<exists>t. leave_link p fd (core w) = Done () t \<and> closed t = closed (core w) @ [fd] \<and>
    player t = (\<lambda>k. if player (core w) k = p then NULL else player (core w) k) \<and>
    nodes t = (if \<exists>k. player (core w) k = p then (nodes (core w))(p := None) else nodes (core w)) \<and>
    (\<forall>q. sessions t q = (case sessions (core w) q of None \<Rightarrow> None | Some m \<Rightarrow> if participantPrimary m = p then None else Some m))"
proof -
  let ?s = "core w"
  have old: "linked (activePlayerNodes ?s) (socket_of ?s) (links w) (opened w)" using ok by (simp add: world_ok_def)
  obtain u where u: "expel_player fd ?s = Done () u"
    "player u = (\<lambda>k. if player ?s k = p then NULL else player ?s k)"
    "nodes u = (if \<exists>k. player ?s k = p then (nodes ?s)(p := None) else nodes ?s)"
    "sessions u = sessions ?s" "closed u = closed ?s" "identifiers u = identifiers ?s"
    by (rule expel_linked [OF old ok(3) clean])
  let ?v = "u\<lparr>closed := closed u @ [fd]\<rparr>"
  have "table_ok u" using keeps_Done [OF keeps_table_expel u(1)] ok by (simp add: world_ok_def)
  then have "table_ok ?v" by simp
  moreover have "ids_bounded ?v" using ok(2) u(6) by (simp add: ids_bounded_def)
  ultimately have "table_core ?v" by (simp add: table_ok_def)
  from purge_run [OF this, of p] obtain t where t: "purge_orphans p ?v = Done () t"
    "\<forall>q. sessions t q = (case sessions ?v q of None \<Rightarrow> None | Some m \<Rightarrow> if participantPrimary m = p then None else Some m)"
    by blast
  have run: "leave_link p fd ?s = Done () t" using u(1) t(1) by (simp add: leave_link_def andThen_def close_socket_def modify_def)
  obtain u' where f: "expel_player fd ?s = Done () u'" "activePlayerNodes t = activePlayerNodes u'" "nodes t = nodes u'"
    "closed t = closed u' @ [fd]" by (rule leave_frame [OF run])
  have "u' = u" using f(1) u(1) by simp
  then show ?thesis using run t(2) f u by (intro exI [of _ t]) simp
qed

text \<open>
  C5. While at most \<open>2 ^ 16\<close> identifiers have been drawn, a client that leaves a server reached by whole
  requests is gone, whatever happened to it in the roster: the clean-up closes its socket once, destroys
  its node if it is still registered, and removes exactly the sessions it owned; every other player and
  session stays. It fails in one case only: the node is registered and its lock is still held, as a failed
  \<^verbatim>\<open>select\<close> of a match leaves it, and destroying a held mutex is undefined.
\<close>

theorem client_leaves:
  assumes "world_reached print_json w" "ids_bounded (core w)" "links w fd = Some p"
  shows "\<exists>n. nodes (core w) p = Some n \<and>
    (if streamLock n = Unlocked \<or> (\<forall>k. player (core w) k \<noteq> p)
     then \<exists>t. leave_link p fd (core w) = Done () t \<and> closed t = closed (core w) @ [fd] \<and>
       player t = (\<lambda>k. if player (core w) k = p then NULL else player (core w) k) \<and>
       nodes t = (if \<exists>k. player (core w) k = p then (nodes (core w))(p := None) else nodes (core w)) \<and>
       (\<forall>q. sessions t q = (case sessions (core w) q of None \<Rightarrow> None | Some m \<Rightarrow> if participantPrimary m = p then None else Some m))
     else leave_link p fd (core w) = Fault (if streamLock n = Locked then Held_Mutex else Dead_Mutex))"
proof -
  let ?s = "core w"
  have ok: "world_ok w" using assms(1) by (rule world_reached_ok)
  then have old: "linked (activePlayerNodes ?s) (socket_of ?s) (links w) (opened w)" by (simp add: world_ok_def)
  obtain n where n: "nodes ?s p = Some n" using linkedD(5) [OF old assms(3)] by (auto simp: socket_of_def)
  note faults = expel_faults [OF old assms(3) n]
  show ?thesis
  proof (cases "streamLock n = Unlocked \<or> (\<forall>k. player ?s k \<noteq> p)")
    case True
    then have "expel_player fd ?s \<noteq> Fault f" for f using faults [of f] by blast
    then obtain t where "leave_link p fd ?s = Done () t \<and> closed t = closed ?s @ [fd] \<and>
       player t = (\<lambda>k. if player ?s k = p then NULL else player ?s k) \<and>
       nodes t = (if \<exists>k. player ?s k = p then (nodes ?s)(p := None) else nodes ?s) \<and>
       (\<forall>q. sessions t q = (case sessions ?s q of None \<Rightarrow> None | Some m \<Rightarrow> if participantPrimary m = p then None else Some m))"
      using world_clean_up [OF ok assms(2,3)] by blast
    then show ?thesis using n True by auto
  next
    case False
    then have "expel_player fd ?s = Fault (lock_fault n)" using faults [of "lock_fault n"] by blast
    then have "leave_link p fd ?s = Fault (lock_fault n)" by (simp add: leave_link_def andThen_def)
    then show ?thesis using n False by (auto simp: lock_fault_def)
  qed
qed

section \<open>Ann connects and creates a session\<close>

definition ann_in :: "(unit, server) outcome" where
  "ann_in = andThen (enter_link 7) (\<lambda>p. if p = 1 then ret () else thread_exit) (booted ann_says [1, 2])"

lemma ann_in_run:
  "case ann_in of Done _ t \<Rightarrow> (case andThen (process_instantiation_request 1) (\<lambda>_. ret ()) t of
     Done _ u \<Rightarrow> registered u 0 = 2 \<and> player u 0 = 1 \<and> current_highest_id (identifiers u) = 1 \<and>
       map_option streamLock (nodes u 1) = Some Unlocked | _ \<Rightarrow> False) | _ \<Rightarrow> False"
  by code_simp

lemma ann_world:
  obtains w :: world where "world_reached (\<lambda>_. None) w" "ids_bounded (core w)" "links w 7 = Some 1" "registered (core w) 0 = 2" "player (core w) 0 = 1"
    "map_option streamLock (nodes (core w) 1) = Some Unlocked"
proof -
  let ?b = "booted ann_says [1, 2]"
  have "case configure_stores True True (process_start (cold ann_says [1, 2])) of Done _ t \<Rightarrow> True | _ \<Rightarrow> False"
    by code_simp
  then have "boots ?b" by (rule booted_boots)
  then have w0: "world_reached (\<lambda>_. None) \<lparr>core = ?b, links = Map.empty, opened = {}\<rparr>" (is "world_reached _ ?w0")
    by (intro reached_start) (simp add: world_boots_def)
  obtain t u where t: "ann_in = Done () t" "andThen (process_instantiation_request 1) (\<lambda>_. ret ()) t = Done () u"
    "registered u 0 = 2" "player u 0 = 1" "current_highest_id (identifiers u) = 1"
    "map_option streamLock (nodes u 1) = Some Unlocked"
    using ann_in_run by (auto split: outcome.splits)
  then have e: "enter_link 7 (core ?w0) = Done 1 t"
    by (auto simp: ann_in_def andThen_eq_Done ret_def thread_exit_def split: if_splits)
  let ?w1 = "\<lparr>core = t, links = [7 \<mapsto> 1], opened = {7}\<rparr>"
  have "world_step (\<lambda>_. None) ?w0 ?w1" using connects [OF _ e] by simp
  with w0 have w1: "world_reached (\<lambda>_. None) ?w1" by (rule reached_step)
  have "world_step (\<lambda>_. None) ?w1 (?w1\<lparr>core := u\<rparr>)"
    using t(2) by (intro serves [where fd = 7 and p = 1 and ev = "Creates 1"]) simp_all
  with w1 have w2: "world_reached (\<lambda>_. None) (?w1\<lparr>core := u\<rparr>)" by (rule reached_step)
  show thesis
  proof (rule that [OF w2])
    show "ids_bounded (core (?w1\<lparr>core := u\<rparr>))" using t(5) by (simp add: ids_bounded_def)
    show "links (?w1\<lparr>core := u\<rparr>) 7 = Some 1" by simp
  qed (use t(3,4,6) in simp_all)
qed

theorem world_invariant_witness: "\<exists>w. world_ok w \<and> links w 7 = Some 1 \<and> registered (core w) 0 = 2"
  using ann_world world_invariant by metis

theorem requests_never_dangle_witness:
  "\<exists>w :: world. links w 7 = Some 1 \<and> registered (core w) 0 = 2 \<and> (\<forall>f. process_queue_fetch (\<lambda>_. None) 7 (core w) \<noteq> Fault f)"
proof -
  obtain w where w: "world_reached (\<lambda>_. None) w" "ids_bounded (core w)" "links w 7 = Some 1" "registered (core w) 0 = 2"
    by (rule ann_world)
  show ?thesis using requests_never_dangle [OF w(1,2), of 7] w(3,4) by blast
qed

theorem client_leaves_witness:
  "\<exists>(w :: world) t. links w 7 = Some 1 \<and> player (core w) 0 = 1 \<and> registered (core w) 0 = 2 \<and> leave_link 1 7 (core w) = Done () t \<and>
     nodes t 1 = None \<and> player t 0 = NULL"
proof -
  obtain w where w: "world_reached (\<lambda>_. None) w" "ids_bounded (core w)" "links w 7 = Some 1" "registered (core w) 0 = 2"
    "player (core w) 0 = 1" "map_option streamLock (nodes (core w) 1) = Some Unlocked" by (rule ann_world)
  then have "streamLock (the (nodes (core w) 1)) = Unlocked" by auto
  then obtain t where "leave_link 1 7 (core w) = Done () t" "player t = (\<lambda>k. if player (core w) k = 1 then NULL else player (core w) k)"
    "nodes t = (if \<exists>k. player (core w) k = 1 then (nodes (core w))(1 := None) else nodes (core w))"
    using client_leaves [OF w(1-3)] by auto
  then show ?thesis using w(3,4,5) by (intro exI [of _ w] exI [of _ t]) auto
qed

end
