(* ===== verification/Board_Types.thy ===== *)
theory Board_Types
  imports System
begin

text \<open>
  The type of a board: three rows of three cells. The C program has an \<^verbatim>\<open>unsigned int **\<close>; that every board a
  session points to keeps that shape is what the loops over rows and columns rely on. Here each operation
  is shown to keep it; the theory \<open>Phases\<close> draws the conclusion for the running server.
\<close>

definition shaped :: "match_session \<Rightarrow> bool" where
  "shaped m \<longleftrightarrow> (case gridMatrix m of None \<Rightarrow> True | Some g \<Rightarrow> board_ok g)"

definition boards_ok :: "server \<Rightarrow> bool" where
  "boards_ok s \<longleftrightarrow> (\<forall>q m. sessions s q = Some m \<longrightarrow> shaped m)"

lemma boards_updates [simp]:
  "boards_ok (s\<lparr>nodes := a\<rparr>) = boards_ok s" "boards_ok (s\<lparr>channels := b\<rparr>) = boards_ok s"
  "boards_ok (s\<lparr>errno := c\<rparr>) = boards_ok s" "boards_ok (s\<lparr>sent := d\<rparr>) = boards_ok s"
  "boards_ok (s\<lparr>closed := e\<rparr>) = boards_ok s" "boards_ok (s\<lparr>struct_addresses := f\<rparr>) = boards_ok s"
  "boards_ok (s\<lparr>memory_grants := g\<rparr>) = boards_ok s" "boards_ok (s\<lparr>randoms := h\<rparr>) = boards_ok s"
  "boards_ok (s\<lparr>clock := i\<rparr>) = boards_ok s" "boards_ok (s\<lparr>activePlayerNodes := j\<rparr>) = boards_ok s"
  "boards_ok (s\<lparr>activeMatchSessions := k\<rparr>) = boards_ok s" "boards_ok (s\<lparr>identifiers := l\<rparr>) = boards_ok s"
  by (simp_all add: boards_ok_def)

lemma boards_sessions:
  "boards_ok s \<Longrightarrow> shaped m \<Longrightarrow> boards_ok (s\<lparr>sessions := (sessions s)(q \<mapsto> m)\<rparr>)"
  "boards_ok s \<Longrightarrow> boards_ok (s\<lparr>sessions := (sessions s)(q := None)\<rparr>)"
  "boards_ok s \<Longrightarrow> sessions s q = Some m \<Longrightarrow> shaped m"
  by (simp_all add: boards_ok_def)

section \<open>Commands whose value is shaped\<close>

lemma keeps_value:
  assumes "keeps P m" "\<And>s a t. P s \<Longrightarrow> m s = Done a t \<Longrightarrow> Q a" "\<And>a. Q a \<Longrightarrow> keeps P (k a)"
  shows "keeps P (andThen m k)"
proof (rule keepsI)
  fix s assume s: "P s"
  show "after P (andThen m k s)"
  proof (cases "m s")
    case (Done a t)
    then have "P t" using keeps_Done [OF assms(1)] s by blast
    then show ?thesis using Done keepsD [OF assms(3) [OF assms(2) [OF s Done]]] by (simp add: andThen_def)
  qed (use keepsD [OF assms(1) s] in \<open>simp_all add: andThen_def\<close>)
qed

lemma keeps_boards_get: "(\<And>m. shaped m \<Longrightarrow> keeps boards_ok (k m)) \<Longrightarrow> keeps boards_ok (andThen (get_session p) k)"
  by (rule keeps_value [where Q = shaped])
    (auto simp: get_session_def dest: boards_sessions(3) intro: keeps_get split: if_splits option.splits)

lemma keeps_checked_value: "(\<And>a. r = Inr a \<Longrightarrow> keeps P (k a)) \<Longrightarrow> keeps P (andThen (checked r) k)"
  by (rule keeps_value [where Q = "\<lambda>a. r = Inr a"]) (auto simp: checked_def split: sum.splits)

lemma keeps_boards_set_session [keeps_rules]:
  "(\<And>m. shaped m \<Longrightarrow> shaped (f m)) \<Longrightarrow> keeps boards_ok (set_session p f)"
  by (intro keeps_set_session) (auto intro: boards_sessions(1) dest: boards_sessions(3))

lemma grid_write_ok:
  assumes "board_ok g" "grid_write g r c v = Inr g'"
  shows "board_ok g'"
proof -
  have "0 \<le> r" "nat r < 3" "0 \<le> c" "nat c < 3" using assms board_ok_nth [OF assms(1), of "nat r"]
    by (auto simp: grid_write_def board_ok_def split: if_splits)
  then show ?thesis using grid_write_inside [OF assms(1), of "nat r" "nat c" v] assms(2) by simp
qed

lemma place_mark_ok: "board_ok g \<Longrightarrow> place_mark g k v = Inr g' \<Longrightarrow> board_ok g'"
  by (auto simp: place_mark_def grid_write_ok split: if_splits)

lemma wipe_shaped: "shaped m \<Longrightarrow> wipe_topological_grid (gridMatrix m) = Inr g \<Longrightarrow> shaped (n\<lparr>gridMatrix := g\<rparr>)"
  using wipe_spec by (cases "gridMatrix m") (auto simp: shaped_def wipe_topological_grid_def)

section \<open>Every operation keeps the boards\<close>

lemma keeps_boards_prims [keeps_rules]:
  "keeps boards_ok (set_node p h)" "keeps boards_ok (receive fd n)" "keeps boards_ok (send_bytes fd bs)"
  "keeps boards_ok (lock_stream p)" "keeps boards_ok (unlock_stream p)"
  unfolding lock_stream_def unlock_stream_def by (intro keeps_rules keeps_set_node keeps_receive keeps_send; simp)+

lemma keeps_boards_destroy [keeps_rules]: "keeps boards_ok (destroyMatchSessionInstance slot)"
  unfolding destroyMatchSessionInstance_def deallocateGridMatrixBuffer_def Let_def
  by (intro keeps_rules) (simp_all add: shaped_def boards_sessions(2))

lemma keeps_boards_registry [keeps_rules]:
  "keeps boards_ok (fetch_session k)"
  "keeps boards_ok (with_grant (\<lambda>al. on_sessions (excise_at_offset al i (Some destroyMatchSessionInstance))))"
  "keeps boards_ok (register_session q y)"
  unfolding fetch_session_def register_session_def
  by (intro keeps_rules keeps_with_grant keeps_on_sessions; simp)+

lemma keeps_boards_pool [keeps_rules]: "keeps boards_ok (on_pool m)"
  by (auto simp: keeps_def on_pool_def split: outcome.splits)

lemma keeps_boards_players [keeps_rules]:
  "keeps boards_ok (fetch_player k)" "keeps boards_ok (destroyPlayerNodeInstance slot)"
  unfolding fetch_player_def destroyPlayerNodeInstance_def by (intro keeps_rules keeps_destroy_lock keeps_on_players; simp)+

lemma keeps_boards_diagnostics [keeps_rules]:
  "keeps boards_ok dump_registry" "keeps boards_ok broadcast_session_state_update" "keeps boards_ok audit_sessions"
  unfolding dump_registry_def broadcast_session_state_update_def audit_sessions_def
  by (intro keeps_rules; simp)+

lemma the_grid_ok: "shaped m \<Longrightarrow> the_grid m s = Done g t \<Longrightarrow> board_ok g"
  by (auto simp: the_grid_def shaped_def cmd_defs split: option.splits)

lemma keeps_boards_store: "board_ok g \<Longrightarrow> keeps boards_ok (set_session ms (\<lambda>m. m\<lparr>gridMatrix := Some g\<rparr>))"
  by (intro keeps_boards_set_session) (simp add: shaped_def)

lemma keeps_boards_apply_move [keeps_rules]: "keeps boards_ok (apply_move ms acting k)"
  unfolding apply_move_def
  by (rule keeps_boards_get, rule keeps_value [where Q = board_ok], rule keeps_the_grid, erule (1) the_grid_ok,
      rule keeps_checked_value, rule keeps_andThen, rule keeps_boards_store, erule (1) place_mark_ok)
    (intro keeps_rules; simp add: shaped_def)

lemma keeps_boards_one_move [keeps_rules]: "keeps boards_ok (one_move ms p)"
  unfolding one_move_def by (intro keeps_rules)

lemma keeps_boards_wipe: "(\<And>a. keeps boards_ok (k a)) \<Longrightarrow>
    keeps boards_ok (andThen (get_session ms) (\<lambda>m. andThen (checked (wipe_topological_grid (gridMatrix m))) (\<lambda>g.
      andThen (set_session ms (\<lambda>m. m\<lparr>gridMatrix := g\<rparr>)) k)))"
  by (rule keeps_boards_get, rule keeps_checked_value, rule keeps_andThen) (intro keeps_boards_set_session wipe_shaped)

lemma keeps_boards_rematch [keeps_rules]: "keeps boards_ok (invoke_rematch ms)"
proof -
  have poll: "keeps boards_ok (execute_rematch_polling fd)" for fd
    unfolding execute_rematch_polling_def fetch_draw_verdict_def by (intro keeps_rules; simp add: keeps_def)
  have state: "keeps boards_ok (set_session ms (\<lambda>m. m\<lparr>currentState := x\<rparr>))" for x
    by (rule keeps_boards_set_session) (simp add: shaped_def)
  have later: "keeps boards_ok (andThen (set_session ms (\<lambda>m. m\<lparr>currentState := x\<rparr>)) k)"
    if "keeps boards_ok (k ())" for x and k :: "unit \<Rightarrow> (server, int) cmd"
    using that state by (intro keeps_andThen) simp_all
  show ?thesis unfolding invoke_rematch_def
    by (rule keeps_andThen [OF keeps_sockets(1)], rule keeps_andThen [OF keeps_sockets(2)],
        rule keeps_andThen [OF poll], rule keeps_andThen [OF poll], rule keeps_if,
        (intro keeps_andThen state; intro keeps_rules),
        (rule later, rule keeps_boards_wipe, intro keeps_rules))
qed

lemma keeps_boards_play_rounds [keeps_rules]: "keeps boards_ok (play_rounds ms)"
  by (intro keeps_play_rounds)
    (unfold one_round_def start_round_def end_round_def, intro keeps_rules keeps_move_loop; simp add: shaped_def)

lemma keeps_boards_match [keeps_rules]: "keeps boards_ok (execute_core_loop ms b)"
  unfolding execute_core_loop_def finish_match_def Let_def by (intro keeps_rules; simp)

lemma keeps_boards_names [keeps_rules]:
  "keeps boards_ok (discard_name fd)" "keeps boards_ok (read_owner_name fd)"
  "keeps boards_ok (replace_moniker p name)" "keeps boards_ok (read_joiner_name fd)"
  unfolding discard_name_def read_owner_name_def replace_moniker_def read_joiner_name_def receive_into_def Let_def
  by (intro keeps_rules; simp)+

lemma allocate_grid_ok: "allocate_grid s = Done g t \<Longrightarrow> board_ok g"
  by (auto simp: allocate_grid_def allocate_spec split: if_splits)

lemma keeps_boards_create [keeps_rules]: "keeps boards_ok (create_session p fd)"
proof -
  have place: "keeps boards_ok (modify (\<lambda>s. s\<lparr>sessions := (sessions s)(q \<mapsto> fresh_session p y)\<rparr>))" for q y
    by (intro keeps_modify boards_sessions(1)) (simp_all add: shaped_def fresh_session_def)
  have alloc: "keeps boards_ok allocate_grid" by (auto simp: keeps_def allocate_grid_def split: outcome.splits)
  have grid: "keeps boards_ok (andThen allocate_grid (\<lambda>grid. andThen (set_session q (\<lambda>m. m\<lparr>gridMatrix := Some grid\<rparr>)) k))"
    if "\<And>a. keeps boards_ok (k a)" for q and k :: "unit \<Rightarrow> (server, int) cmd"
    by (rule keeps_value [OF alloc allocate_grid_ok]) (assumption, intro keeps_andThen keeps_boards_store that)
  show ?thesis unfolding create_session_def
    by (intro grid place keeps_rules; simp add: shaped_def)
qed

lemma keeps_boards_requests [keeps_rules]:
  "keeps boards_ok (process_instantiation_request p)" "keeps boards_ok (refuse_bound_player fd)"
  "keeps boards_ok (ask_owner q fd txt)"
  unfolding process_instantiation_request_def refuse_bound_player_def ask_owner_def Let_def by (intro keeps_rules)+

lemma keeps_boards_challenge [keeps_rules]: "keeps boards_ok (challenge_owner ms y p fd name)"
  unfolding challenge_owner_def Let_def by (intro keeps_rules) (simp_all add: shaped_def)

lemma keeps_boards_activation [keeps_rules]: "keeps boards_ok (process_activation_request p)"
  unfolding process_activation_request_def Let_def by (intro keeps_rules)

lemma keeps_boards_queue [keeps_rules]: "keeps boards_ok (process_queue_fetch print_json fd)"
proof -
  have "keeps boards_ok (collect_items ks)" for ks
    by (induction ks) (auto simp: session_item_def intro!: keeps_rules)
  then show ?thesis unfolding process_queue_fetch_def by (intro keeps_rules; simp)
qed

lemma keeps_boards_link [keeps_rules]:
  "keeps boards_ok (check_deadline p lk)" "keeps boards_ok (enter_link fd)" "keeps boards_ok (leave_link p fd)"
  unfolding check_deadline_def enter_link_def leave_link_def expel_player_def purge_orphans_def purge_orphan_def
  by (intro keeps_rules keeps_with_grant keeps_on_players keeps_modify; simp)+

lemma keeps_boards_handler: "keeps boards_ok (handler print_json ev)"
  by (cases ev) (auto intro!: keeps_rules)

section \<open>Boards of a running server\<close>

lemma keeps_exit: "keeps P exit_process"
  by (simp add: keeps_def exit_process_def)

lemma boots_boards: "boots t \<Longrightarrow> boards_ok t"
proof -
  assume "boots t"
  then obtain mutex1_ok mutex2_ok s where s: "survives (configure_stores mutex1_ok mutex2_ok (process_start s)) t"
    by (auto simp: boots_def)
  have "keeps boards_ok (configure_stores mutex1_ok mutex2_ok)" unfolding configure_stores_def
    by (intro keeps_rules keeps_with_grant keeps_on_sessions keeps_on_players keeps_exit) simp_all
  moreover have "boards_ok (process_start s)" by (simp add: boards_ok_def process_start_def)
  ultimately have "after boards_ok (configure_stores mutex1_ok mutex2_ok (process_start s))" by (rule keepsD)
  with s show "boards_ok t" by (rule survives_after)
qed

end
