(* ===== verification/Phases.thy ===== *)
theory Phases
  imports Board_Types Match_Spec
begin

text \<open>
  The server at a finer grain: a join is not one step but the sequence of its phases, and other requests,
  and the phases of other matches, come between any two of them. The phases are the commands of the
  handler itself, cut at its calls; the equations below put the handler together again, and every run of
  the handler is a path of phases. The order of the phases is left open, so the orders
  the code allows are among those considered; a phase that would have to wait for a lock has no step until
  the lock is free.
\<close>

section \<open>The phases of a join\<close>

text \<open>Up to the session that was found: an early return, or what the rest works with.\<close>

definition announce_joiner :: "u64 \<Rightarrow> (server, int + u64 \<times> int \<times> u32 \<times> byte list) cmd" where
  "announce_joiner p_node =
     andThen (get_node p_node) (\<lambda>n.
     let local_socket = socketDescriptor n in
     if activeSessionId n \<noteq> -1 then andThen (refuse_bound_player local_socket) (\<lambda>code. ret (Inl code))
     else
       andThen (receive local_socket 2) (\<lambda>(_, bs).
       andThen (gets (\<lambda>s. uint (host16 (filled 2 bs s)))) (\<lambda>target_sess_id.
       andThen (read_joiner_name local_socket) (\<lambda>reading.
       case reading of
         Inl code \<Rightarrow> ret (Inl code)
       | Inr name \<Rightarrow>
           andThen (replace_moniker p_node name) (\<lambda>_.
           andThen (send_bytes local_socket (net32 local_socket)) (\<lambda>_.
           andThen (fetch_session (nat target_sess_id)) (\<lambda>(_, target).
           if target = NULL then
             andThen (send_bytes local_socket (net_opcode OP_DECLINE_REQ)) (\<lambda>_. ret (Inl (-1)))
           else ret (Inr (target, target_sess_id, local_socket, name)))))))))"

text \<open>Up to the match: the owner is asked and, with its approval, both players are bound.\<close>

definition approach_owner :: "u64 \<Rightarrow> int \<Rightarrow> u64 \<Rightarrow> u32 \<Rightarrow> byte list \<Rightarrow> (server, bool) cmd" where
  "approach_owner target target_sess_id p_node local_socket name =
     andThen (get_session target) (\<lambda>m.
     let master_node = participantPrimary m in
     andThen (get_node master_node) (\<lambda>master.
     let master_socket = socketDescriptor master in
     andThen system_grant (\<lambda>formatted.
     andThen (ask_owner master_node master_socket (if formatted then Some (challenge_text name) else None)) (\<lambda>master_verdict.
     andThen (send_bytes local_socket (net32 master_verdict)) (\<lambda>_.
     if sint master_verdict \<noteq> opcode_value OP_APPROVE_REQ then ret False
     else
       andThen (set_session target (\<lambda>m. m\<lparr>participantSecondary := p_node, currentState := STATE_IN_PROGRESS\<rparr>)) (\<lambda>_.
       andThen (dumpMatchSessionDiagnostics target) (\<lambda>_.
       andThen (set_node p_node (\<lambda>n. n\<lparr>activeSessionId := target_sess_id\<rparr>)) (\<lambda>_.
       andThen (set_node master_node (\<lambda>n. n\<lparr>activeSessionId := target_sess_id, timeoutTicks := 1\<rparr>)) (\<lambda>_.
       andThen broadcast_session_state_update (\<lambda>_. ret True))))))))))"

definition lock_primary :: "u64 \<Rightarrow> (server, unit) cmd" where
  "lock_primary ms = andThen (get_session ms) (\<lambda>m. lock_stream (participantPrimary m))"

definition lock_secondary :: "u64 \<Rightarrow> (server, unit) cmd" where
  "lock_secondary ms = andThen (get_session ms) (\<lambda>m. lock_stream (participantSecondary m))"

lemma activation_phases:
  "process_activation_request p = andThen (announce_joiner p) (\<lambda>r.
     case r of Inl code \<Rightarrow> ret code | Inr (target, x, fd, name) \<Rightarrow> challenge_owner target x p fd name)"
  by (rule ext) (simp add: process_activation_request_def announce_joiner_def andThen_def ret_def Let_def
      split: outcome.splits sum.splits prod.splits)

lemma challenge_phases:
  "challenge_owner ms x p fd name = andThen (approach_owner ms x p fd name) (\<lambda>approved.
     if approved then andThen (execute_core_loop ms True) (\<lambda>_. ret 0) else ret 0)"
  by (rule ext) (simp add: challenge_owner_def approach_owner_def andThen_def ret_def Let_def split: outcome.splits)

lemma core_loop_phases:
  "execute_core_loop ms True = andThen (lock_primary ms) (\<lambda>_. andThen (lock_secondary ms) (\<lambda>_.
     andThen (play_rounds ms) (\<lambda>_. finish_match ms)))"
  by (rule ext) (simp add: execute_core_loop_def lock_primary_def lock_secondary_def andThen_def split: outcome.splits)

section \<open>The finer system\<close>

datatype phase =
    Serves event
  | Announces u64
  | Approaches u64 int u64 u32 "byte list"
  | LocksPrimary u64
  | LocksSecondary u64
  | OpensRound u64
  | Moves u64 u64
  | ClosesRound u64 int
  | Finishes u64

fun run_phase :: "(json_item list \<Rightarrow> byte list option) \<Rightarrow> phase \<Rightarrow> (server, unit) cmd" where
  "run_phase print_json (Serves ev) = handler print_json ev"
| "run_phase print_json (Announces p) = andThen (announce_joiner p) (\<lambda>_. ret ())"
| "run_phase print_json (Approaches ms x p fd name) = andThen (approach_owner ms x p fd name) (\<lambda>_. ret ())"
| "run_phase print_json (LocksPrimary ms) = lock_primary ms"
| "run_phase print_json (LocksSecondary ms) = lock_secondary ms"
| "run_phase print_json (OpensRound ms) = andThen (start_round ms) (\<lambda>_. ret ())"
| "run_phase print_json (Moves ms p) = andThen (one_move ms p) (\<lambda>_. ret ())"
| "run_phase print_json (ClosesRound ms bytes) = andThen (end_round ms bytes) (\<lambda>_. ret ())"
| "run_phase print_json (Finishes ms) = finish_match ms"

inductive phase_step :: "(json_item list \<Rightarrow> byte list option) \<Rightarrow> server \<Rightarrow> server \<Rightarrow> bool"
  for print_json where
  phase: "survives (run_phase print_json ph s) t \<Longrightarrow> phase_step print_json s t"
| drift: "outside_change s t \<Longrightarrow> phase_step print_json s t"

definition phase_reachable :: "(json_item list \<Rightarrow> byte list option) \<Rightarrow> server \<Rightarrow> bool" where
  "phase_reachable print_json = reached boots (phase_step print_json)"

text \<open>Whole requests are steps here too.\<close>

interpretation coarse: projection boots "server_step print_json" boots "phase_step print_json" "\<lambda>s. s"
  for print_json :: "json_item list \<Rightarrow> byte list option"
proof
  fix s t assume "server_step print_json s t"
  then show "phase_step print_json s t"
  proof cases
    case (request ev)
    then show ?thesis by (intro phase [where ph = "Serves ev"]) simp
  qed (rule drift)
qed

section \<open>Every run of the handler is a path of phases\<close>

definition traced :: "(json_item list \<Rightarrow> byte list option) \<Rightarrow> (server, 'a) cmd \<Rightarrow> bool" where
  "traced print_json m \<longleftrightarrow> (\<forall>s t. survives (m s) t \<longrightarrow> (phase_step print_json)\<^sup>*\<^sup>* s t)"

lemma traced_ret: "traced print_json (ret a)"
  by (simp add: traced_def ret_def survives_def)

lemma traced_andThen:
  assumes "traced print_json m" "\<And>a. traced print_json (k a)"
  shows "traced print_json (andThen m k)"
  unfolding traced_def
proof (intro allI impI)
  fix s t assume r: "survives (andThen m k s) t"
  show "(phase_step print_json)\<^sup>*\<^sup>* s t"
  proof (cases "m s")
    case (Done a u)
    then have "(phase_step print_json)\<^sup>*\<^sup>* s u" using assms(1) by (simp add: traced_def survives_def)
    also have "(phase_step print_json)\<^sup>*\<^sup>* u t" using assms(2) [of a] r Done by (simp add: traced_def andThen_def)
    finally show ?thesis .
  next
    case (Exited u)
    then show ?thesis using assms(1) r by (simp add: traced_def andThen_def survives_def)
  qed (use r in \<open>simp_all add: andThen_def survives_def\<close>)
qed

text \<open>A command that a phase runs is one step.\<close>

lemma traced_phase: "run_phase print_json ph = andThen m (\<lambda>_. ret ()) \<Longrightarrow> traced print_json m"
  unfolding traced_def
proof (intro allI impI)
  fix s t assume ph: "run_phase print_json ph = andThen m (\<lambda>_. ret ())" and r: "survives (m s) t"
  have "survives (andThen m (\<lambda>_. ret ()) s) t" using r
    by (cases "m s") (simp_all add: survives_def andThen_def ret_def)
  then have "phase_step print_json s t" using ph by (intro phase [where ph = ph]) simp
  then show "(phase_step print_json)\<^sup>*\<^sup>* s t" by (rule r_into_rtranclp)
qed

lemma andThen_unit: "m = andThen m (\<lambda>_ :: unit. ret ())"
  by (rule ext) (simp add: andThen_def ret_def split: outcome.split)

lemma traced_parts:
  "traced print_json (announce_joiner p)" "traced print_json (approach_owner ms x p fd name)"
  "traced print_json (lock_primary ms)" "traced print_json (lock_secondary ms)" "traced print_json (start_round ms)"
  "traced print_json (one_move ms p)" "traced print_json (end_round ms b)" "traced print_json (finish_match ms)"
  by (rule traced_phase [OF run_phase.simps(2)] traced_phase [OF run_phase.simps(3)]
      traced_phase [OF trans [OF run_phase.simps(4) andThen_unit]] traced_phase [OF trans [OF run_phase.simps(5) andThen_unit]]
      traced_phase [OF run_phase.simps(6)] traced_phase [OF run_phase.simps(7)] traced_phase [OF run_phase.simps(8)]
      traced_phase [OF trans [OF run_phase.simps(9) andThen_unit]])+

lemma traced_move_loop: "traced print_json (move_loop ms p)"
proof -
  have "survives (move_loop ms p s) t \<Longrightarrow> (phase_step print_json)\<^sup>*\<^sup>* s t" for s t
  proof (induction ms p s rule: move_loop.induct)
    case (1 ms p s)
    have one: "survives (one_move ms p s) u \<Longrightarrow> (phase_step print_json)\<^sup>*\<^sup>* s u" for u
      using traced_parts(6) by (simp add: traced_def)
    show ?case
    proof (cases "one_move ms p s")
      case (Done r u)
      obtain b st q where r: "r = (b, st, q)" by (cases r)
      have u: "(phase_step print_json)\<^sup>*\<^sup>* s u" using one Done by (simp add: survives_def)
      show ?thesis
      proof (cases "\<not> b \<le> 0 \<and> st = -2")
        case True
        then have "survives (move_loop ms q u) t" using 1(2) Done r by (subst (asm) move_loop.simps) simp
        then have "(phase_step print_json)\<^sup>*\<^sup>* u t" using 1(1) [OF Done r [symmetric] refl] True by simp
        with u show ?thesis by simp
      next
        case False
        then have "t = u" using 1(2) Done r by (subst (asm) move_loop.simps) (auto simp: survives_def split: if_splits)
        then show ?thesis using u by simp
      qed
    next
      case (Exited u)
      then show ?thesis using 1(2) one by (subst (asm) move_loop.simps) (simp add: survives_def)
    qed (use 1(2) in \<open>simp_all add: move_loop.simps survives_def\<close>)
  qed
  then show ?thesis by (simp add: traced_def)
qed

lemma traced_play_rounds: "traced print_json (play_rounds ms)"
proof -
  have round: "traced print_json (one_round ms)" for ms unfolding one_round_def
    by (intro traced_andThen traced_parts traced_move_loop) (auto intro: traced_parts)
  have "survives (play_rounds ms s) t \<Longrightarrow> (phase_step print_json)\<^sup>*\<^sup>* s t" for s t
  proof (induction ms s rule: play_rounds.induct)
    case (1 ms s)
    have one: "survives (one_round ms s) u \<Longrightarrow> (phase_step print_json)\<^sup>*\<^sup>* s u" for u
      using round by (simp add: traced_def)
    show ?case
    proof (cases "one_round ms s")
      case (Done r u)
      have u: "(phase_step print_json)\<^sup>*\<^sup>* s u" using one Done by (simp add: survives_def)
      show ?thesis using 1 Done u by (cases "r = 1") (auto simp: play_rounds.simps survives_def)
    qed (use 1(2) one in \<open>simp_all add: play_rounds.simps survives_def\<close>)
  qed
  then show ?thesis by (simp add: traced_def)
qed

lemma traced_activation: "traced print_json (process_activation_request p)"
proof -
  have "traced print_json (execute_core_loop ms True)" for ms
    unfolding core_loop_phases by (intro traced_andThen traced_parts traced_play_rounds)
  then have "traced print_json (challenge_owner ms x p fd name)" for ms x fd name
    unfolding challenge_phases by (intro traced_andThen traced_parts) (auto intro: traced_andThen traced_ret)
  then show ?thesis unfolding activation_phases
    by (intro traced_andThen traced_parts) (auto intro: traced_ret split: sum.split)
qed

section \<open>The session table under play\<close>

lemma keeps_table_phases [keeps_rules]:
  "keeps table_ok (announce_joiner p)" "keeps table_ok (approach_owner ms x p fd name)"
  "keeps table_ok (lock_primary ms)" "keeps table_ok (lock_secondary ms)"
  "keeps table_ok (start_round ms)" "keeps table_ok (end_round ms b)"
  unfolding announce_joiner_def approach_owner_def lock_primary_def lock_secondary_def start_round_def end_round_def Let_def
  by (intro keeps_rules; simp)+

lemma keeps_table_phase: "keeps table_ok (run_phase print_json ph)"
  by (cases ph) (auto intro!: keeps_rules keeps_table_handler)

interpretation tables: inductive_invariant boots "phase_step print_json" table_ok
  for print_json :: "json_item list \<Rightarrow> byte list option"
proof
  show "boots t \<Longrightarrow> table_ok t" for t unfolding boots_def by (auto intro: survives_after configured_table)
next
  fix s t assume s: "table_ok s" and "phase_step print_json s t"
  from this(2) show "table_ok t"
  proof cases
    case (phase ph)
    then show ?thesis by (rule survives_after) (rule keepsD [OF keeps_table_phase s])
  next
    case drift
    then show ?thesis using s by (rule table_outside)
  qed
qed

text \<open>Between any two phases of any match the session table is consistent.\<close>

lemma phase_table_ok: "phase_reachable print_json s \<Longrightarrow> table_ok s"
  unfolding phase_reachable_def by (rule tables.always)

section \<open>Boards under play\<close>

lemma keeps_boards_phases [keeps_rules]:
  "keeps boards_ok (announce_joiner p)" "keeps boards_ok (approach_owner ms x p fd name)"
  "keeps boards_ok (lock_primary ms)" "keeps boards_ok (lock_secondary ms)"
  "keeps boards_ok (start_round ms)" "keeps boards_ok (end_round ms b)" "keeps boards_ok (finish_match ms)"
  unfolding announce_joiner_def approach_owner_def lock_primary_def lock_secondary_def start_round_def end_round_def
    finish_match_def Let_def
  by (intro keeps_rules; simp add: shaped_def)+

lemma keeps_boards_phase: "keeps boards_ok (run_phase print_json ph)"
  by (cases ph) (auto intro!: keeps_rules keeps_boards_handler)

interpretation boards: inductive_invariant boots "phase_step print_json" boards_ok
  for print_json :: "json_item list \<Rightarrow> byte list option"
proof
  show "boots t \<Longrightarrow> boards_ok t" for t by (rule boots_boards)
next
  fix s t assume s: "boards_ok s" and "phase_step print_json s t"
  from this(2) show "boards_ok t"
  proof cases
    case (phase ph)
    then show ?thesis by (rule survives_after) (rule keepsD [OF keeps_boards_phase s])
  next
    case drift
    then show ?thesis using s by (simp add: outside_change_def boards_ok_def)
  qed
qed

text \<open>
  C12. However the requests of the clients and the phases of their matches interleave, in the middle of a
  round, after a rematch or at any other point between two phases, every board a session points to has
  three rows of three cells. So the victory check and the wipe for a rematch read and write inside it, and
  each of the moves 1 to 9 is stored: none of them can fault on a board the server has.
\<close>

theorem reachable_boards:
  assumes "phase_reachable print_json s" "sessions s q = Some m" "gridMatrix m = Some g"
  shows "length g = 3 \<and> (\<forall>row\<in>set g. length row = 3) \<and>
    (\<exists>v. calculate_session_victor g fd1 fd2 = Inr v) \<and>
    wipe_topological_grid (gridMatrix m) = Inr (Some blank_board) \<and>
    (\<forall>k. 1 \<le> k \<longrightarrow> k \<le> 9 \<longrightarrow> (\<exists>g'. place_mark g k fd1 = Inr g'))"
proof -
  have "boards_ok s" using assms(1) unfolding phase_reachable_def by (rule boards.always)
  from boards_sessions(3) [OF this assms(2)] have "board_ok g" using assms(3) by (simp add: shaped_def)
  moreover have "length g = 3" "\<forall>row\<in>set g. length row = 3" using calculation by (simp_all add: board_ok_def list_all_iff)
  moreover have "\<exists>g'. place_mark g k fd1 = Inr g'" if "1 \<le> k" "k \<le> 9" for k
    using place_mark_inside [OF calculation(1) that, of fd1] by blast
  ultimately show ?thesis using assms(3) wipe_spec victor_order by simp
qed

section \<open>Ann and Bob in the middle of a round\<close>

fun run_phases :: "(json_item list \<Rightarrow> byte list option) \<Rightarrow> phase list \<Rightarrow> (server, unit) cmd" where
  "run_phases print_json [] = ret ()"
| "run_phases print_json (ph # phs) = andThen (run_phase print_json ph) (\<lambda>_. run_phases print_json phs)"

lemma traced_phases: "traced print_json (run_phases print_json phs)"
  by (induction phs) (auto intro: traced_ret traced_andThen traced_phase [OF andThen_unit])

lemma phase_reachable_run:
  assumes "phase_reachable print_json s" "run_phases print_json phs s = Done () t"
  shows "phase_reachable print_json t"
proof -
  have "(phase_step print_json)\<^sup>*\<^sup>* s t" using traced_phases [of print_json phs] assms(2) by (simp add: traced_def survives_def)
  then show ?thesis using assms(1) unfolding phase_reachable_def by (induction rule: rtranclp_induct) (auto intro: reached_step)
qed

definition table_talk :: "u32 \<Rightarrow> byte list" where
  "table_talk fd =
     (if fd = 7 then net32 3 @ ascii ''Ann'' @ net_opcode OP_APPROVE_REQ @ net32 5
      else if fd = 8 then net16 0 @ net32 3 @ ascii ''Bob'' else [])"

text \<open>Both are seated and the round is open; then Ann marks the middle.\<close>

definition seated :: "(unit, server) outcome" where
  "seated = run_phases (\<lambda>_. None)
     [Serves (Connects 7), Serves (Connects 8), Serves (Creates 1), Announces 2, Approaches 3 0 2 8 (ascii ''Bob''),
      LocksPrimary 3, LocksSecondary 3, OpensRound 3, Serves (Lists 8)] (booted table_talk [1, 2, 3])"

lemma seated_run:
  "case seated of Done _ t \<Rightarrow> match_at 3 1 2 7 8 blank_board t \<and> inbox t 7 = net32 (word_of_int 5) @ [] | _ \<Rightarrow> False"
  by code_simp

lemma seated_reachable:
  obtains t where "phase_reachable (\<lambda>_. None) t" "match_at 3 1 2 7 8 blank_board t" "inbox t 7 = net32 (word_of_int 5) @ []"
proof -
  obtain t where t: "seated = Done () t" "match_at 3 1 2 7 8 blank_board t" "inbox t 7 = net32 (word_of_int 5) @ []"
    using seated_run by (auto split: outcome.splits)
  have "case configure_stores True True (process_start (cold table_talk [1, 2, 3])) of Done _ t \<Rightarrow> True | _ \<Rightarrow> False"
    by code_simp
  then have "phase_reachable (\<lambda>_. None) (booted table_talk [1, 2, 3])"
    unfolding phase_reachable_def by (intro reached_start booted_boots)
  then have "phase_reachable (\<lambda>_. None) t" using t(1) unfolding seated_def by (rule phase_reachable_run)
  then show thesis using t(2,3) that by blast
qed

theorem reachable_boards_witness:
  "\<exists>s m. phase_reachable (\<lambda>_. None) s \<and> sessions s 3 = Some m \<and> gridMatrix m = Some [[0, 0, 0], [0, 7, 0], [0, 0, 0]] \<and>
     wipe_topological_grid (gridMatrix m) = Inr (Some blank_board)"
proof -
  obtain t where t: "phase_reachable (\<lambda>_. None) t" "match_at 3 1 2 7 8 blank_board t" "inbox t 7 = net32 (word_of_int 5) @ []"
    by (rule seated_reachable)
  have board: "place_mark blank_board 5 7 = Inr [[0, 0, 0], [0, 7, 0], [0, 0, 0]]" "board_ok [[0, 0, 0], [0, 7, 0], [0, 0, 0]]"
    "calculate_session_victor [[0, 0, 0], [0, 7, 0], [0, 0, 0]] 7 8 = Inr (-2)" by code_simp+
  obtain r u where u: "one_move 3 1 t = Done r u" "match_at 3 1 2 7 8 [[0, 0, 0], [0, 7, 0], [0, 0, 0]] u"
    using one_move_game [OF t(2) _ t(3) _ _ board] by auto
  then have "run_phases (\<lambda>_. None) [Moves 3 1] t = Done () u" by (simp add: andThen_def ret_def)
  with t(1) have s: "phase_reachable (\<lambda>_. None) u" by (rule phase_reachable_run)
  obtain m where m: "sessions u 3 = Some m" "gridMatrix m = Some [[0, 0, 0], [0, 7, 0], [0, 0, 0]]"
    using u(2) by (auto simp: match_at_def split: option.splits)
  have "wipe_topological_grid (gridMatrix m) = Inr (Some blank_board)" using reachable_boards [OF s m, of 0 0] by (elim conjE)
  with s m show ?thesis by (intro exI [of _ u] exI [of _ m] conjI)
qed

end
