(* ===== verification/Races.thy ===== *)
theory Races
  imports Leaving
begin

text \<open>
  Interleavings inside a handler. A handler gives up its locks between its calls, and another thread may
  come between two of them. The handlers concerned are cut in halves here, each half a definition, with
  the equation that puts them together again; three such cuts let a thread work on a session that
  another has replaced or destroyed.
\<close>

section \<open>The two halves of the clean-up\<close>

text \<open>Up to the return of the identifier; the value says whether there was something to do.\<close>

definition claim_orphan :: "u64 \<Rightarrow> nat \<Rightarrow> (server, bool) cmd" where
  "claim_orphan new_node idx =
     andThen (fetch_session idx) (\<lambda>(_, orphaned_session).
     if orphaned_session \<noteq> NULL then
       andThen (get_session orphaned_session) (\<lambda>m.
       if participantPrimary m = new_node then
         andThen (on_pool (relinquishSessionIdentifier (uint (sessionId m)))) (\<lambda>_. ret True)
       else ret False)
     else ret False)"

definition wipe_orphan :: "nat \<Rightarrow> (server, unit) cmd" where
  "wipe_orphan idx =
     andThen (with_grant (\<lambda>al. on_sessions (excise_at_offset al (word_of_nat idx) (Some destroyMatchSessionInstance)))) (\<lambda>_.
     ret ())"

lemma purge_orphan_halves:
  "purge_orphan p k = andThen (claim_orphan p k) (\<lambda>found. if found then wipe_orphan k else ret ())"
  by (rule ext) (auto simp: purge_orphan_def claim_orphan_def wipe_orphan_def andThen_def ret_def
      split: outcome.splits)

section \<open>What the halves do\<close>

lemma claim_run:
  assumes core: "table_core s" and k: "registered s k = ms" "ms \<noteq> NULL" "sessions s ms = Some m" "participantPrimary m = p"
    and room: "length (pooled (identifiers s)) < 20"
  obtains ids ids' where "claim_orphan p k s = Done True (s\<lparr>identifiers := ids\<rparr>)"
    "acquireNewSessionIdentifier ids = Done (int k) ids'" "pooled ids' = pooled (identifiers s)"
proof -
  obtain m' where "sessions s ms = Some m'" "unat (sessionId m') = k"
    using table_core_registered [OF core, of k] k(1,2) by blast
  then have id: "unat (sessionId m) = k" using k(3) by simp
  have uid: "uint (sessionId m) = int k" unfolding id [symmetric] by simp
  obtain used where "ids_ok (identifiers s) used" "int k \<in> used"
    using table_core_ids [OF core] k(1,2) by (auto simp: ids_cover_def)
  from relinquish_then_acquire [OF this room] obtain ids ids' where
    ids: "relinquishSessionIdentifier (int k) (identifiers s) = Done () ids"
      "acquireNewSessionIdentifier ids = Done (int k) ids'" "pooled ids' = pooled (identifiers s)" by blast
  have "k < unat (allocated_slots (activeMatchSessions s))" using k(1,2) entry_in_range by blast
  moreover have "k \<le> unat SIZE_MAX" using calculation unat_le_size_max [of "allocated_slots (activeMatchSessions s)"] by simp
  ultimately have "fetch_session k s = Done (0, ms) s" using fetch_session_run [OF table_core_store [OF core]] k(1) by simp
  then have "claim_orphan p k s = Done True (s\<lparr>identifiers := ids\<rparr>)"
    using k ids(1) uid by (simp add: claim_orphan_def andThen_def get_session_live on_pool_def ret_def)
  then show thesis using that ids(2,3) by blast
qed

text \<open>Registering over a session that is still there.\<close>

lemma register_over:
  assumes reg: "reg_ok (activeMatchSessions s)" and k: "k < unat (allocated_slots (activeMatchSessions s))" "k < 65536"
    and memory: "memory_grants s = []" "can_grow (one_grant True) (table_of (activeMatchSessions s))"
  shows "\<exists>st. register_session q (int k) s = Done () (s\<lparr>activeMatchSessions := st\<rparr>) \<and> pointer_store st \<and>
    entry st = (registered s)(k := q) \<and> occupied_slots st \<noteq> 0"
proof -
  let ?i = "word_of_int (int k) :: u64"
  have i: "unat ?i = k" using k(2) unat_word_of_small [of "int k"] by simp
  have g: "take_grant (memory_grants s) = (True, [])" using memory(1) by simp
  obtain st where st: "implant_at_offset (one_grant True) ?i (Some (ptr_bytes q)) (Some (activeMatchSessions s)) = Done 0 (Some st)"
    "pointer_store st" "entry st = (registered s)(k := q)" "occupied_slots st \<noteq> 0"
    using implant_over [OF reg, of ?i "one_grant True" q] i k(1) memory(2) by auto
  have "s\<lparr>memory_grants := [], activeMatchSessions := st\<rparr> = s\<lparr>activeMatchSessions := st\<rparr>" using memory(1) by simp
  then have "register_session q (int k) s = Done () (s\<lparr>activeMatchSessions := st\<rparr>)"
    using st(1) g by (simp add: register_session_def cmd_defs with_grant_def on_sessions_def outcome_simps)
  then show ?thesis using st(2-4) by blast
qed

lemma wipe_run:
  assumes "pointer_store (activeMatchSessions s)" "occupied_slots (activeMatchSessions s) \<noteq> 0"
    and "registered s k = q" "q \<noteq> NULL" "sessions s q = Some m" "k < 65536" "memory_grants s = []"
  shows "\<exists>st. wipe_orphan k s = Done () (s\<lparr>sessions := (sessions s)(q := None), activeMatchSessions := st\<rparr>) \<and>
    entry st = (registered s)(k := NULL)"
proof -
  have "unat (word_of_nat k :: u64) = k" using assms(6) by (simp add: unat_of_nat)
  from remove_entry_run [OF assms(1,2) this assms(3-5)] obtain st where
    r: "with_grant (\<lambda>al. on_sessions (excise_at_offset al (word_of_nat k) (Some destroyMatchSessionInstance))) s =
      Done 0 (s\<lparr>sessions := (sessions s)(q := None), activeMatchSessions := st,
        memory_grants := snd (take_grant (memory_grants s))\<rparr>)" "entry st = (registered s)(k := NULL)" by auto
  have "s\<lparr>sessions := (sessions s)(q := None), activeMatchSessions := st, memory_grants := snd (take_grant (memory_grants s))\<rparr> =
      s\<lparr>sessions := (sessions s)(q := None), activeMatchSessions := st\<rparr>" using assms(7) by simp
  then show ?thesis using r by (auto simp: wipe_orphan_def andThen_def ret_def)
qed

text \<open>
  A creation that is given the identifier of a session that is still registered: it succeeds, and the
  new session takes the place of the old one.
\<close>

lemma create_over:
  assumes reg: "reg_ok (activeMatchSessions s)" and k: "k < unat (allocated_slots (activeMatchSessions s))" "k < 65536"
    and drawn: "acquireNewSessionIdentifier (identifiers s) = Done (int k) ids"
    and others: "\<And>j. j \<noteq> k \<Longrightarrow> registered s j \<noteq> NULL \<Longrightarrow> \<exists>m. sessions s (registered s j) = Some m \<and> readable s m"
    and creator: "b \<noteq> NULL" "nodes s b = Some n" "activeSessionId n = -1"
      "inbox s (socketDescriptor n) = name_message name @ rest" "proper_name name"
    and memory: "memory_grants s = []" "struct_addresses s = q # qs" "q \<noteq> NULL" "nodes s q = None" "sessions s q = None"
      "can_grow (one_grant True) (table_of (activeMatchSessions s))"
  shows "\<exists>t. process_instantiation_request b s = Done 0 t \<and> registered t = (registered s)(k := q) \<and>
    pointer_store (activeMatchSessions t) \<and> occupied_slots (activeMatchSessions t) \<noteq> 0 \<and>
    sessions t = (sessions s)(q \<mapsto> waiting_session b (int k)) \<and>
    nodes t = (nodes s)(b \<mapsto> n\<lparr>identityMoniker := Some name, activeSessionId := int k\<rparr>) \<and>
    identifiers t = ids \<and> memory_grants t = []"
proof -
  obtain es e where run: "process_instantiation_request b s =
      andThen (register_session q (int k)) (\<lambda>_.
      andThen (set_session q (\<lambda>m. m\<lparr>currentState := STATE_PENDING_PLYR\<rparr>)) (\<lambda>_.
      andThen (set_node b (\<lambda>n. n\<lparr>activeSessionId := int k\<rparr>)) (\<lambda>_.
      andThen audit_sessions (\<lambda>_.
      andThen broadcast_session_state_update (\<lambda>_. ret 0)))))
      (s\<lparr>identifiers := ids, channels := (channels s)(socketDescriptor n := es), errno := e,
        nodes := (nodes s)(b \<mapsto> n\<lparr>identityMoniker := Some name\<rparr>), struct_addresses := qs,
        sessions := (sessions s)(q \<mapsto> (fresh_session b (int k))\<lparr>gridMatrix := Some blank_board\<rparr>)\<rparr>)"
    using create_until_register [OF creator(1-3) drawn creator(4,5) memory(1-5)] by auto
  define u where "u = s\<lparr>identifiers := ids, channels := (channels s)(socketDescriptor n := es), errno := e,
      nodes := (nodes s)(b \<mapsto> n\<lparr>identityMoniker := Some name\<rparr>), struct_addresses := qs,
      sessions := (sessions s)(q \<mapsto> (fresh_session b (int k))\<lparr>gridMatrix := Some blank_board\<rparr>)\<rparr>"
  from register_over [of u k q] reg k memory(1,6) obtain st where
    st: "register_session q (int k) u = Done () (u\<lparr>activeMatchSessions := st\<rparr>)" "pointer_store st"
      "entry st = (registered s)(k := q)" "occupied_slots st \<noteq> 0" by (auto simp: u_def)
  define t where "t = u\<lparr>activeMatchSessions := st, sessions := (sessions s)(q \<mapsto> waiting_session b (int k)),
      nodes := (nodes s)(b \<mapsto> n\<lparr>identityMoniker := Some name, activeSessionId := int k\<rparr>)\<rparr>"
  have "set_session q (\<lambda>m. m\<lparr>currentState := STATE_PENDING_PLYR\<rparr>) (u\<lparr>activeMatchSessions := st\<rparr>) =
      Done () (u\<lparr>activeMatchSessions := st, sessions := (sessions s)(q \<mapsto> waiting_session b (int k))\<rparr>)"
    using memory(3) by (simp add: set_session_def get_session_live andThen_def u_def waiting_session_def)
  moreover have "set_node b (\<lambda>n. n\<lparr>activeSessionId := int k\<rparr>)
      (u\<lparr>activeMatchSessions := st, sessions := (sessions s)(q \<mapsto> waiting_session b (int k))\<rparr>) = Done () t"
    using creator(1) by (simp add: set_node_def get_node_live andThen_def u_def t_def)
  moreover have "\<exists>m. sessions t (registered t j) = Some m \<and> readable t m" if j: "registered t j \<noteq> NULL" for j
  proof (cases "j = k")
    case True
    then show ?thesis using st(3) creator(1)
      by (auto simp: t_def u_def readable_def waiting_session_def fresh_session_def)
  next
    case False
    then have r: "registered s j \<noteq> NULL" "registered t j = registered s j" using j st(3) by (simp_all add: t_def)
    obtain m where m: "sessions s (registered s j) = Some m" "readable s m" using others [OF False r(1)] by blast
    have "readable t m" using m(2) by (auto simp: readable_def t_def u_def)
    moreover have "registered s j \<noteq> q" using m(1) memory(5) by auto
    ultimately show ?thesis using m(1) r(2) by (auto simp: t_def u_def)
  qed
  then have "registry_readable t" using st(2) by (simp add: registry_readable_def t_def)
  moreover have "memory_grants t = []" using memory(1) by (simp add: t_def u_def)
  ultimately have "process_instantiation_request b s = Done 0 t"
    using run st(1) by (simp add: andThen_def ret_def audit_skip broadcast_skip flip: u_def)
  then show ?thesis using st(2-4) memory(1) by (intro exI [of _ t]) (simp add: t_def u_def)
qed

section \<open>The race\<close>

text \<open>
  C24. A leaving player has a session, and between the two halves of its clean-up another player creates
  one. The creation succeeds and is given the identifier that has just come back, over the session that is
  still registered under it; the second half then destroys the new session. In the end the new
  owner is bound to a session that is gone, the old session is still in the heap but no longer in the
  registry, so nobody will ever free it, and the identifier is neither in the registry nor in the pool.
\<close>

theorem creation_lost:
  assumes core: "table_core s"
    and orphan: "registered s k = ms" "ms \<noteq> NULL" "sessions s ms = Some m" "participantPrimary m = p"
    and others: "\<forall>j m. j \<noteq> k \<longrightarrow> registered s j \<noteq> NULL \<longrightarrow> sessions s (registered s j) = Some m \<longrightarrow> readable s m"
    and pool: "length (pooled (identifiers s)) < 20"
    and creator: "b \<noteq> NULL" "nodes s b = Some n" "activeSessionId n = -1"
      "inbox s (socketDescriptor n) = name_message name @ rest" "proper_name name"
    and memory: "memory_grants s = []" "struct_addresses s = q # qs" "q \<noteq> NULL" "nodes s q = None" "sessions s q = None"
      "can_grow (one_grant True) (table_of (activeMatchSessions s))"
  shows "\<exists>s1 s2 s3. claim_orphan p k s = Done True s1 \<and>
    process_instantiation_request b s1 = Done 0 s2 \<and>
    registered s2 = (registered s)(k := q) \<and> sessions s2 = (sessions s)(q \<mapsto> waiting_session b (int k)) \<and>
    wipe_orphan k s2 = Done () s3 \<and>
    registered s3 = (registered s)(k := NULL) \<and> sessions s3 = sessions s \<and>
    nodes s3 = (nodes s)(b \<mapsto> n\<lparr>identityMoniker := Some name, activeSessionId := int k\<rparr>) \<and>
    pooled (identifiers s3) = pooled (identifiers s)"
proof -
  obtain m' where "sessions s ms = Some m'" "unat (sessionId m') = k"
    using table_core_registered [OF core, of k] orphan(1,2) by blast
  then have k: "k < unat (allocated_slots (activeMatchSessions s))" "k < 65536"
    using unsigned_less [where ?'a = nat, of "sessionId m'"] orphan(1,2) entry_in_range by auto
  obtain ids ids' where claim: "claim_orphan p k s = Done True (s\<lparr>identifiers := ids\<rparr>)"
    and drawn: "acquireNewSessionIdentifier ids = Done (int k) ids'" "pooled ids' = pooled (identifiers s)"
    using core orphan pool by (rule claim_run)
  let ?s1 = "s\<lparr>identifiers := ids\<rparr>"
  have live: "\<exists>m. sessions ?s1 (registered ?s1 j) = Some m \<and> readable ?s1 m" if "j \<noteq> k" "registered ?s1 j \<noteq> NULL" for j
    using table_core_registered [OF core, of j] others that by (fastforce simp: readable_def)
  have "reg_ok (activeMatchSessions s)" "inbox ?s1 = inbox s" using table_core_reg [OF core] by (simp_all add: inbox_def fun_eq_iff)
  then obtain s2 where made: "process_instantiation_request b ?s1 = Done 0 s2" "registered s2 = (registered s)(k := q)"
    and store: "pointer_store (activeMatchSessions s2)" "occupied_slots (activeMatchSessions s2) \<noteq> 0" "memory_grants s2 = []"
    and parts: "sessions s2 = (sessions s)(q \<mapsto> waiting_session b (int k))" "identifiers s2 = ids'"
      "nodes s2 = (nodes s)(b \<mapsto> n\<lparr>identityMoniker := Some name, activeSessionId := int k\<rparr>)"
    using create_over [of ?s1 k ids' b n name rest q qs, OF _ _ _ _ live] k creator memory drawn(1) by auto
  obtain st where "wipe_orphan k s2 = Done () (s2\<lparr>sessions := (sessions s2)(q := None), activeMatchSessions := st\<rparr>)"
    "entry st = (registered s2)(k := NULL)"
    using wipe_run [OF store(1,2), of k q "waiting_session b (int k)"] store(3) made(2) parts(1) memory(3) k(2) by auto
  moreover have "(sessions s2)(q := None) = sessions s" using parts(1) memory(5) by (simp add: fun_upd_idem)
  ultimately show ?thesis using claim made parts drawn(2)
    by (intro exI [of _ ?s1] exI [of _ s2] exI [of _ "s2\<lparr>sessions := (sessions s2)(q := None), activeMatchSessions := st\<rparr>"]) simp
qed

text \<open>Ann leaves, and Bob creates a session at the wrong moment.\<close>

theorem creation_lost_witness:
  "\<exists>s1 s2 s3. claim_orphan 1 0 (lounge (\<lambda>_. name_message (ascii ''Bob''))) = Done True s1 \<and>
     process_instantiation_request 2 s1 = Done 0 s2 \<and> registered s2 0 = 4 \<and> wipe_orphan 0 s2 = Done () s3 \<and>
     registered s3 0 = NULL \<and> sessions s3 = [3 \<mapsto> waiting_session 1 0] \<and>
     map_option activeSessionId (nodes s3 2) = Some 0 \<and> pooled (identifiers s3) = []"
proof -
  let ?s = "lounge (\<lambda>_. name_message (ascii ''Bob''))"
  have r: "registered ?s = (\<lambda>_. NULL)(0 := 3)" using one_session_ok by simp
  have p: "pooled (identifiers ?s) = []" by (simp add: lounge_def pooled_def)
  have g: "can_grow (one_grant True) (table_of (activeMatchSessions ?s))"
    by (simp add: can_grow_def one_session_def)
  have "\<exists>s1 s2 s3. claim_orphan 1 0 ?s = Done True s1 \<and> process_instantiation_request 2 s1 = Done 0 s2 \<and>
      registered s2 = (registered ?s)(0 := 4) \<and> sessions s2 = (sessions ?s)(4 \<mapsto> waiting_session 2 (int 0)) \<and>
      wipe_orphan 0 s2 = Done () s3 \<and> registered s3 = (registered ?s)(0 := NULL) \<and> sessions s3 = sessions ?s \<and>
      nodes s3 = (nodes ?s)(2 \<mapsto> bob\<lparr>identityMoniker := Some (ascii ''Bob''), activeSessionId := int 0\<rparr>) \<and>
      pooled (identifiers s3) = pooled (identifiers ?s)"
    by (rule creation_lost [OF lounge_core, of "\<lambda>_. name_message (ascii ''Bob'')" 0 3 "waiting_session 1 0" 1 2 bob "ascii ''Bob''" "[]" 4 "[]"])
      (use r p g names_proper in \<open>simp_all add: bob_def waiting_session_def fresh_session_def\<close>)
  then show ?thesis by (elim ex_forward) (use r p in auto)
qed

section \<open>A join request that comes during a match\<close>

text \<open>
  The request up to the lock of the owner's stream, which a running match holds: the session has been
  looked up, the value is its owner, the owner's socket and whether the text could be formatted. What follows once the lock is free.
\<close>

definition find_owner :: "u64 \<Rightarrow> (server, u64 \<times> u32 \<times> bool) cmd" where
  "find_owner target =
     andThen (get_session target) (\<lambda>m.
     andThen (get_node (participantPrimary m)) (\<lambda>master.
     andThen system_grant (\<lambda>formatted. ret (participantPrimary m, socketDescriptor master, formatted))))"

definition await_verdict :: "u64 \<Rightarrow> int \<Rightarrow> u64 \<Rightarrow> u32 \<Rightarrow> byte list \<Rightarrow> u64 \<times> u32 \<times> bool \<Rightarrow> (server, int) cmd" where
  "await_verdict target target_sess_id p_node local_socket name = (\<lambda>(master_node, master_socket, formatted).
     andThen (ask_owner master_node master_socket (if formatted then Some (challenge_text name) else None)) (\<lambda>master_verdict.
     andThen (send_bytes local_socket (net32 master_verdict)) (\<lambda>_.
     if sint master_verdict \<noteq> opcode_value OP_APPROVE_REQ then ret 0
     else
       andThen (set_session target (\<lambda>m. m\<lparr>participantSecondary := p_node, currentState := STATE_IN_PROGRESS\<rparr>)) (\<lambda>_.
       andThen (dumpMatchSessionDiagnostics target) (\<lambda>_.
       andThen (set_node p_node (\<lambda>n. n\<lparr>activeSessionId := target_sess_id\<rparr>)) (\<lambda>_.
       andThen (set_node master_node (\<lambda>n. n\<lparr>activeSessionId := target_sess_id, timeoutTicks := 1\<rparr>)) (\<lambda>_.
       andThen broadcast_session_state_update (\<lambda>_.
       andThen (execute_core_loop target True) (\<lambda>_. ret 0)))))))))"

lemma challenge_owner_halves:
  "challenge_owner ms x p fd name = andThen (find_owner ms) (await_verdict ms x p fd name)"
  by (rule ext) (simp add: challenge_owner_def find_owner_def await_verdict_def andThen_def ret_def raise_def Let_def
      split: outcome.splits)

lemma verdict_dangles:
  assumes gone: "ms \<noteq> NULL" "sessions t ms = None"
    and owner: "a \<noteq> NULL" "nodes t a = Some na" "streamLock na = Unlocked" "socketDescriptor na = v1" "v1 \<notin> set (reset_peers t)"
    and answer: "inbox t v1 = net_opcode OP_APPROVE_REQ @ rest" "fd \<notin> set (reset_peers t)"
  shows "await_verdict ms x p fd name (a, v1, True) t = Fault Use_After_Free"
proof -
  let ?v = "word_of_int (opcode_value OP_APPROVE_REQ) :: u32"
  have v: "net32 ?v = net_opcode OP_APPROVE_REQ" "sint ?v = opcode_value OP_APPROVE_REQ" by (simp_all add: net_opcode_def)
  obtain es e where "ask_owner a v1 (Some (challenge_text name)) t =
      Done ?v (t\<lparr>channels := (channels t)(v1 := es), errno := e, sent := sent t @ [(v1, challenge_text name)]\<rparr>)"
    using ask_owner_run [OF owner] answer(1) v(1) by metis
  then show ?thesis using gone answer(2) v(2)
    by (simp add: await_verdict_def andThen_def send_bytes_def set_session_def get_session_def)
qed

text \<open>
  C25. A third player asks for a session whose match is about to begin or under way: its request finds the
  session and its owner and waits for the owner's lock, which the match holds. The match is played
  to its end, which destroys the session. The request goes on with the pointer it has: the owner is
  asked all the same, and when it approves, the request writes into freed memory.
\<close>

theorem late_joiner_dangles:
  assumes table: "table_core s" "table_readable s" "memory_grants s = []"
    and at: "match_at ms p1 p2 v1 v2 g s" "sessions s ms = Some m"
    and players: "p1 \<noteq> p2" "nodes s p1 = Some n1" "nodes s p2 = Some n2" "streamLock n1 = Unlocked" "streamLock n2 = Unlocked"
    and draw: "randoms s = r # rs" "mover = (if odd r then v2 else v1)"
    and moves: "feeds v1 v2 mover ks (inbox s)" "\<forall>k\<in>set ks. - (2 ^ 31) \<le> k \<and> k < 2 ^ 31"
    and outcome: "game v1 v2 mover g ks = Inr (status, g', nxt)" "status \<noteq> -2"
    and answers: "leftover v1 v2 mover g ks (inbox s) v1 = net16 a @ net_opcode OP_APPROVE_REQ @ rest"
      "leftover v1 v2 mover g ks (inbox s) v2 = net16 b @ r2"
      "uint a \<noteq> opcode_value OP_APPROVE_REQ \<or> uint b \<noteq> opcode_value OP_APPROVE_REQ"
    and third: "fd \<notin> set (reset_peers s)"
  shows "\<exists>t. find_owner ms s = Done (p1, v1, True) s \<and> execute_core_loop ms True s = Done () t \<and>
    await_verdict ms x p fd name (p1, v1, True) t = Fault Use_After_Free"
proof -
  obtain ch e st ids where run: "execute_core_loop ms True s = Done () (s\<lparr>randoms := rs, channels := ch, errno := e,
      sent := sent s @ [(v1, net32 mover), (v2, net32 mover)] @ transcript v1 v2 mover g ks @
        [(v1, net_code16 OP_DECLINE_REQ), (v2, net_code16 OP_DECLINE_REQ)],
      nodes := (nodes s)(p1 \<mapsto> freed n1, p2 \<mapsto> freed n2), sessions := (sessions s)(ms := None),
      activeMatchSessions := st, identifiers := ids\<rparr>)" (is "_ = Done () ?t")
    and left: "pending (ch v1) = net_opcode OP_APPROVE_REQ @ rest"
    using match_run [OF table at players draw moves outcome answers] by blast
  have s: "ms \<noteq> NULL" "p1 \<noteq> NULL" "v1 \<notin> set (reset_peers s)" "participantPrimary m = p1" "socketDescriptor n1 = v1"
    using at players(2) by (simp_all add: match_at_def)
  have "find_owner ms s = Done (p1, v1, True) s"
    using s at(2) players(2) table(3) by (simp add: find_owner_def andThen_def get_session_live get_node_live system_granted ret_def)
  moreover have "await_verdict ms x p fd name (p1, v1, True) ?t = Fault Use_After_Free"
    by (rule verdict_dangles [where na = "freed n1"]) (use s players(1) left third in \<open>simp_all add: freed_def inbox_def\<close>)
  ultimately show ?thesis using run by blast
qed

text \<open>Ann and Bob play; a third player on socket 9 has asked Ann, who approves after the match.\<close>

definition late_input :: "u32 \<Rightarrow> byte list" where
  "late_input fd = (if fd = 7 then duel_input 7 @ net_opcode OP_APPROVE_REQ else duel_input fd)"

lemma late_game:
  "feeds 7 8 7 [1, 4, 2, 5, 3] late_input"
  "leftover 7 8 7 blank_board [1, 4, 2, 5, 3] late_input 7 = net_code16 OP_DECLINE_REQ @ net_opcode OP_APPROVE_REQ"
  "leftover 7 8 7 blank_board [1, 4, 2, 5, 3] late_input 8 = net_code16 OP_APPROVE_REQ"
  by code_simp+

theorem late_joiner_dangles_witness:
  "\<exists>t. find_owner 3 (duel late_input) = Done (1, 7, True) (duel late_input) \<and> execute_core_loop 3 True (duel late_input) = Done () t \<and>
     await_verdict 3 0 4 9 (ascii ''Cem'') (1, 7, True) t = Fault Use_After_Free"
proof -
  let ?s = "duel late_input"
  have table: "table_core ?s" "table_readable ?s" "memory_grants ?s = []"
  proof -
    have "table_core ((lounge late_input)\<lparr>sessions := (sessions (lounge late_input))(3 \<mapsto> joined 2 (waiting_session 1 0))\<rparr>)"
      by (rule table_core_session_update [OF lounge_core]) simp_all
    then show "table_core ?s" by (simp add: duel_def joined_def)
    show "table_readable ?s"
      by (auto simp: table_readable_def readable_def duel_def waiting_session_def fresh_session_def split: if_splits)
  qed (simp add: duel_def)
  have f: "feeds 7 8 7 [1, 4, 2, 5, 3] (inbox ?s)" using late_game(1) by (simp add: inbox_duel)
  have s: "nodes ?s 1 = Some ann" "nodes ?s 2 = Some (bob\<lparr>activeSessionId := 0\<rparr>)" "streamLock ann = Unlocked"
    "streamLock (bob\<lparr>activeSessionId := 0\<rparr>) = Unlocked" "randoms ?s = 0 # []" "7 = (if odd (0 :: int) then 8 else 7 :: u32)"
    by (simp_all add: duel_def ann_def bob_def)
  have l: "leftover 7 8 7 blank_board [1, 4, 2, 5, 3] (inbox ?s) 7 =
      net16 (word_of_int (opcode_value OP_DECLINE_REQ)) @ net_opcode OP_APPROVE_REQ @ []"
    "leftover 7 8 7 blank_board [1, 4, 2, 5, 3] (inbox ?s) 8 = net16 (word_of_int (opcode_value OP_APPROVE_REQ)) @ []"
    using late_game(2,3) by (simp_all add: inbox_duel net_code16_def)
  have k: "\<forall>k\<in>set [1, 4, 2, 5, 3]. - (2 ^ 31) \<le> k \<and> k < (2 ^ 31 :: int)" "(7 :: int) \<noteq> -2"
    "uint (word_of_int (opcode_value OP_DECLINE_REQ) :: u16) \<noteq> opcode_value OP_APPROVE_REQ \<or>
     uint (word_of_int (opcode_value OP_APPROVE_REQ) :: u16) \<noteq> opcode_value OP_APPROVE_REQ" "(1 :: u64) \<noteq> 2" by simp_all
  have "9 \<notin> set (reset_peers ?s)" by (simp add: duel_def)
  from late_joiner_dangles [OF table duel_at duel_session k(4) s f k(1) duel_game(1) k(2) l k(3) this] show ?thesis .
qed

section \<open>A listing that comes during a clean-up\<close>

text \<open>
  One slot of the listing from the pointer that was fetched on: the registry is not locked any more. If the
  owner of the session leaves just then, the listing reads a session that is freed.
\<close>

definition list_entry :: "u64 \<Rightarrow> nat list \<Rightarrow> (server, json_item list) cmd" where
  "list_entry sess_ptr ks =
     andThen system_grant (\<lambda>item_obj.
     if item_obj then
       andThen (session_item sess_ptr) (\<lambda>item.
       andThen (collect_items ks) (\<lambda>items. ret (item # items)))
     else collect_items ks)"

lemma collect_halves:
  "collect_items (k # ks) = andThen (fetch_session k) (\<lambda>(rc, sess_ptr).
     if rc = 0 \<and> sess_ptr \<noteq> NULL then list_entry sess_ptr ks else collect_items ks)"
  unfolding list_entry_def collect_items.simps ..

lemma listing_dangles:
  assumes core: "table_core s" and k: "registered s k = ms" "ms \<noteq> NULL" "sessions s ms = Some m"
  shows "\<exists>t. fetch_session k s = Done (0, ms) s \<and> purge_orphans (participantPrimary m) s = Done () t \<and>
    (fst (take_grant (memory_grants t)) \<longrightarrow> list_entry ms ks t = Fault Use_After_Free)"
proof -
  have i: "k < unat (allocated_slots (activeMatchSessions s))" using k(1,2) entry_in_range by blast
  then have "k \<le> unat SIZE_MAX" by (intro index_le) simp
  then have f: "fetch_session k s = Done (0, ms) s" using fetch_session_run [OF table_core_store [OF core]] k(1) i by simp
  obtain t where r: "purge_orphans (participantPrimary m) s = Done () t"
    and q: "\<And>q. sessions t q = (case sessions s q of None \<Rightarrow> None | Some n \<Rightarrow> if participantPrimary n = participantPrimary m then None else Some n)"
    using purge_run [OF core, of "participantPrimary m"] by blast
  have t: "sessions t ms = None" unfolding q k(3) by simp
  have "list_entry ms ks t = Fault Use_After_Free" if g: "take_grant (memory_grants t) = (True, gs)" for gs
  proof -
    have "session_item ms (t\<lparr>memory_grants := gs\<rparr>) = Fault Use_After_Free"
      using t k(2) by (simp add: session_item_def get_session_def andThen_def)
    then show ?thesis using g by (simp add: list_entry_def system_grant_def andThen_def)
  qed
  then show ?thesis using f r by (intro exI [of _ t] conjI impI) (simp_all add: prod_eq_iff)
qed

end
