(* ===== verification/Spec2Isabelle.thy ===== *)
theory Spec2Isabelle
  imports Fifo Failures Threads Phases Races
begin

text \<open>
  A verification development of the tic-tac-toe server of this repository, the C program in
  \<^verbatim>\<open>src/Server\<close>.

  \<^bold>\<open>The program.\<close> \<^verbatim>\<open>main\<close> (\<^verbatim>\<open>main.c\<close>) configures two dynamic arrays, the players and the sessions, binds a
  port and starts a thread for each accepted connection. A thread (\<^verbatim>\<open>executePlayerNodeLifecycle\<close> in
  \<^verbatim>\<open>server.c\<close>) appends its node to the players, polls its socket once a second, runs the handler of each
  request, and cleans up when the link ends or is silent for thirty seconds. A client creates a session
  (\<^verbatim>\<open>process_instantiation_request\<close>), lists the sessions (\<^verbatim>\<open>process_queue_fetch\<close>) or joins one
  (\<^verbatim>\<open>process_activation_request\<close>), which asks the owner and then plays the match in the joiner's thread
  (\<^verbatim>\<open>execute_core_loop\<close>). The identifier of a session, from a counter and a pool of returned ones, is its
  index in the array of sessions. \<^verbatim>\<open>queue_list.c\<close> is a linked queue that stands on its own.

  \<^bold>\<open>Outcomes.\<close> A routine is a function from a state to an outcome (\<open>Prelude\<close>): a value with a new state,
  the end of the thread, the end of the process, or undefined behaviour, which is named by a \<open>fault\<close> and
  never given a value; locking a destroyed mutex and destroying a held one are such faults. \<open>andThen\<close> sequences routines. Integers have their C width where it matters;
  structs are records, pointers are addresses with 0 for NULL, a heap of structs is a map.

  \<^bold>\<open>The model, part by part.\<close>
  \<^item> \<open>DynArray\<close> is \<^verbatim>\<open>dynamic_array.c\<close> and its header, byte by byte: the struct is the record \<open>dyn_array\<close>, each
    routine a definition of the same name. The allocator's answer is an argument. \<open>demolish_by_free\<close> is the
    destruction with \<^verbatim>\<open>free\<close> as the hook, as \<^verbatim>\<open>main.c\<close> calls it: it follows which addresses are freed.
  \<^item> \<open>Ledger\<close> is \<^verbatim>\<open>queue_list.c\<close> and its header, over a heap of units and a heap of payload blocks.
  \<^item> \<open>IdPool\<close> is the counter and the pool of session identifiers, \<open>Wire\<close> the enumerations of \<^verbatim>\<open>server.h\<close> with
    their log strings and byte order, \<open>Stream_IO\<close> the exact read \<^verbatim>\<open>consumeExactBytesFromStream\<close>, \<open>Grid\<close> the
    board, the alignment tests and the choice of the victor.
  \<^item> \<open>Server_State\<close> has the record \<open>server\<close>: the globals of \<^verbatim>\<open>server.c\<close>, the heaps of \<^verbatim>\<open>PlayerNode\<close> and
    \<^verbatim>\<open>MatchSession\<close> structs, and the environment; and the destructors and diagnostics.
  \<^item> \<open>Match\<close> is \<^verbatim>\<open>execute_core_loop\<close> with the rematch, \<open>Handlers\<close> the three requests, \<open>Lifecycle\<close> the thread of a
    client, \<open>Server_Main\<close> \<^verbatim>\<open>main.c\<close> with the handler of \<^verbatim>\<open>SIGINT\<close>.
  \<^item> \<open>System\<close> and \<open>Threads\<close> put the handlers together: a transition system whose steps are requests,
    arrivals and departures of any clients in any order. \<open>Phases\<close> is the same at a finer grain: a join is cut
    into its phases, with those of other requests and matches between them.

  \<^bold>\<open>The lemmas.\<close>
  \<^item> \<open>Slots\<close> and \<open>StoreRuns\<close> refine the dynamic array to an abstract table of cells: the invariant \<open>da_ok\<close>, one
    equation per routine, and the refinement of whole histories of calls. An implant overwrites and a removal
    leaves a hole, contrary to what the tests in \<^verbatim>\<open>tests/dynamic_array_test.c\<close> expect; \<open>StoreRuns\<close> runs
    their examples. \<open>Registry\<close> reads the table as
    a map from indices to pointers, with the locale \<open>slot_map\<close> for what its users rely on.
  \<^item> \<open>Ledger_Queue\<close> refines the linked queue to a list; \<open>Fifo\<close> states what a queue promises as a locale and
    interprets it on \<^verbatim>\<open>push_to_chain\<close> and \<^verbatim>\<open>pop_from_chain\<close>.
  \<^item> \<open>Match_Spec\<close> and \<open>Match_End\<close> refine a match on sockets and heap to the abstract game of \<open>Grid\<close>, from the
    first move to the return of the identifier, and bound both loops; \<open>Joining\<close> puts the request that
    leads to a match before it.
  \<^item> \<open>Requests_Spec\<close> has the effect of the requests on each branch, \<open>Leaving\<close> the deadline and the clean-up of
    sessions, \<open>Connections\<close> arriving and leaving in the registry of players.
  \<^item> \<open>Session_Table\<close> and \<open>Table_Invariant\<close>: the invariant \<open>table_ok\<close> ties the registry of sessions, the heap and
    the identifier pool together; every operation keeps it. \<open>Board_Types\<close>: every operation keeps
    the shape of the boards. \<open>Phases\<close> draws both conclusions for every state between two phases, and shows
    that each run of the handler is a path of phases.
  \<^item> \<open>Roster\<close> and \<open>Roster_Frame\<close>: the registry of players, which appends at its count although removals leave
    gaps, so that pointers are lost. \<open>roster_ok\<close> is what survives; \<open>Threads\<close> shows by it that a registered
    player is always live and on a socket of its own, that sessions have live owners, and what leaving
    does.
  \<^item> \<open>Failures\<close>: what clients or the operator can break. \<open>Lounge\<close> and \<open>Arena\<close> are concrete servers on which
    properties are evaluated.
  \<^item> \<open>Races\<close> cuts three handlers where they hold no lock and lets another thread's request come in between: a
    creation that loses its session to a clean-up, a join request that outlives the session it found, and a
    listing that reads a session a clean-up has freed.
  \<^item> The locales \<open>inductive_invariant\<close> and \<open>projection\<close> of \<open>Prelude\<close> are the induction over runs; they are
    interpreted for the session table, the boards, the threads, and the steps from \<open>Threads\<close> to \<open>System\<close> and from
    \<open>System\<close> to \<open>Phases\<close>. The
    collection \<open>keeps_rules\<close> proves that a command keeps an assertion.

  \<^bold>\<open>The environment.\<close> What the program does not decide is part of the state as a script or an argument: what
  \<^verbatim>\<open>recv\<close> will deliver on each socket, cut anywhere and mixed with signals, timeouts and failures; the
  addresses \<^verbatim>\<open>malloc\<close> gives to structs, never one in use, and the refusals of other allocations; the
  numbers of \<^verbatim>\<open>rand\<close>; the clock; the content of uninitialised variables; the peers that have reset their
  connection; the reports of \<^verbatim>\<open>select\<close> and \<^verbatim>\<open>accept\<close>. The printer of cJSON, a third-party library, is the
  argument \<open>print_json\<close>, any function; each object and field it is asked to add may be refused. Once a script is used up, a socket times out, a struct is refused and
  any other request is granted.

  \<^bold>\<open>Loops and bounds.\<close> No fuel is used. The loops over arrays and queues are over finite data; the exact read
  and the match recurse on what the sockets will still deliver (\<open>inbox_weight\<close>); the polling and the accept
  loop run over a finite script of polls or connections, which every finite part of a run has. The assertion
  \<open>ids_bounded\<close> (at most \<open>2 ^ 16\<close> identifiers drawn) is the condition under which an identifier is faithfully
  kept in the 16 bits of \<^verbatim>\<open>sessionId\<close>.

  \<^bold>\<open>Interleaving.\<close> In \<open>System\<close> and \<open>Threads\<close> the threads interleave at the grain of a request: a handler, with
  the match it plays, is one step, during which the other threads wait. The routines that hold one lock
  throughout are such steps in the program as well; handlers are not. In \<open>Phases\<close> a step is a whole request
  or one phase of a join: reading the request, asking the owner and binding both players, each of the two
  locks, the start of a round, one move, the end of a round with the rematch, the end of the match. The
  consistency of the session table and the shape of the boards hold at that grain; what \<open>Threads\<close> says of
  nodes and owners is said of whole requests, and \<open>Races\<close> has three cuts inside handlers that break it.
  A thread that finds a lock taken would wait; here that is the fault \<open>Relock\<close>, so it has no step until the
  lock is free. A state after undefined behaviour or after the end of the process has no successor, so the
  invariants speak of runs up to there; what leads to a fault is stated on its own.

  \<^bold>\<open>Not modelled.\<close> Text that is only printed (of the diagnostics, what they dereference is modelled); \<^verbatim>\<open>setvbuf\<close>,
  \<^verbatim>\<open>srand\<close> and \<^verbatim>\<open>setsockopt\<close>, whose results are not used; a refusal of \<^verbatim>\<open>pthread_create\<close> for the two rematch
  threads; interleavings inside a handler other than those of \<open>Phases\<close> and \<open>Races\<close>; the test programs; the Java client, another program, of
  which the server sees what its sockets deliver.
\<close>

end
